(* ===== verification/Prelude.thy ===== *)
theory Prelude
  imports Main "HOL-Library.Word"
begin

text \<open>
  The prelude: the Go vocabulary every component shares.
  Errors are values (\<open>go_error\<close>), pointers are options, slices that may be nil are options of
  lists, Go strings are byte lists (\<open>string\<close>), an \<open>int32\<close> is a 32-bit word.
  The generic facts on options, maps and lists that the component proofs use are here, and the
  collections (\<open>named_theorems\<close>) the component theories add their facts to.
\<close>

named_theorems go_simps \<open>evaluation of the Go vocabulary\<close>
named_theorems frame_simps \<open>what an operation leaves unchanged\<close>
named_theorems api_simps \<open>API constants and object accessors\<close>

section \<open>Errors\<close>

text \<open>
  An error of an API call carries the \<open>reason\<close> of the \<open>Status\<close> object it was made from
  (\<open>ApiError\<close>); \<open>fmt.Errorf\<close> without a verb for an error gives \<open>Errorf\<close>, and with \<open>%w\<close> it
  wraps the error (\<open>Wrapf\<close>), so that \<open>errors.As\<close> still finds the status below. \<open>JsonError\<close> is
  an error of \<open>encoding/json\<close>, whose text is not modelled.
\<close>

datatype api_reason = ReasonNotFound | ReasonAlreadyExists | ReasonConflict | ReasonOther string

datatype go_error = Errorf string | ApiError api_reason | Wrapf string go_error | JsonError

type_synonym 'a go_result = "go_error + 'a"

text \<open>\<open>apierrors.IsNotFound\<close>: looks through the wrappers for the status' reason.\<close>

primrec isNotFound :: "go_error \<Rightarrow> bool" where
  "isNotFound (Errorf _) = False"
| "isNotFound (ApiError r) = (r = ReasonNotFound)"
| "isNotFound (Wrapf _ e) = isNotFound e"
| "isNotFound JsonError = False"

text \<open>\<open>client.IgnoreNotFound\<close> on a non-nil error: nil when the error is a not-found.\<close>

definition ignoreNotFound :: "go_error \<Rightarrow> go_error option" where
  "ignoreNotFound e = (if isNotFound e then None else Some e)"

lemma ignoreNotFound_None [simp]: "ignoreNotFound e = None \<longleftrightarrow> isNotFound e"
  by (simp add: ignoreNotFound_def)

section \<open>Slices, pointers and maps\<close>

type_synonym int32 = "32 word"

text \<open>A slice that may be nil: \<open>None\<close> is nil, \<open>Some []\<close> the empty slice that is not nil.\<close>

type_synonym 'a slice = "'a list option"

definition elems :: "'a slice \<Rightarrow> 'a list" where
  "elems s = (case s of None \<Rightarrow> [] | Some xs \<Rightarrow> xs)"

lemma elems_simps [simp, go_simps]: "elems None = []" "elems (Some xs) = xs"
  by (simp_all add: elems_def)

text \<open>A map \<open>map[string]string\<close>. Reading a missing key gives the zero value, the empty string.\<close>

type_synonym strmap = "string \<rightharpoonup> string"

definition get0 :: "strmap \<Rightarrow> string \<Rightarrow> string" where
  "get0 m k = (case m k of None \<Rightarrow> '''' | Some v \<Rightarrow> v)"

lemma get0_simps [simp]:
  "m k = None \<Longrightarrow> get0 m k = ''''" "m k = Some v \<Longrightarrow> get0 m k = v"
  by (simp_all add: get0_def)

lemma get0_update [simp]: "get0 (m(k \<mapsto> v)) k' = (if k' = k then v else get0 m k')"
  by (simp add: get0_def)

lemma get0_delete [simp]: "get0 (m(k := None)) k' = (if k' = k then '''' else get0 m k')"
  by (simp add: get0_def)

end
