(* ===== verification/Api_Types.thy ===== *)
theory Api_Types
  imports Prelude
begin

text \<open>
  The Kubernetes objects the program reads and writes, with the fields its code touches or copies:
  \<open>NamespacedName\<close>, \<open>ObjectMeta\<close>, \<open>Service\<close>, \<open>ServiceExport\<close>, \<open>ServiceImport\<close>,
  \<open>EndpointSlice\<close>, \<open>Condition\<close>.
  Pointers are options, maps are partial functions, \<open>metadata.annotations\<close> keeps the difference
  between a nil map and an empty one, since the code tests for nil.
\<close>

section \<open>Metadata\<close>

datatype namespaced_name = NamespacedName (Namespace: string) (Name: string)

lemma other_name: "\<exists>nn. nn \<noteq> (k :: namespaced_name)"
  by (metis namespaced_name.inject not_Cons_self)

text \<open>\<open>NamespacedName.String\<close>.\<close>

definition nn_String :: "namespaced_name \<Rightarrow> string" where
  "nn_String n = Namespace n @ ''/'' @ Name n"

record owner_reference =
  or_APIVersion :: string
  or_Kind :: string
  or_Name :: string
  or_UID :: string

record object_meta =
  om_Name :: string
  om_Namespace :: string
  om_UID :: string
  om_DeletionTimestamp :: "nat option"
  om_Labels :: strmap
  om_Annotations :: "strmap option"
  om_OwnerReferences :: "owner_reference list"

definition om_key :: "object_meta \<Rightarrow> namespaced_name" where
  "om_key m = NamespacedName (om_Namespace m) (om_Name m)"

definition empty_meta :: object_meta where
  "empty_meta = \<lparr>om_Name = '''', om_Namespace = '''', om_UID = '''', om_DeletionTimestamp = None,
     om_Labels = Map.empty, om_Annotations = None, om_OwnerReferences = []\<rparr>"

section \<open>Conditions\<close>

datatype condition_status = ConditionTrue | ConditionFalse | ConditionUnknown

record condition =
  c_Type :: string
  c_Status :: condition_status
  c_ObservedGeneration :: int
  c_LastTransitionTime :: nat
  c_Reason :: string
  c_Message :: string

section \<open>Service ports and session affinity\<close>

text \<open>\<open>v1beta1.ServicePort\<close>, the port of a \<open>ServiceImport\<close>.\<close>

record mcs_port =
  mp_Name :: string
  mp_Protocol :: string
  mp_AppProtocol :: "string option"
  mp_Port :: int32

datatype int_or_string = IntVal int32 | StrVal string

text \<open>\<open>corev1.ServicePort\<close>, the port of a \<open>Service\<close>.\<close>

record service_port =
  sp_Name :: string
  sp_Protocol :: string
  sp_AppProtocol :: "string option"
  sp_Port :: int32
  sp_TargetPort :: int_or_string
  sp_NodePort :: int32

record client_ip_config =
  cip_TimeoutSeconds :: "int32 option"

record session_affinity_config =
  sac_ClientIP :: "client_ip_config option"

section \<open>Service, ServiceExport, ServiceImport\<close>

record service =
  svc_meta :: object_meta
  svc_Ports :: "service_port slice"
  svc_ClusterIP :: string
  svc_ClusterIPs :: "string slice"
  svc_SessionAffinity :: string
  svc_SessionAffinityConfig :: "session_affinity_config option"
  svc_IPFamilies :: "string slice"
  svc_Type :: string
  svc_LoadBalancer :: "string list"

record service_export =
  se_meta :: object_meta
  se_ExportedLabels :: "strmap option"
  se_ExportedAnnotations :: "strmap option"
  se_Conditions :: "condition list"

record service_import =
  si_meta :: object_meta
  si_Ports :: "mcs_port slice"
  si_IPs :: "string slice"
  si_Type :: string
  si_SessionAffinity :: string
  si_SessionAffinityConfig :: "session_affinity_config option"
  si_IPFamilies :: "string slice"
  si_InternalTrafficPolicy :: "string option"
  si_TrafficDistribution :: "string option"
  si_Clusters :: "string list"
  si_Conditions :: "condition list"

section \<open>EndpointSlice\<close>

record object_reference =
  ref_Kind :: string
  ref_Namespace :: string
  ref_Name :: string
  ref_UID :: string
  ref_APIVersion :: string
  ref_ResourceVersion :: string
  ref_FieldPath :: string

record endpoint =
  ep_Addresses :: "string list"
  ep_Ready :: "bool option"
  ep_Serving :: "bool option"
  ep_Terminating :: "bool option"
  ep_Hostname :: "string option"
  ep_TargetRef :: "object_reference option"
  ep_DeprecatedTopology :: "strmap option"
  ep_NodeName :: "string option"
  ep_Zone :: "string option"
  ep_ForZones :: "string list option"
  ep_ForNodes :: "string list option"

record endpoint_port =
  epp_Name :: "string option"
  epp_Protocol :: "string option"
  epp_Port :: "int32 option"
  epp_AppProtocol :: "string option"

record endpoint_slice =
  es_meta :: object_meta
  es_AddressType :: string
  es_Endpoints :: "endpoint slice"
  es_Ports :: "endpoint_port slice"

section \<open>Keys\<close>

definition svc_key :: "service \<Rightarrow> namespaced_name" where
  "svc_key o1 = om_key (svc_meta o1)"

definition se_key :: "service_export \<Rightarrow> namespaced_name" where
  "se_key o1 = om_key (se_meta o1)"

definition si_key :: "service_import \<Rightarrow> namespaced_name" where
  "si_key o1 = om_key (si_meta o1)"

definition es_key :: "endpoint_slice \<Rightarrow> namespaced_name" where
  "es_key o1 = om_key (es_meta o1)"

lemmas key_defs [api_simps] = svc_key_def se_key_def si_key_def es_key_def om_key_def

section \<open>Well-known constants of the APIs\<close>

definition ClusterIPNone :: string where "ClusterIPNone = ''None''"
definition ClusterSetIP :: string where "ClusterSetIP = ''ClusterSetIP''"
definition Headless :: string where "Headless = ''Headless''"
definition LabelServiceName :: string where "LabelServiceName = ''kubernetes.io/service-name''"
definition LabelManagedBy :: string where
  "LabelManagedBy = ''endpointslice.kubernetes.io/managed-by''"
definition McsLabelServiceName :: string where
  "McsLabelServiceName = ''multicluster.kubernetes.io/service-name''"
definition LabelSourceCluster :: string where
  "LabelSourceCluster = ''multicluster.kubernetes.io/source-cluster''"

lemmas api_const_defs [api_simps] = ClusterIPNone_def ClusterSetIP_def Headless_def
  LabelServiceName_def LabelManagedBy_def McsLabelServiceName_def LabelSourceCluster_def

definition ServiceExportConditionValid :: string where "ServiceExportConditionValid = ''Valid''"
definition ServiceExportConditionConflict :: string where
  "ServiceExportConditionConflict = ''Conflict''"
definition ServiceExportReasonValid :: string where "ServiceExportReasonValid = ''Valid''"
definition ServiceExportReasonNoService :: string where
  "ServiceExportReasonNoService = ''NoService''"
definition ServiceExportReasonNoConflicts :: string where
  "ServiceExportReasonNoConflicts = ''NoConflicts''"
definition ServiceExportReasonPortConflict :: string where
  "ServiceExportReasonPortConflict = ''PortConflict''"

lemmas condition_const_defs [api_simps] = ServiceExportConditionValid_def
  ServiceExportConditionConflict_def ServiceExportReasonValid_def ServiceExportReasonNoService_def
  ServiceExportReasonNoConflicts_def ServiceExportReasonPortConflict_def

lemma condition_types_distinct [simp]:
  "ServiceExportConditionValid \<noteq> ServiceExportConditionConflict"
  "ServiceExportConditionConflict \<noteq> ServiceExportConditionValid"
  by (simp_all add: condition_const_defs)

end
