(* ===== verification/Go_Strings.thy ===== *)
theory Go_Strings
  imports Prelude
begin

text \<open>
  The parts of Go's \<open>strconv\<close>, \<open>strings\<close> and \<open>unicode/utf8\<close> the program uses.
  A Go string is a list of bytes. \<open>itoa\<close>/\<open>ParseInt\<close> print and read decimal integers,
  \<open>rune_len\<close> is the length of the UTF-8 sequence at the head of a string,
  \<open>sanitize\<close> replaces every byte that starts no valid sequence by U+FFFD, and
  \<open>encode_rune\<close> writes a code point.
\<close>

section \<open>Decimal integers\<close>

definition byte :: "char \<Rightarrow> nat" where "byte c = of_char c"

lemma byte_less [simp]: "byte c < 256"
  by (simp add: byte_def)

lemma byte_char_of [simp]: "n < 256 \<Longrightarrow> byte (char_of n) = n"
  by (simp add: byte_def)

lemma char_of_byte [simp]: "char_of (byte c) = c"
  by (simp add: byte_def)

definition is_digit :: "char \<Rightarrow> bool" where
  "is_digit c = (48 \<le> byte c \<and> byte c \<le> 57)"

definition digit :: "nat \<Rightarrow> char" where
  "digit n = char_of (48 + n)"

lemma is_digit_digit [simp]: "n < 10 \<Longrightarrow> is_digit (digit n)"
  by (simp add: is_digit_def digit_def)

lemma byte_digit [simp]: "n < 10 \<Longrightarrow> byte (digit n) = 48 + n"
  by (simp add: digit_def)

fun dec :: "nat \<Rightarrow> string" where
  "dec n = (if n < 10 then [digit n] else dec (n div 10) @ [digit (n mod 10)])"

declare dec.simps [simp del]

definition itoa :: "int \<Rightarrow> string" where
  "itoa i = (if i < 0 then CHR ''-'' # dec (nat (- i)) else dec (nat i))"

fun parse_nat_acc :: "nat \<Rightarrow> string \<Rightarrow> nat option" where
  "parse_nat_acc acc [] = Some acc"
| "parse_nat_acc acc (c # cs) =
     (if is_digit c then parse_nat_acc (10 * acc + (byte c - 48)) cs else None)"

definition parse_nat :: "string \<Rightarrow> nat option" where
  "parse_nat s = (if s = [] then None else parse_nat_acc 0 s)"

text \<open>\<open>strconv.ParseInt(s, 10, 64)\<close>: \<open>None\<close> for a syntax error and for a value out of range.\<close>

definition in_int64 :: "int \<Rightarrow> bool" where
  "in_int64 i = (- (2 ^ 63) \<le> i \<and> i < 2 ^ 63)"

definition signed_nat :: "string \<Rightarrow> int option" where
  "signed_nat s =
     (case s of
        [] \<Rightarrow> None
      | c # r \<Rightarrow>
          if c = CHR ''-'' then map_option (\<lambda>n. - int n) (parse_nat r)
          else if c = CHR ''+'' then map_option int (parse_nat r)
          else map_option int (parse_nat s))"

definition ParseInt :: "string \<Rightarrow> int option" where
  "ParseInt s =
     (case signed_nat s of None \<Rightarrow> None | Some i \<Rightarrow> if in_int64 i then Some i else None)"

lemma dec_not_empty [simp]: "dec n \<noteq> []"
  by (subst dec.simps) simp

lemma dec_digits: "c \<in> set (dec n) \<Longrightarrow> is_digit c"
  by (induction n rule: dec.induct) (subst (asm) (2) dec.simps, auto split: if_splits)

lemma parse_nat_acc_append:
  "parse_nat_acc acc (s @ t) =
     (case parse_nat_acc acc s of None \<Rightarrow> None | Some n \<Rightarrow> parse_nat_acc n t)"
  by (induction s arbitrary: acc) auto

lemma parse_nat_acc_dec: "parse_nat_acc 0 (dec n) = Some n"
proof (induction n rule: dec.induct)
  case (1 n)
  show ?case
  proof (cases "n < 10")
    case True
    then show ?thesis by (subst dec.simps) simp
  next
    case False
    with 1 show ?thesis by (subst dec.simps) (simp add: parse_nat_acc_append)
  qed
qed

lemma parse_nat_dec [simp]: "parse_nat (dec n) = Some n"
  by (simp add: parse_nat_def parse_nat_acc_dec)

lemma dec_head_not_sign: "dec n = c # r \<Longrightarrow> c \<noteq> CHR ''-'' \<and> c \<noteq> CHR ''+''"
  using dec_digits [of c n] by (auto simp: is_digit_def byte_def)

lemma signed_nat_itoa [simp]: "signed_nat (itoa i) = Some i"
proof (cases "i < 0")
  case True
  then show ?thesis by (simp add: itoa_def signed_nat_def)
next
  case False
  obtain c r where cr: "dec (nat i) = c # r" by (cases "dec (nat i)") auto
  with dec_head_not_sign [OF cr] parse_nat_dec [of "nat i"] False show ?thesis
    by (auto simp: itoa_def signed_nat_def)
qed

lemma ParseInt_itoa: "in_int64 i \<Longrightarrow> ParseInt (itoa i) = Some i"
  by (simp add: ParseInt_def)

section \<open>UTF-8\<close>

definition is_cont :: "char \<Rightarrow> bool" where
  "is_cont c = (0x80 \<le> byte c \<and> byte c \<le> 0xBF)"

text \<open>The second byte's range depends on the first: no overlong forms, no surrogates, at most
  U+10FFFF.\<close>

definition second_ok :: "nat \<Rightarrow> char \<Rightarrow> bool" where
  "second_ok x c =
     ((if x = 0xE0 then 0xA0 else if x = 0xF0 then 0x90 else 0x80) \<le> byte c \<and>
      byte c \<le> (if x = 0xED then 0x9F else if x = 0xF4 then 0x8F else 0xBF))"

text \<open>The string starts with bytes that satisfy the tests, one test for each byte.\<close>

fun starts :: "(char \<Rightarrow> bool) list \<Rightarrow> string \<Rightarrow> bool" where
  "starts [] s = True"
| "starts (p # ps) [] = False"
| "starts (p # ps) (c # s) = (p c \<and> starts ps s)"

lemma starts_length: "starts ps s \<Longrightarrow> length ps \<le> length s"
  by (induction ps s rule: starts.induct) auto

lemma starts_local: "starts ps s \<Longrightarrow> starts ps (take (length ps) s @ t)"
  by (induction ps s rule: starts.induct) auto

text \<open>\<open>utf8.DecodeRuneInString\<close>: \<open>Some n\<close> for a valid sequence of \<open>n\<close> bytes, \<open>None\<close> for
  \<open>(RuneError, 1)\<close>. \<open>rune_tail\<close> gives the tests on the bytes after the first.\<close>

definition rune_tail :: "char \<Rightarrow> (char \<Rightarrow> bool) list option" where
  "rune_tail b0 =
     (let x = byte b0 in
      if x < 0x80 then Some []
      else if 0xC2 \<le> x \<and> x \<le> 0xDF then Some [is_cont]
      else if 0xE0 \<le> x \<and> x \<le> 0xEF then Some [second_ok x, is_cont]
      else if 0xF0 \<le> x \<and> x \<le> 0xF4 then Some [second_ok x, is_cont, is_cont]
      else None)"

fun rune_len :: "string \<Rightarrow> nat option" where
  "rune_len [] = None"
| "rune_len (b0 # r) =
     (case rune_tail b0 of
        None \<Rightarrow> None
      | Some ps \<Rightarrow> if starts ps r then Some (Suc (length ps)) else None)"

lemma rune_len_Some_bound: "rune_len s = Some n \<Longrightarrow> 0 < n \<and> n \<le> length s"
  by (cases s) (auto dest: starts_length split: option.splits if_splits)

lemma rune_len_local: "rune_len s = Some n \<Longrightarrow> rune_len (take n s @ t) = Some n"
  by (cases s) (auto simp: starts_local split: option.splits if_splits)

lemma rune_len_SomeE:
  assumes "rune_len s = Some n"
  obtains c r m where "s = c # r" "n = Suc m" "m \<le> length r"
proof (cases s)
  case (Cons c r)
  with assms rune_len_Some_bound [OF assms] that [of c r "n - 1"] show ?thesis
    by (cases n) auto
qed (use assms in simp)

lemma rune_len_ascii [simp]: "byte c < 0x80 \<Longrightarrow> rune_len (c # r) = Some 1"
  by (simp add: rune_tail_def)

declare rune_len.simps(2) [simp del]

text \<open>U+FFFD, the replacement character, in UTF-8.\<close>

definition rune_error :: string where
  "rune_error = [CHR 0xEF, CHR 0xBF, CHR 0xBD]"

fun sanitize :: "string \<Rightarrow> string" where
  "sanitize [] = []"
| "sanitize (c # r) =
     (case rune_len (c # r) of
        None \<Rightarrow> rune_error @ sanitize r
      | Some n \<Rightarrow> take n (c # r) @ sanitize (drop (n - 1) r))"

fun valid_utf8 :: "string \<Rightarrow> bool" where
  "valid_utf8 [] = True"
| "valid_utf8 (c # r) =
     (case rune_len (c # r) of None \<Rightarrow> False | Some n \<Rightarrow> valid_utf8 (drop (n - 1) r))"

lemma sanitize_valid: "valid_utf8 s \<Longrightarrow> sanitize s = s"
proof (induction s rule: valid_utf8.induct)
  case (2 c r)
  then obtain n where n: "rune_len (c # r) = Some n" "valid_utf8 (drop (n - 1) r)"
    by (auto split: option.splits)
  then have "sanitize (drop (n - 1) r) = drop (n - 1) r" using 2 by simp
  moreover have "take n (c # r) @ drop (n - 1) r = c # r"
    using rune_len_Some_bound [OF n(1)] by (cases n) auto
  ultimately show ?case using n by simp
qed simp

definition ascii :: "string \<Rightarrow> bool" where
  "ascii s = list_all (\<lambda>c. byte c < 0x80) s"

lemma ascii_valid_utf8: "ascii s \<Longrightarrow> valid_utf8 s"
  unfolding ascii_def by (induction s) auto

text \<open>\<open>utf8.AppendRune\<close> of a code point that is no surrogate.\<close>

definition encode_rune :: "nat \<Rightarrow> string" where
  "encode_rune v =
     (if v < 0x80 then [char_of v]
      else if v < 0x800 then [char_of (0xC0 + v div 64), char_of (0x80 + v mod 64)]
      else if v < 0x10000 then
        [char_of (0xE0 + v div 4096), char_of (0x80 + v div 64 mod 64), char_of (0x80 + v mod 64)]
      else
        [char_of (0xF0 + v div 262144), char_of (0x80 + v div 4096 mod 64),
         char_of (0x80 + v div 64 mod 64), char_of (0x80 + v mod 64)])"

section \<open>Splitting, trimming, joining\<close>

text \<open>\<open>strings.Join\<close>.\<close>

fun strings_Join :: "string list \<Rightarrow> string \<Rightarrow> string" where
  "strings_Join [] sep = []"
| "strings_Join [s] sep = s"
| "strings_Join (s # t # ss) sep = s @ sep @ strings_Join (t # ss) sep"

text \<open>\<open>strings.SplitSeq\<close> with a separator of one byte: at least one part, none holding it.\<close>

fun split_on :: "char \<Rightarrow> string \<Rightarrow> string list" where
  "split_on sep [] = [[]]"
| "split_on sep (c # cs) =
     (if c = sep then [] # split_on sep cs
      else (case split_on sep cs of [] \<Rightarrow> [[c]] | p # ps \<Rightarrow> (c # p) # ps))"

lemma split_on_not_empty [simp]: "split_on sep s \<noteq> []"
  by (induction s) (auto split: list.splits)

lemma split_on_no_sep: "p \<in> set (split_on sep s) \<Longrightarrow> sep \<notin> set p"
proof (induction s arbitrary: p)
  case (Cons c cs)
  then show ?case by (cases "split_on sep cs") (auto split: if_splits)
qed simp

lemma join_split_on: "strings_Join (split_on sep s) [sep] = s"
proof (induction s)
  case (Cons c cs)
  obtain p ps where p: "split_on sep cs = p # ps"
    by (cases "split_on sep cs") auto
  show ?case using Cons.IH p by (cases ps) auto
qed simp

lemma split_on_single: "sep \<notin> set s \<Longrightarrow> split_on sep s = [s]"
  by (induction s) auto

lemma split_on_append: "sep \<notin> set a \<Longrightarrow> split_on sep (a @ sep # b) = a # split_on sep b"
  by (induction a) (auto split: list.splits)

lemma split_on_join:
  "ss \<noteq> [] \<Longrightarrow> list_all (\<lambda>s. sep \<notin> set s) ss \<Longrightarrow> split_on sep (strings_Join ss [sep]) = ss"
proof (induction ss)
  case (Cons s ss)
  then show ?case
    by (cases ss) (auto simp: split_on_single split_on_append)
qed simp

end
