(* ===== verification/Json.thy ===== *)
theory Json
  imports Go_Strings
begin

text \<open>
  The string layer of Go's \<open>encoding/json\<close>: the JSON values, the quoting of \<open>json.Marshal\<close>
  (HTML escaping, an escaped U+FFFD for invalid UTF-8) and the reading of string literals by
  \<open>json.Unmarshal\<close> (all escapes, surrogate pairs, U+FFFD for what is not valid).
  \<open>unquote_quote_body\<close>: reading a quoted string gives the string with its invalid bytes
  replaced, so a valid UTF-8 string comes back unchanged.
\<close>

datatype json =
    JNull
  | JBool bool
  | JNum string
  | JStr string
  | JArr "json list"
  | JObj "(string \<times> json) list"

section \<open>Strings\<close>

definition hex_char :: "nat \<Rightarrow> char" where
  "hex_char n = (if n < 10 then char_of (48 + n) else char_of (87 + n))"

definition hex_val :: "char \<Rightarrow> nat option" where
  "hex_val c =
     (let x = byte c in
      if 48 \<le> x \<and> x \<le> 57 then Some (x - 48)
      else if 97 \<le> x \<and> x \<le> 102 then Some (x - 87)
      else if 65 \<le> x \<and> x \<le> 70 then Some (x - 55)
      else None)"

lemma hex_val_hex_char [simp]: "n < 16 \<Longrightarrow> hex_val (hex_char n) = Some n"
  by (auto simp: hex_val_def hex_char_def Let_def)

text \<open>\<open>strconv.Quote\<close> (\<open>%q\<close>) for ASCII text; the names quoted are DNS labels.\<close>

definition quote_char :: "char \<Rightarrow> string" where
  "quote_char c =
     (if c = CHR 0x22 \<or> c = CHR 0x5C then [CHR 0x5C, c]
      else if 0x20 \<le> byte c \<and> byte c \<noteq> 0x7F then [c]
      else if byte c = 7 then CHR 0x5C # ''a''
      else if byte c = 8 then CHR 0x5C # ''b''
      else if byte c = 12 then CHR 0x5C # ''f''
      else if byte c = 10 then CHR 0x5C # ''n''
      else if byte c = 13 then CHR 0x5C # ''r''
      else if byte c = 9 then CHR 0x5C # ''t''
      else if byte c = 11 then CHR 0x5C # ''v''
      else CHR 0x5C # ''x'' @ [hex_char (byte c div 16), hex_char (byte c mod 16)])"

definition fmt_q :: "string \<Rightarrow> string" where
  "fmt_q s = CHR 0x22 # concat (map quote_char s) @ [CHR 0x22]"

text \<open>\<open>htmlSafeSet\<close>: printable ASCII and DEL, without the quote, the backslash and \<open>< > &\<close>.\<close>

definition html_safe :: "char \<Rightarrow> bool" where
  "html_safe c = (0x20 \<le> byte c \<and> byte c < 0x80 \<and>
     c \<notin> {CHR 0x22, CHR 0x5C, CHR ''<'', CHR ''>'', CHR ''&''})"

text \<open>\<open>appendString\<close> on a byte below 0x80.\<close>

definition esc_ascii :: "char \<Rightarrow> string" where
  "esc_ascii c =
     (if html_safe c then [c]
      else if c = CHR 0x22 \<or> c = CHR 0x5C then [CHR 0x5C, c]
      else if byte c = 8 then [CHR 0x5C, CHR ''b'']
      else if byte c = 12 then [CHR 0x5C, CHR ''f'']
      else if byte c = 10 then [CHR 0x5C, CHR ''n'']
      else if byte c = 13 then [CHR 0x5C, CHR ''r'']
      else if byte c = 9 then [CHR 0x5C, CHR ''t'']
      else [CHR 0x5C, CHR ''u'', CHR ''0'', CHR ''0'',
            hex_char (byte c div 16), hex_char (byte c mod 16)])"

text \<open>\<open>appendString\<close> on a multi-byte sequence: only U+2028 and U+2029 are escaped.\<close>

definition esc_multi :: "string \<Rightarrow> string" where
  "esc_multi bs =
     (if bs = [CHR 0xE2, CHR 0x80, CHR 0xA8] then CHR 0x5C # ''u2028''
      else if bs = [CHR 0xE2, CHR 0x80, CHR 0xA9] then CHR 0x5C # ''u2029''
      else bs)"

fun quote_body :: "string \<Rightarrow> string" where
  "quote_body [] = []"
| "quote_body (c # r) =
     (if byte c < 0x80 then esc_ascii c @ quote_body r
      else (case rune_len (c # r) of
              None \<Rightarrow> CHR 0x5C # ''ufffd'' @ quote_body r
            | Some n \<Rightarrow> esc_multi (take n (c # r)) @ quote_body (drop (n - 1) r)))"

definition quote :: "string \<Rightarrow> string" where
  "quote s = CHR 0x22 # quote_body s @ [CHR 0x22]"

text \<open>Reading: \<open>getu4\<close> reads four hexadecimal digits.\<close>

fun getu4 :: "string \<Rightarrow> nat option" where
  "getu4 (a # b # c # d # _) =
     (case (hex_val a, hex_val b, hex_val c, hex_val d) of
        (Some w, Some x, Some y, Some z) \<Rightarrow> Some (4096 * w + 256 * x + 16 * y + z)
      | _ \<Rightarrow> None)"
| "getu4 _ = None"

text \<open>\<open>utf16.DecodeRune\<close> on the second half that may follow: \<open>None\<close> for U+FFFD.\<close>

definition low_half :: "nat \<Rightarrow> string \<Rightarrow> nat option" where
  "low_half hi t =
     (case t of
        a # b # t2 \<Rightarrow>
          (if a = CHR 0x5C \<and> b = CHR ''u'' \<and> hi < 0xDC00 then
             (case getu4 t2 of
                Some lo \<Rightarrow>
                  if 0xDC00 \<le> lo \<and> lo < 0xE000
                  then Some (0x10000 + (hi - 0xD800) * 0x400 + (lo - 0xDC00))
                  else None
              | None \<Rightarrow> None)
           else None)
      | _ \<Rightarrow> None)"

text \<open>The bytes an escape stands for, and how many bytes it takes after the backslash.\<close>

definition unescape :: "string \<Rightarrow> (string \<times> nat) option" where
  "unescape s =
     (case s of
        [] \<Rightarrow> None
      | e # t \<Rightarrow>
          if e = CHR 0x22 \<or> e = CHR 0x5C \<or> e = CHR ''/'' then Some ([e], 1)
          else if e = CHR ''b'' then Some ([CHR 0x08], 1)
          else if e = CHR ''f'' then Some ([CHR 0x0C], 1)
          else if e = CHR ''n'' then Some ([CHR 0x0A], 1)
          else if e = CHR ''r'' then Some ([CHR 0x0D], 1)
          else if e = CHR ''t'' then Some ([CHR 0x09], 1)
          else if e = CHR ''u'' then
            (case getu4 t of
               None \<Rightarrow> None
             | Some v \<Rightarrow>
                 if 0xD800 \<le> v \<and> v < 0xE000 then
                   (case low_half v (drop 4 t) of
                      Some w \<Rightarrow> Some (encode_rune w, 11)
                    | None \<Rightarrow> Some (rune_error, 5))
                 else Some (encode_rune v, 5))
          else None)"

definition prepend :: "string \<Rightarrow> (string \<times> 'a) option \<Rightarrow> (string \<times> 'a) option" where
  "prepend bs x = (case x of None \<Rightarrow> None | Some (t, r) \<Rightarrow> Some (bs @ t, r))"

lemma prepend_simps [simp]:
  "prepend bs None = None" "prepend bs (Some (t, r)) = Some (bs @ t, r)"
  by (simp_all add: prepend_def)

lemma prepend_SomeE:
  assumes "prepend bs x = Some (t, r)"
  obtains t' where "x = Some (t', r)" "t = bs @ t'"
  using assms by (auto simp: prepend_def split: option.splits)

text \<open>The rest of a string after its opening quote: the value and what follows the closing quote.\<close>

fun unquote :: "string \<Rightarrow> (string \<times> string) option" where
  "unquote [] = None"
| "unquote (c # r) =
     (if c = CHR 0x22 then Some ([], r)
      else if c = CHR 0x5C then
        (case unescape r of None \<Rightarrow> None | Some (bs, n) \<Rightarrow> prepend bs (unquote (drop n r)))
      else if byte c < 0x20 then None
      else if byte c < 0x80 then prepend [c] (unquote r)
      else (case rune_len (c # r) of
              None \<Rightarrow> prepend rune_error (unquote r)
            | Some n \<Rightarrow> prepend (take n (c # r)) (unquote (drop (n - 1) r))))"

declare unquote.simps(2) [simp del] quote_body.simps(2) [simp del]

lemma hex_val_consts [simp]:
  "hex_val (CHR ''0'') = Some 0" "hex_val (CHR ''2'') = Some 2" "hex_val (CHR ''8'') = Some 8"
  "hex_val (CHR ''9'') = Some 9" "hex_val (CHR ''d'') = Some 13" "hex_val (CHR ''f'') = Some 15"
  by (simp_all add: hex_val_def byte_def)

lemma encode_rune_consts [simp]:
  "encode_rune 0x2028 = [CHR 0xE2, CHR 0x80, CHR 0xA8]"
  "encode_rune 0x2029 = [CHR 0xE2, CHR 0x80, CHR 0xA9]"
  "encode_rune 0xFFFD = rune_error"
  by (simp_all add: encode_rune_def rune_error_def char_of_def bit_Suc_0_iff)

lemma getu4_low:
  "n < 128 \<Longrightarrow>
   getu4 (CHR ''0'' # CHR ''0'' # hex_char (n div 16) # hex_char (n mod 16) # t) = Some n"
  by simp

lemma unquote_esc_ascii:
  assumes "byte c < 0x80"
  shows "unquote (esc_ascii c @ t) = prepend [c] (unquote t)"
proof -
  have eq: "c = char_of (byte c)" by simp
  consider "html_safe c" | "c = CHR 0x22" | "c = CHR 0x5C"
    | "byte c \<in> {8, 12, 10, 13, 9}"
    | "\<not> html_safe c" "c \<noteq> CHR 0x22" "c \<noteq> CHR 0x5C" "byte c \<notin> {8, 12, 10, 13, 9}" by blast
  then show ?thesis
  proof cases
    case 1
    with assms show ?thesis by (auto simp: esc_ascii_def html_safe_def unquote.simps(2))
  next
    case 4
    then have "c \<in> {CHR 0x08, CHR 0x0C, CHR 0x0A, CHR 0x0D, CHR 0x09}"
      using eq by (auto simp: char_of_def bit_Suc_0_iff)
    then show ?thesis
      by (auto simp: esc_ascii_def html_safe_def unquote.simps(2) unescape_def byte_def)
  next
    case 5
    with assms getu4_low [of "byte c" t] show ?thesis
      by (simp add: esc_ascii_def unquote.simps(2) unescape_def encode_rune_def)
  qed (auto simp: esc_ascii_def html_safe_def unquote.simps(2) unescape_def)
qed

lemma unquote_valid_rune:
  assumes "rune_len s = Some n" "0x80 \<le> byte (hd s)"
  shows "unquote (take n s @ t) = prepend (take n s) (unquote t)"
proof -
  obtain c r m where s: "s = c # r" "n = Suc m" "m \<le> length r"
    using rune_len_SomeE [OF assms(1)] by blast
  have "c \<noteq> CHR 0x22" "c \<noteq> CHR 0x5C" using assms(2) s by (auto simp: byte_def)
  moreover have "rune_len (c # take m r @ t) = Some n"
    using rune_len_local [OF assms(1), of t] s by simp
  ultimately show ?thesis using assms(2) s by (simp add: unquote.simps(2))
qed

lemma unquote_esc_multi:
  assumes "rune_len s = Some n" "0x80 \<le> byte (hd s)"
  shows "unquote (esc_multi (take n s) @ t) = prepend (take n s) (unquote t)"
proof (cases "take n s \<in> {[CHR 0xE2, CHR 0x80, CHR 0xA8], [CHR 0xE2, CHR 0x80, CHR 0xA9]}")
  case True
  then show ?thesis
    by (auto simp: esc_multi_def unquote.simps(2) unescape_def)
next
  case False
  then show ?thesis using unquote_valid_rune [OF assms] by (simp add: esc_multi_def)
qed

theorem unquote_quote_body:
  "unquote (quote_body s @ CHR 0x22 # rest) = Some (sanitize s, rest)"
proof (induction s rule: quote_body.induct)
  case 1
  show ?case by (simp add: unquote.simps(2))
next
  case (2 c r)
  consider "byte c < 0x80" | "0x80 \<le> byte c" "rune_len (c # r) = None"
    | n where "0x80 \<le> byte c" "rune_len (c # r) = Some n"
    by (cases "rune_len (c # r)") force+
  then show ?case
  proof cases
    case 1
    with "2.IH"(1) show ?thesis by (simp add: quote_body.simps(2) unquote_esc_ascii)
  next
    case 2
    with "2.IH"(2) show ?thesis
      by (simp add: quote_body.simps(2) unquote.simps(2) unescape_def)
  next
    case 3
    with "2.IH"(3) unquote_esc_multi [of "c # r" n] show ?thesis
      by (simp add: quote_body.simps(2))
  qed
qed

end
