(* ===== verification/Json_Parser.thy ===== *)
theory Json_Parser
  imports Json
begin

text \<open>
  Values of \<open>encoding/json\<close>: \<open>print_json\<close> is the compact text \<open>json.Marshal\<close> writes,
  \<open>parse_json\<close> the reader behind \<open>json.Unmarshal\<close> (white space, number literals, at most
  10000 levels of nesting, nothing but white space after the value).
  The parser runs on fuel: \<open>parse_fuel_irrelevant\<close> shows that the fuel \<open>parse_json\<close> gives is
  always enough, and \<open>parse_print\<close> that reading a printed value gives the value back.
\<close>

section \<open>Printing\<close>

fun print_json :: "json \<Rightarrow> string"
  and print_elems :: "json list \<Rightarrow> string"
  and print_members :: "(string \<times> json) list \<Rightarrow> string" where
  "print_json JNull = ''null''"
| "print_json (JBool b) = (if b then ''true'' else ''false'')"
| "print_json (JNum lit) = lit"
| "print_json (JStr s) = quote s"
| "print_json (JArr js) = CHR ''['' # print_elems js @ '']''"
| "print_json (JObj ms) = CHR ''{'' # print_members ms @ ''}''"
| "print_elems [] = []"
| "print_elems [j] = print_json j"
| "print_elems (j # k # js) = print_json j @ CHR '','' # print_elems (k # js)"
| "print_members [] = []"
| "print_members [(n, j)] = quote n @ CHR '':'' # print_json j"
| "print_members ((n, j) # m # ms) =
     quote n @ CHR '':'' # print_json j @ CHR '','' # print_members (m # ms)"

section \<open>Number literals\<close>

text \<open>The scanner's states after the integer part: an optional exponent, an optional fraction.\<close>

definition lex_exp :: "string \<Rightarrow> string \<Rightarrow> (string \<times> string) option" where
  "lex_exp lit r =
     (case r of
        e # r1 \<Rightarrow>
          if e = CHR ''e'' \<or> e = CHR ''E'' then
            (let (sg, r2) = (case r1 of
                 c # r3 \<Rightarrow> if c = CHR ''+'' \<or> c = CHR ''-'' then ([c], r3) else ([], r1)
               | [] \<Rightarrow> ([], r1));
                 ds = takeWhile is_digit r2
             in if ds = [] then None else Some (lit @ e # sg @ ds, dropWhile is_digit r2))
          else Some (lit, r)
      | [] \<Rightarrow> Some (lit, r))"

definition lex_frac :: "string \<Rightarrow> string \<Rightarrow> (string \<times> string) option" where
  "lex_frac lit r =
     (case r of
        d # r1 \<Rightarrow>
          if d = CHR ''.'' then
            (let ds = takeWhile is_digit r1
             in if ds = [] then None else lex_exp (lit @ d # ds) (dropWhile is_digit r1))
          else lex_exp lit r
      | [] \<Rightarrow> lex_exp lit r)"

definition lex_nat :: "string \<Rightarrow> string \<Rightarrow> (string \<times> string) option" where
  "lex_nat sg r =
     (case r of
        [] \<Rightarrow> None
      | c # r1 \<Rightarrow>
          if c = CHR ''0'' then lex_frac (sg @ [c]) r1
          else if is_digit c
          then lex_frac (sg @ c # takeWhile is_digit r1) (dropWhile is_digit r1)
          else None)"

definition lex_number :: "string \<Rightarrow> (string \<times> string) option" where
  "lex_number s =
     (case s of
        [] \<Rightarrow> None
      | c # r \<Rightarrow> if c = CHR ''-'' then lex_nat [c] r else lex_nat [] s)"

lemma lex_exp_length: "lex_exp lit r = Some (l, t) \<Longrightarrow> length t \<le> length r"
  unfolding lex_exp_def
  by (auto simp: Let_def le_SucI length_dropWhile_le split: list.splits if_splits prod.splits)

lemma lex_frac_length: "lex_frac lit r = Some (l, t) \<Longrightarrow> length t \<le> length r"
  unfolding lex_frac_def
  by (auto simp: Let_def dest!: lex_exp_length split: list.splits if_splits)
     (meson le_SucI le_trans length_dropWhile_le)+

lemma lex_nat_length: "lex_nat sg r = Some (l, t) \<Longrightarrow> length t < length r"
  unfolding lex_nat_def
  by (auto dest!: lex_frac_length split: list.splits if_splits)
     (meson le_imp_less_Suc le_trans length_dropWhile_le)+

lemma lex_number_length: "lex_number s = Some (l, t) \<Longrightarrow> length t < length s"
  unfolding lex_number_def
  by (auto dest!: lex_nat_length split: list.splits if_splits)

section \<open>The parser\<close>

definition is_ws :: "char \<Rightarrow> bool" where
  "is_ws c = (c = CHR '' '' \<or> c = CHR 0x09 \<or> c = CHR 0x0D \<or> c = CHR 0x0A)"

definition skip_ws :: "string \<Rightarrow> string" where
  "skip_ws s = dropWhile is_ws s"

lemma skip_ws_simps [simp]:
  "skip_ws [] = []" "is_ws c \<Longrightarrow> skip_ws (c # s) = skip_ws s"
  "\<not> is_ws c \<Longrightarrow> skip_ws (c # s) = c # s"
  by (simp_all add: skip_ws_def)

lemma skip_ws_length: "length (skip_ws s) \<le> length s"
  by (simp add: skip_ws_def length_dropWhile_le)

text \<open>A literal word: what follows it.\<close>

definition word :: "string \<Rightarrow> string \<Rightarrow> string option" where
  "word w s = (if take (length w) s = w then Some (drop (length w) s) else None)"

lemma word_append [simp]: "word w (w @ s) = Some s"
  by (simp add: word_def)

text \<open>The name of an object member and its colon.\<close>

definition parse_name :: "string \<Rightarrow> (string \<times> string) option" where
  "parse_name s =
     (case skip_ws s of
        [] \<Rightarrow> None
      | q # r \<Rightarrow>
          if q = CHR 0x22 then
            (case unquote r of
               None \<Rightarrow> None
             | Some (n, r1) \<Rightarrow>
                 (case skip_ws r1 of
                    [] \<Rightarrow> None
                  | k # r2 \<Rightarrow> if k = CHR '':'' then Some (n, r2) else None))
          else None)"

text \<open>\<open>d\<close> is the number of nesting levels still allowed.\<close>

fun parse_value :: "nat \<Rightarrow> nat \<Rightarrow> string \<Rightarrow> (json \<times> string) option"
  and parse_elems :: "nat \<Rightarrow> nat \<Rightarrow> string \<Rightarrow> (json list \<times> string) option"
  and parse_members :: "nat \<Rightarrow> nat \<Rightarrow> string \<Rightarrow> ((string \<times> json) list \<times> string) option" where
  "parse_value 0 d s = None"
| "parse_value (Suc f) d s =
     (case skip_ws s of
        [] \<Rightarrow> None
      | c # r \<Rightarrow>
          if c = CHR ''{'' then
            (if d = 0 then None
             else (case skip_ws r of
                     [] \<Rightarrow> None
                   | e # r1 \<Rightarrow>
                       if e = CHR ''}'' then Some (JObj [], r1)
                       else map_option (\<lambda>(ms, t). (JObj ms, t)) (parse_members f (d - 1) r)))
          else if c = CHR ''['' then
            (if d = 0 then None
             else (case skip_ws r of
                     [] \<Rightarrow> None
                   | e # r1 \<Rightarrow>
                       if e = CHR '']'' then Some (JArr [], r1)
                       else map_option (\<lambda>(js, t). (JArr js, t)) (parse_elems f (d - 1) r)))
          else if c = CHR 0x22 then map_option (\<lambda>(v, t). (JStr v, t)) (unquote r)
          else if c = CHR ''n'' then map_option (\<lambda>t. (JNull, t)) (word ''ull'' r)
          else if c = CHR ''t'' then map_option (\<lambda>t. (JBool True, t)) (word ''rue'' r)
          else if c = CHR ''f'' then map_option (\<lambda>t. (JBool False, t)) (word ''alse'' r)
          else map_option (\<lambda>(l, t). (JNum l, t)) (lex_number (c # r)))"
| "parse_elems 0 d s = None"
| "parse_elems (Suc f) d s =
     (case parse_value f d s of
        None \<Rightarrow> None
      | Some (j, r) \<Rightarrow>
          (case skip_ws r of
             [] \<Rightarrow> None
           | c # r1 \<Rightarrow>
               if c = CHR '','' then map_option (\<lambda>(js, t). (j # js, t)) (parse_elems f d r1)
               else if c = CHR '']'' then Some ([j], r1)
               else None))"
| "parse_members 0 d s = None"
| "parse_members (Suc f) d s =
     (case parse_name s of
        None \<Rightarrow> None
      | Some (n, r) \<Rightarrow>
          (case parse_value f d r of
             None \<Rightarrow> None
           | Some (j, r1) \<Rightarrow>
               (case skip_ws r1 of
                  [] \<Rightarrow> None
                | c # r2 \<Rightarrow>
                    if c = CHR '','' then
                      map_option (\<lambda>(ms, t). ((n, j) # ms, t)) (parse_members f d r2)
                    else if c = CHR ''}'' then Some ([(n, j)], r2)
                    else None)))"

definition maxNestingDepth :: nat where "maxNestingDepth = 10000"

definition parse_json :: "string \<Rightarrow> json option" where
  "parse_json s =
     (case parse_value (Suc (2 * length s)) maxNestingDepth s of
        None \<Rightarrow> None
      | Some (j, r) \<Rightarrow> if skip_ws r = [] then Some j else None)"

declare parse_value.simps(2) [simp del] parse_elems.simps(2) [simp del]
  parse_members.simps(2) [simp del]

section \<open>Every parser consumes input\<close>

lemma unquote_length: "unquote s = Some (v, t) \<Longrightarrow> length t < length s"
proof (induction s arbitrary: v rule: unquote.induct)
  case (2 c r)
  show ?case
  proof (cases "c = CHR 0x22")
    case True
    with "2.prems" show ?thesis by (simp add: unquote.simps(2))
  next
    case False
    have drop_less: "length t < length (drop n r) \<Longrightarrow> length t < Suc (length r)" for n by simp
    from False "2.prems" "2.IH" drop_less show ?thesis
      by (auto simp: unquote.simps(2) less_SucI elim!: prepend_SomeE
          split: if_splits option.splits) (metis drop_less length_drop)+
  qed
qed simp

lemma word_length: "word w s = Some t \<Longrightarrow> length t \<le> length s"
  by (auto simp: word_def split: if_splits)

lemma skip_ws_Cons_length: "skip_ws s = c # r \<Longrightarrow> length r < length s"
  using skip_ws_length [of s] by simp

lemma parse_name_length: "parse_name s = Some (n, t) \<Longrightarrow> length t < length s"
  by (auto simp: parse_name_def split: list.splits if_splits option.splits
      dest!: skip_ws_Cons_length unquote_length)

lemma parse_length:
  "parse_value f d s = Some (j, t) \<Longrightarrow> length t < length s"
  "parse_elems f d s = Some (js, t) \<Longrightarrow> length t < length s"
  "parse_members f d s = Some (ms, t) \<Longrightarrow> length t < length s"
proof (induction f d s and f d s and f d s arbitrary: j t and js t and ms t
    rule: parse_value_parse_elems_parse_members.induct)
  case (2 f d s)
  then show ?case
    by (auto simp: parse_value.simps(2) split: list.splits if_splits
        dest!: skip_ws_Cons_length unquote_length word_length lex_number_length)
       (force dest: less_trans)+
next
  case (4 f d s)
  then show ?case
    by (auto simp: parse_elems.simps(2) split: list.splits if_splits option.splits
        dest!: skip_ws_Cons_length) (force dest: less_trans)+
next
  case (6 f d s)
  then show ?case
    by (auto simp: parse_members.simps(2) split: list.splits if_splits option.splits
        dest!: skip_ws_Cons_length parse_name_length) (force dest: less_trans)+
qed simp_all

section \<open>The fuel is always enough\<close>

lemma parse_fuel_step:
  "2 * length s < f \<Longrightarrow> parse_value (Suc f) d s = parse_value f d s"
  "2 * length s + 1 < f \<Longrightarrow> parse_elems (Suc f) d s = parse_elems f d s"
  "2 * length s + 1 < f \<Longrightarrow> parse_members (Suc f) d s = parse_members f d s"
proof (induction f d s and f d s and f d s
    rule: parse_value_parse_elems_parse_members.induct)
  case (2 f d s)
  show ?case
  proof (cases "skip_ws s")
    case (Cons c r)
    then have "2 * length r + 1 < f" using skip_ws_Cons_length [OF Cons] "2.prems" by simp
    with 2 Cons show ?thesis
      by (simp add: parse_value.simps(2) [of "Suc f" d s] parse_value.simps(2) [of f d s]
          split: list.split if_split)
  qed (simp add: parse_value.simps(2))
next
  case (4 f d s)
  have v: "parse_value (Suc f) d s = parse_value f d s" using 4 by simp
  show ?case
  proof (cases "parse_value f d s")
    case (Some p)
    then obtain j r where p: "p = (j, r)" by (cases p) auto
    with Some have len: "length r < length s" using parse_length(1) by blast
    have "parse_elems (Suc f) d r1 = parse_elems f d r1" if "skip_ws r = CHR '','' # r1" for r1
    proof -
      have "length r1 < length r" using skip_ws_Cons_length [OF that] .
      with "4.prems" len have "2 * length r1 + 1 < f" by simp
      with "4.IH"(2) [OF Some [unfolded p] refl that refl] show ?thesis by simp
    qed
    with v Some p show ?thesis
      by (auto simp: parse_elems.simps(2) [of "Suc f" d s] parse_elems.simps(2) [of f d s]
          split: list.split)
  next
    case None
    with v show ?thesis
      by (simp add: parse_elems.simps(2) [of "Suc f" d s] parse_elems.simps(2) [of f d s])
  qed
next
  case (6 f d s)
  show ?case
  proof (cases "parse_name s")
    case (Some p)
    then obtain n r where p: "p = (n, r)" by (cases p) auto
    with Some have len: "length r < length s" using parse_name_length by blast
    have v: "parse_value (Suc f) d r = parse_value f d r"
      using "6.IH"(1) [OF Some [unfolded p] refl] "6.prems" len by simp
    have "parse_members (Suc f) d r2 = parse_members f d r2"
      if "parse_value f d r = Some (j, r1)" "skip_ws r1 = CHR '','' # r2" for j r1 r2
    proof -
      have "length r2 < length r"
        using skip_ws_Cons_length [OF that(2)] parse_length(1) [OF that(1)] by simp
      with "6.prems" len have "2 * length r2 + 1 < f" by simp
      with "6.IH"(2) [OF Some [unfolded p] refl that(1) refl that(2) refl] show ?thesis by simp
    qed
    with v Some p show ?thesis
      by (auto simp: parse_members.simps(2) [of "Suc f" d s] parse_members.simps(2) [of f d s]
          split: list.split option.split)
  qed (simp add: parse_members.simps(2))
qed simp_all

text \<open>More fuel than \<open>parse_json\<close> gives never changes what it reads or refuses.\<close>

theorem parse_fuel_irrelevant:
  assumes "Suc (2 * length s) \<le> f"
  shows "parse_value f d s = parse_value (Suc (2 * length s)) d s"
  using assms
proof (induction f rule: dec_induct)
  case (step n)
  then show ?case using parse_fuel_step(1) [of s n d] by simp
qed simp

section \<open>Integer literals\<close>

text \<open>What may follow a number without changing it.\<close>

definition num_stop :: "string \<Rightarrow> bool" where
  "num_stop t =
     (case t of [] \<Rightarrow> True | c # _ \<Rightarrow> \<not> is_digit c \<and> c \<notin> {CHR ''.'', CHR ''e'', CHR ''E''})"

lemma num_stop_simps [simp]:
  "num_stop []" "num_stop (CHR '','' # t)" "num_stop (CHR '']'' # t)" "num_stop (CHR ''}'' # t)"
  by (simp_all add: num_stop_def is_digit_def byte_def)

lemma num_stop_lex_frac: "num_stop t \<Longrightarrow> lex_frac lit t = Some (lit, t)"
  by (auto simp: num_stop_def lex_frac_def lex_exp_def split: list.splits)

lemma num_stop_span:
  assumes "num_stop t" "list_all is_digit ds"
  shows "takeWhile is_digit (ds @ t) = ds" "dropWhile is_digit (ds @ t) = t"
  using assms(2)
  by (induction ds) (use assms(1) in \<open>auto simp: num_stop_def split: list.splits\<close>)

lemma dec_head: "0 < n \<Longrightarrow> dec n = c # ds \<Longrightarrow> c \<noteq> CHR ''0''"
proof (induction n arbitrary: c ds rule: dec.induct)
  case (1 n)
  show ?case
  proof (cases "n < 10")
    case True
    then have "byte c = 48 + n" using "1.prems" by (subst (asm) dec.simps) auto
    with "1.prems" show ?thesis by (auto simp: byte_def)
  next
    case False
    obtain c' ds' where "dec (n div 10) = c' # ds'" by (cases "dec (n div 10)") auto
    with 1 False show ?thesis by (subst (asm) (2) dec.simps) auto
  qed
qed

lemma dec_zero [simp]: "dec 0 = ''0''"
  by (simp add: dec.simps digit_def char_of_def bit_Suc_0_iff)

lemma lex_nat_dec:
  assumes "num_stop t"
  shows "lex_nat sg (dec n @ t) = Some (sg @ dec n, t)"
proof (cases "n = 0")
  case True
  with assms show ?thesis by (simp add: lex_nat_def num_stop_lex_frac)
next
  case False
  obtain c ds where c: "dec n = c # ds" by (cases "dec n") auto
  then have "is_digit c" "list_all is_digit ds"
    using dec_digits [of _ n] by (auto simp: list_all_iff)
  with c dec_head [of n c ds] False assms show ?thesis
    by (simp add: lex_nat_def num_stop_span num_stop_lex_frac)
qed

lemma lex_number_itoa: "num_stop t \<Longrightarrow> lex_number (itoa i @ t) = Some (itoa i, t)"
proof (cases "i < 0")
  case False
  obtain c ds where c: "dec (nat i) = c # ds" by (cases "dec (nat i)") auto
  assume "num_stop t"
  with lex_nat_dec [of t "[]" "nat i"] c dec_head_not_sign [OF c] False show ?thesis
    by (simp add: lex_number_def itoa_def)
qed (simp add: lex_number_def itoa_def lex_nat_dec)

section \<open>Round trip\<close>

text \<open>The values whose numbers are printed integers, as all those the program writes are.\<close>

fun json_ok :: "json \<Rightarrow> bool" where
  "json_ok (JNum lit) = (case signed_nat lit of None \<Rightarrow> False | Some i \<Rightarrow> lit = itoa i)"
| "json_ok (JArr js) = list_all json_ok js"
| "json_ok (JObj ms) = list_all (\<lambda>(n, j). json_ok j) ms"
| "json_ok _ = True"

fun json_depth :: "json \<Rightarrow> nat" where
  "json_depth (JArr js) = Suc (fold max (map json_depth js) 0)"
| "json_depth (JObj ms) = Suc (fold max (map (\<lambda>(n, j). json_depth j) ms) 0)"
| "json_depth _ = 0"

fun clean_json :: "json \<Rightarrow> json" where
  "clean_json (JStr s) = JStr (sanitize s)"
| "clean_json (JArr js) = JArr (map clean_json js)"
| "clean_json (JObj ms) = JObj (map (\<lambda>(n, j). (sanitize n, clean_json j)) ms)"
| "clean_json j = j"

fun json_fuel :: "json \<Rightarrow> nat"
  and elems_fuel :: "json list \<Rightarrow> nat"
  and members_fuel :: "(string \<times> json) list \<Rightarrow> nat" where
  "json_fuel (JArr js) = Suc (elems_fuel js)"
| "json_fuel (JObj ms) = Suc (members_fuel ms)"
| "json_fuel _ = 1"
| "elems_fuel [] = 0"
| "elems_fuel (j # js) = Suc (json_fuel j + elems_fuel js)"
| "members_fuel [] = 0"
| "members_fuel ((n, j) # ms) = Suc (json_fuel j + members_fuel ms)"

lemma fold_max_le: "fold max xs a \<le> (d::nat) \<longleftrightarrow> a \<le> d \<and> list_all (\<lambda>x. x \<le> d) xs"
  by (induction xs arbitrary: a) auto

lemma itoa_head:
  obtains c r where "itoa i = c # r" "is_digit c \<or> c = CHR ''-''"
proof (cases "itoa i")
  case Nil
  then show ?thesis by (simp add: itoa_def split: if_splits)
next
  case (Cons c r)
  then have "is_digit c \<or> c = CHR ''-''"
    using dec_digits [of c "nat i"] by (auto simp: itoa_def split: if_splits)
  with Cons that show ?thesis by blast
qed

lemma not_ws_consts [simp]:
  "\<not> is_ws (CHR ''['')" "\<not> is_ws (CHR '']'')" "\<not> is_ws (CHR ''{'')" "\<not> is_ws (CHR ''}'')"
  "\<not> is_ws (CHR 0x22)" "\<not> is_ws (CHR ''n'')" "\<not> is_ws (CHR ''t'')" "\<not> is_ws (CHR ''f'')"
  "\<not> is_ws (CHR '','')" "\<not> is_ws (CHR '':'')" "\<not> is_ws (CHR ''-'')"
  by (simp_all add: is_ws_def)

lemma digit_not_ws: "is_digit c \<Longrightarrow> \<not> is_ws c"
  by (auto simp: is_digit_def is_ws_def byte_def)

lemma digit_not_punct:
  "is_digit c \<Longrightarrow> c \<notin> {CHR ''['', CHR '']'', CHR ''{'', CHR 0x22, CHR ''n'', CHR ''t'', CHR ''f''}"
  by (auto simp: is_digit_def byte_def)

lemma parse_value_itoa:
  assumes "num_stop t"
  shows "parse_value (Suc f) d (itoa i @ t) = Some (JNum (itoa i), t)"
proof -
  obtain c r where c: "itoa i = c # r" "is_digit c \<or> c = CHR ''-''" by (rule itoa_head)
  then have "\<not> is_ws c" "c \<notin> {CHR ''['', CHR ''{'', CHR 0x22, CHR ''n'', CHR ''t'', CHR ''f''}"
    using digit_not_ws digit_not_punct by auto
  with c lex_number_itoa [OF assms, of i] show ?thesis
    by (simp add: parse_value.simps(2))
qed

lemma print_json_head:
  assumes "json_ok j"
  obtains c r where "print_json j = c # r" "\<not> is_ws c" "c \<noteq> CHR '']''"
proof (cases j)
  case (JNum lit)
  with assms obtain i where "lit = itoa i" by (auto split: option.splits)
  moreover obtain c r where "itoa i = c # r" "is_digit c \<or> c = CHR ''-''" by (rule itoa_head)
  ultimately show ?thesis using that JNum digit_not_ws digit_not_punct by fastforce
next
  case (JBool b)
  then show ?thesis using that by (cases b) auto
qed (use that in \<open>auto simp: quote_def split: if_splits\<close>)

lemma parse_name_quote: "parse_name (quote n @ CHR '':'' # t) = Some (sanitize n, t)"
  by (simp add: parse_name_def quote_def unquote_quote_body)

lemma parse_print_gen:
  "json_ok j \<Longrightarrow> json_depth j \<le> d \<Longrightarrow> json_fuel j \<le> f \<Longrightarrow> num_stop t \<Longrightarrow>
   parse_value f d (print_json j @ t) = Some (clean_json j, t)"
  "js \<noteq> [] \<Longrightarrow> list_all json_ok js \<Longrightarrow> list_all (\<lambda>j. json_depth j \<le> d) js \<Longrightarrow> elems_fuel js \<le> f \<Longrightarrow>
   parse_elems f d (print_elems js @ CHR '']'' # t) = Some (map clean_json js, t)"
  "ms \<noteq> [] \<Longrightarrow> list_all (\<lambda>(n, j). json_ok j) ms \<Longrightarrow>
   list_all (\<lambda>(n, j). json_depth j \<le> d) ms \<Longrightarrow> members_fuel ms \<le> f \<Longrightarrow>
   parse_members f d (print_members ms @ CHR ''}'' # t) =
     Some (map (\<lambda>(n, j). (sanitize n, clean_json j)) ms, t)"
proof (induction j and js and ms arbitrary: f d t and f d t and f d t
    rule: print_json_print_elems_print_members.induct)
  case 1
  then show ?case
    using word_append [of "''ull''" t] by (cases f) (auto simp: parse_value.simps(2))
next
  case (2 b)
  then show ?case
    using word_append [of "''rue''" t] word_append [of "''alse''" t]
    by (cases f) (auto simp: parse_value.simps(2))
next
  case (3 lit)
  then show ?case by (cases f) (auto simp: parse_value_itoa split: option.splits)
next
  case (4 s)
  then show ?case
    by (cases f) (auto simp: parse_value.simps(2) quote_def unquote_quote_body)
next
  case (5 js)
  then obtain f' d' where f: "f = Suc f'" "elems_fuel js \<le> f'"
    and d: "d = Suc d'" "list_all (\<lambda>j. json_depth j \<le> d') js"
    by (cases f; cases d) (auto simp: fold_max_le list_all_iff)
  show ?case
  proof (cases js)
    case (Cons k ks)
    with "5.prems"(1) obtain c r where h: "print_json k = c # r" "\<not> is_ws c" "c \<noteq> CHR '']''"
      using print_json_head [of k] by auto
    then have "\<exists>r'. print_elems js @ '']'' @ t = c # r'" using Cons by (cases ks) auto
    then show ?thesis
      using "5.IH" [of d' f' t] "5.prems"(1) Cons f d h
      by (auto simp: parse_value.simps(2))
  qed (use f d in \<open>simp add: parse_value.simps(2)\<close>)
next
  case (6 ms)
  then obtain f' d' where f: "f = Suc f'" "members_fuel ms \<le> f'"
    and d: "d = Suc d'" "list_all (\<lambda>(n, j). json_depth j \<le> d') ms"
    by (cases f; cases d) (auto simp: fold_max_le list_all_iff split_beta)
  show ?case
  proof (cases ms)
    case (Cons m ks)
    then have "\<exists>r'. print_members ms @ ''}'' @ t = CHR 0x22 # r'"
      by (cases ks; cases m) (auto simp: quote_def)
    then show ?thesis
      using "6.IH" [of d' f' t] "6.prems"(1) Cons f d
      by (auto simp: parse_value.simps(2))
  qed (use f d in \<open>simp add: parse_value.simps(2)\<close>)
next
  case (8 j)
  then show ?case by (cases f) (auto simp: parse_elems.simps(2))
next
  case (9 j k js)
  then show ?case by (cases f) (auto simp: parse_elems.simps(2))
next
  case (11 n j)
  then show ?case by (cases f) (auto simp: parse_members.simps(2) parse_name_quote)
next
  case (12 n j m ms)
  then show ?case by (cases f) (auto simp: parse_members.simps(2) parse_name_quote)
qed simp_all

lemma json_fuel_length:
  "json_ok j \<Longrightarrow> json_fuel j \<le> length (print_json j)"
  "list_all json_ok js \<Longrightarrow> elems_fuel js \<le> Suc (length (print_elems js))"
  "list_all (\<lambda>(n, j). json_ok j) ms \<Longrightarrow> members_fuel ms \<le> Suc (length (print_members ms))"
proof (induction j and js and ms rule: print_json_print_elems_print_members.induct)
  case (3 lit)
  then show ?case
    by (cases lit) (auto simp: signed_nat_def split: option.splits)
qed (auto simp: quote_def)

theorem parse_print:
  assumes "json_ok j" "json_depth j \<le> maxNestingDepth"
  shows "parse_json (print_json j) = Some (clean_json j)"
proof -
  have "json_fuel j \<le> Suc (2 * length (print_json j))"
    using json_fuel_length(1) [OF assms(1)] by simp
  then show ?thesis
    using parse_print_gen(1) [OF assms, of "Suc (2 * length (print_json j))" "[]"]
    by (simp add: parse_json_def)
qed

end
