(* ===== verification/Codec.thy ===== *)
theory Codec
  imports Api_Types Json_Parser
begin

text \<open>
  The typed half of \<open>encoding/json\<close> for the values stored in annotations: struct fields with
  \<open>omitempty\<close>, pointers, slices, \<open>int32\<close> and strings, written as \<open>json.Marshal\<close> does and read
  as \<open>json.Unmarshal\<close> does into a zero value (case-insensitive field names, unknown fields
  ignored, \<open>null\<close> a no-op or nil, the wrong kind or an out-of-range number an error).
  The contract of a codec is the locale \<open>json_codec\<close>; \<open>elem_codec\<close> gives the codec of a slice
  for the codec of its elements. They are interpreted for \<open>[]v1beta1.ServicePort\<close>,
  \<open>[]corev1.IPFamily\<close> and \<open>corev1.SessionAffinityConfig\<close>.
\<close>

section \<open>Encoding\<close>

definition omit_empty :: "string \<Rightarrow> string \<Rightarrow> (string \<times> json) list" where
  "omit_empty n v = (if v = '''' then [] else [(n, JStr v)])"

definition omit_nil :: "('a \<Rightarrow> json) \<Rightarrow> string \<Rightarrow> 'a option \<Rightarrow> (string \<times> json) list" where
  "omit_nil enc n v = (case v of None \<Rightarrow> [] | Some x \<Rightarrow> [(n, enc x)])"

definition enc_int32 :: "int32 \<Rightarrow> json" where
  "enc_int32 w = JNum (itoa (sint w))"

definition enc_slice :: "('a \<Rightarrow> json) \<Rightarrow> 'a slice \<Rightarrow> json" where
  "enc_slice enc v = (case v of None \<Rightarrow> JNull | Some xs \<Rightarrow> JArr (map enc xs))"

definition enc_mcs_port :: "mcs_port \<Rightarrow> json" where
  "enc_mcs_port p = JObj
     (omit_empty ''name'' (mp_Name p) @ omit_empty ''protocol'' (mp_Protocol p) @
      omit_nil JStr ''appProtocol'' (mp_AppProtocol p) @ [(''port'', enc_int32 (mp_Port p))])"

definition enc_client_ip :: "client_ip_config \<Rightarrow> json" where
  "enc_client_ip c = JObj (omit_nil enc_int32 ''timeoutSeconds'' (cip_TimeoutSeconds c))"

definition enc_sac :: "session_affinity_config \<Rightarrow> json" where
  "enc_sac c = JObj (omit_nil enc_client_ip ''clientIP'' (sac_ClientIP c))"

section \<open>Decoding\<close>

text \<open>Field names are compared after \<open>foldName\<close>: ASCII letters in upper case, and the two
  non-ASCII letters that fold to ASCII ones, U+017F to S and U+212A to K.\<close>

definition upper :: "char \<Rightarrow> char" where
  "upper c = (if 97 \<le> byte c \<and> byte c \<le> 122 then char_of (byte c - 32) else c)"

fun fold_name :: "string \<Rightarrow> string" where
  "fold_name [] = []"
| "fold_name (c # r) =
     (if take 2 (c # r) = [CHR 0xC5, CHR 0xBF] then CHR ''S'' # fold_name (drop 1 r)
      else if take 3 (c # r) = [CHR 0xE2, CHR 0x84, CHR 0xAA] then CHR ''K'' # fold_name (drop 2 r)
      else upper c # fold_name r)"

text \<open>A decoder takes the value read and the variable's old value.\<close>

type_synonym 'a decoder = "json \<Rightarrow> 'a \<Rightarrow> 'a option"

definition dec_string :: "string decoder" where
  "dec_string j old = (case j of JNull \<Rightarrow> Some old | JStr s \<Rightarrow> Some s | _ \<Rightarrow> None)"

definition dec_int32 :: "int32 decoder" where
  "dec_int32 j old =
     (case j of
        JNull \<Rightarrow> Some old
      | JNum lit \<Rightarrow>
          (case ParseInt lit of
             None \<Rightarrow> None
           | Some i \<Rightarrow> if - (2 ^ 31) \<le> i \<and> i < 2 ^ 31 then Some (word_of_int i) else None)
      | _ \<Rightarrow> None)"

definition dec_ptr :: "'a decoder \<Rightarrow> 'a \<Rightarrow> 'a option decoder" where
  "dec_ptr d zero j old =
     (case j of
        JNull \<Rightarrow> Some None
      | _ \<Rightarrow> map_option Some (d j (case old of None \<Rightarrow> zero | Some x \<Rightarrow> x)))"

fun dec_fields :: "(string \<Rightarrow> json \<Rightarrow> 'a \<Rightarrow> 'a option) \<Rightarrow> (string \<times> json) list \<Rightarrow> 'a \<Rightarrow> 'a option" where
  "dec_fields set_field [] x = Some x"
| "dec_fields set_field ((n, j) # ms) x =
     (case set_field (fold_name n) j x of None \<Rightarrow> None | Some y \<Rightarrow> dec_fields set_field ms y)"

definition dec_struct :: "(string \<Rightarrow> json \<Rightarrow> 'a \<Rightarrow> 'a option) \<Rightarrow> 'a decoder" where
  "dec_struct set_field j old =
     (case j of JNull \<Rightarrow> Some old | JObj ms \<Rightarrow> dec_fields set_field ms old | _ \<Rightarrow> None)"

fun dec_list :: "'a decoder \<Rightarrow> 'a \<Rightarrow> json list \<Rightarrow> 'a list option" where
  "dec_list d zero [] = Some []"
| "dec_list d zero (j # js) =
     (case d j zero of
        None \<Rightarrow> None
      | Some x \<Rightarrow> map_option ((#) x) (dec_list d zero js))"

text \<open>A slice is only ever read into a nil variable here.\<close>

definition dec_slice :: "'a decoder \<Rightarrow> 'a \<Rightarrow> 'a slice decoder" where
  "dec_slice d zero j old =
     (case j of
        JNull \<Rightarrow> Some None
      | JArr js \<Rightarrow> map_option Some (dec_list d zero js)
      | _ \<Rightarrow> None)"

definition zero_mcs_port :: mcs_port where
  "zero_mcs_port = \<lparr>mp_Name = '''', mp_Protocol = '''', mp_AppProtocol = None, mp_Port = 0\<rparr>"

definition set_mcs_port :: "string \<Rightarrow> json \<Rightarrow> mcs_port \<Rightarrow> mcs_port option" where
  "set_mcs_port k j p =
     (if k = ''NAME'' then map_option (\<lambda>v. p\<lparr>mp_Name := v\<rparr>) (dec_string j (mp_Name p))
      else if k = ''PROTOCOL''
      then map_option (\<lambda>v. p\<lparr>mp_Protocol := v\<rparr>) (dec_string j (mp_Protocol p))
      else if k = ''APPPROTOCOL''
      then map_option (\<lambda>v. p\<lparr>mp_AppProtocol := v\<rparr>) (dec_ptr dec_string '''' j (mp_AppProtocol p))
      else if k = ''PORT'' then map_option (\<lambda>v. p\<lparr>mp_Port := v\<rparr>) (dec_int32 j (mp_Port p))
      else Some p)"

definition set_client_ip :: "string \<Rightarrow> json \<Rightarrow> client_ip_config \<Rightarrow> client_ip_config option" where
  "set_client_ip k j c =
     (if k = ''TIMEOUTSECONDS''
      then map_option (\<lambda>v. c\<lparr>cip_TimeoutSeconds := v\<rparr>) (dec_ptr dec_int32 0 j (cip_TimeoutSeconds c))
      else Some c)"

definition set_sac ::
  "string \<Rightarrow> json \<Rightarrow> session_affinity_config \<Rightarrow> session_affinity_config option" where
  "set_sac k j c =
     (if k = ''CLIENTIP''
      then map_option (\<lambda>v. c\<lparr>sac_ClientIP := v\<rparr>)
             (dec_ptr (dec_struct set_client_ip) \<lparr>cip_TimeoutSeconds = None\<rparr> j (sac_ClientIP c))
      else Some c)"

definition zero_sac :: session_affinity_config where
  "zero_sac = \<lparr>sac_ClientIP = None\<rparr>"

text \<open>\<open>json.Unmarshal\<close> of a text into a variable.\<close>

definition json_Unmarshal :: "'a decoder \<Rightarrow> 'a \<Rightarrow> string \<Rightarrow> 'a option" where
  "json_Unmarshal d old s = (case parse_json s of None \<Rightarrow> None | Some j \<Rightarrow> d j old)"

section \<open>The contract of a codec\<close>

locale json_codec =
  fixes enc :: "'a \<Rightarrow> json" and decode :: "'a decoder" and zero :: 'a and valid :: "'a \<Rightarrow> bool"
  assumes enc_ok: "valid x \<Longrightarrow> json_ok (enc x)"
    and enc_depth: "valid x \<Longrightarrow> json_depth (enc x) \<le> maxNestingDepth"
    and decode_enc: "valid x \<Longrightarrow> decode (clean_json (enc x)) zero = Some x"
begin

lemma unmarshal_marshal:
  "valid x \<Longrightarrow> json_Unmarshal decode zero (print_json (enc x)) = Some x"
  by (simp add: json_Unmarshal_def parse_print enc_ok enc_depth decode_enc)

lemma marshal_inj:
  "valid x \<Longrightarrow> valid y \<Longrightarrow> print_json (enc x) = print_json (enc y) \<Longrightarrow> x = y"
  using unmarshal_marshal by (metis option.inject)

end

text \<open>The codec of an element, of which there may be many, one level below the top.\<close>

locale elem_codec =
  fixes enc :: "'a \<Rightarrow> json" and decode :: "'a decoder" and zero :: 'a and valid :: "'a \<Rightarrow> bool"
  assumes elem_ok: "valid x \<Longrightarrow> json_ok (enc x)"
    and elem_depth: "valid x \<Longrightarrow> Suc (json_depth (enc x)) \<le> maxNestingDepth"
    and decode_elem: "valid x \<Longrightarrow> decode (clean_json (enc x)) zero = Some x"
begin

lemma dec_list_map:
  "list_all valid xs \<Longrightarrow> dec_list decode zero (map (clean_json \<circ> enc) xs) = Some xs"
  by (induction xs) (simp_all add: decode_elem)

end

sublocale elem_codec \<subseteq> slice: json_codec "enc_slice enc" "dec_slice decode zero" None
    "\<lambda>v. list_all valid (elems v)"
proof unfold_locales
  fix v :: "'a slice"
  assume v: "list_all valid (elems v)"
  then show "json_ok (enc_slice enc v)"
    by (cases v) (auto simp: enc_slice_def list_all_iff elem_ok)
  show "json_depth (enc_slice enc v) \<le> maxNestingDepth"
  proof (cases v)
    case (Some xs)
    have "fold max (map (json_depth \<circ> enc) xs) 0 \<le> maxNestingDepth - 1"
      unfolding fold_max_le using v Some elem_depth by (fastforce simp: list_all_iff)
    then show ?thesis
      using Some by (simp add: enc_slice_def maxNestingDepth_def)
  qed (simp add: enc_slice_def)
  show "dec_slice decode zero (clean_json (enc_slice enc v)) None = Some v"
    using v by (cases v) (simp_all add: enc_slice_def dec_slice_def dec_list_map)
qed

section \<open>The codecs of the program\<close>

lemma dec_string_valid [simp]: "valid_utf8 s \<Longrightarrow> dec_string (JStr (sanitize s)) old = Some s"
  by (simp add: dec_string_def sanitize_valid)

lemma dec_int32_enc [simp]: "dec_int32 (clean_json (enc_int32 w)) old = Some w"
proof -
  have r: "- (2 ^ 31) \<le> sint w" "sint w < 2 ^ 31"
    using sint_ge [of w] sint_lt [of w] by simp_all
  then have "in_int64 (sint w)" by (simp add: in_int64_def)
  with r show ?thesis by (simp add: enc_int32_def dec_int32_def ParseInt_itoa)
qed

lemma json_ok_enc_int32 [simp]: "json_ok (enc_int32 w)" "json_depth (enc_int32 w) = 0"
  "clean_json (enc_int32 w) = enc_int32 w"
  by (simp_all add: enc_int32_def)

lemma dec_ptr_int32_enc [simp]: "dec_ptr dec_int32 0 (enc_int32 w) old = Some (Some w)"
  using dec_int32_enc [of w "case old of None \<Rightarrow> 0 | Some x \<Rightarrow> x"]
  by (simp add: dec_ptr_def enc_int32_def)

lemma sanitize_name [simp]:
  "sanitize ''name'' = ''name''" "sanitize ''protocol'' = ''protocol''"
  "sanitize ''appProtocol'' = ''appProtocol''" "sanitize ''port'' = ''port''"
  "sanitize ''clientIP'' = ''clientIP''" "sanitize ''timeoutSeconds'' = ''timeoutSeconds''"
  by (rule sanitize_valid, rule ascii_valid_utf8, simp add: ascii_def byte_def)+

lemma fold_name_consts [simp]:
  "fold_name ''name'' = ''NAME''" "fold_name ''protocol'' = ''PROTOCOL''"
  "fold_name ''appProtocol'' = ''APPPROTOCOL''" "fold_name ''port'' = ''PORT''"
  "fold_name ''clientIP'' = ''CLIENTIP''" "fold_name ''timeoutSeconds'' = ''TIMEOUTSECONDS''"
  by (simp_all add: upper_def byte_def char_of_def bit_Suc_0_iff)

declare fold_name.simps(2) [simp del] clean_json.simps(3) [simp del] sanitize.simps(2) [simp del]

text \<open>The members written for a field, as they are read back, and what reading them does.\<close>

lemma dec_fields_append:
  "dec_fields sf (ms @ ns) x = Option.bind (dec_fields sf ms x) (dec_fields sf ns)"
  by (induction ms arbitrary: x) (auto split: option.split)

definition clean_members :: "(string \<times> json) list \<Rightarrow> (string \<times> json) list" where
  "clean_members ms = map (\<lambda>(n, j). (sanitize n, clean_json j)) ms"

lemma clean_members_simps [simp]:
  "clean_members [] = []"
  "clean_members ((n, j) # ms) = (sanitize n, clean_json j) # clean_members ms"
  "clean_members (ms @ ns) = clean_members ms @ clean_members ns"
  by (simp_all add: clean_members_def)

lemma clean_JObj: "clean_json (JObj ms) = JObj (clean_members ms)"
  by (simp add: clean_members_def clean_json.simps(3))

definition valid_mcs_port :: "mcs_port \<Rightarrow> bool" where
  "valid_mcs_port p = (valid_utf8 (mp_Name p) \<and> valid_utf8 (mp_Protocol p) \<and>
     (case mp_AppProtocol p of None \<Rightarrow> True | Some a \<Rightarrow> valid_utf8 a))"

lemma dec_port_name:
  "valid_utf8 v \<Longrightarrow> mp_Name p = '''' \<Longrightarrow>
   dec_fields set_mcs_port (clean_members (omit_empty ''name'' v)) p = Some (p\<lparr>mp_Name := v\<rparr>)"
  by (simp add: omit_empty_def set_mcs_port_def)

lemma dec_port_protocol:
  "valid_utf8 v \<Longrightarrow> mp_Protocol p = '''' \<Longrightarrow>
   dec_fields set_mcs_port (clean_members (omit_empty ''protocol'' v)) p =
     Some (p\<lparr>mp_Protocol := v\<rparr>)"
  by (simp add: omit_empty_def set_mcs_port_def)

lemma dec_port_app:
  "case v of None \<Rightarrow> True | Some a \<Rightarrow> valid_utf8 a \<Longrightarrow> mp_AppProtocol p = None \<Longrightarrow>
   dec_fields set_mcs_port (clean_members (omit_nil JStr ''appProtocol'' v)) p =
     Some (p\<lparr>mp_AppProtocol := v\<rparr>)"
  by (cases v) (simp_all add: omit_nil_def set_mcs_port_def dec_ptr_def)

lemma dec_port_port:
  "dec_fields set_mcs_port (clean_members [(''port'', enc_int32 w)]) p = Some (p\<lparr>mp_Port := w\<rparr>)"
  using dec_int32_enc [of w "mp_Port p"] by (simp add: set_mcs_port_def)

interpretation port_codec: elem_codec enc_mcs_port "dec_struct set_mcs_port" zero_mcs_port
  valid_mcs_port
proof unfold_locales
  fix p :: mcs_port
  assume v: "valid_mcs_port p"
  show "json_ok (enc_mcs_port p)"
    by (simp add: enc_mcs_port_def omit_empty_def omit_nil_def split: option.split)
  show "Suc (json_depth (enc_mcs_port p)) \<le> maxNestingDepth"
    by (simp add: enc_mcs_port_def omit_empty_def omit_nil_def maxNestingDepth_def
        split: option.split)
  show "dec_struct set_mcs_port (clean_json (enc_mcs_port p)) zero_mcs_port = Some p"
    using v
    by (simp add: enc_mcs_port_def clean_JObj dec_struct_def dec_fields_append dec_port_name
        dec_port_protocol dec_port_app dec_port_port zero_mcs_port_def valid_mcs_port_def
        del: clean_members_simps(2) dec_fields.simps)
qed

interpretation family_codec: elem_codec JStr dec_string "''''" valid_utf8
  by unfold_locales (simp_all add: maxNestingDepth_def)

interpretation sac_codec: json_codec enc_sac "dec_struct set_sac" zero_sac "\<lambda>_. True"
proof unfold_locales
  fix c :: session_affinity_config
  show "json_ok (enc_sac c)"
    by (simp add: enc_sac_def enc_client_ip_def omit_nil_def split: option.split)
  show "json_depth (enc_sac c) \<le> maxNestingDepth"
    by (simp add: enc_sac_def enc_client_ip_def omit_nil_def maxNestingDepth_def
        split: option.split)
  show "dec_struct set_sac (clean_json (enc_sac c)) zero_sac = Some c"
  proof (cases "sac_ClientIP c")
    case (Some i)
    have "dec_struct set_client_ip (clean_json (enc_client_ip i)) \<lparr>cip_TimeoutSeconds = None\<rparr> = Some i"
      by (cases "cip_TimeoutSeconds i")
         (simp_all add: enc_client_ip_def clean_JObj omit_nil_def dec_struct_def set_client_ip_def)
    with Some show ?thesis
      by (simp add: enc_sac_def clean_JObj omit_nil_def dec_struct_def set_sac_def zero_sac_def
          dec_ptr_def enc_client_ip_def)
  qed (simp add: enc_sac_def clean_JObj omit_nil_def dec_struct_def zero_sac_def)
qed

end
