(* ===== verification/Client.thy ===== *)
theory Client
  imports Api_Types
begin

text \<open>
  The Kubernetes API as the program sees it: the methods of \<open>client.Client\<close> it calls, one record
  of methods for each kind of object, over a state of type \<open>'st\<close> that the program never looks
  into. The API server and the informer cache behind the client are not code of the repository:
  the handlers take the client as an argument, and what they rely on is the locale \<open>api_kind\<close>.

  The laws are those of the documented client: \<open>Get\<close> reads the cache, which may lag behind the
  server; a write goes to the server, and changes at most the object it names; a write that
  reports success took effect, and one that reports an error may or may not have (a timeout);
  a merge patch made against the current object gives exactly the modified object.
  \<open>live_api_kind\<close> adds that in a state that is \<open>up\<close> the calls that can succeed do.
\<close>

record ('st, 'o) kind_client =
  cl_Get :: "namespaced_name \<Rightarrow> 'st \<Rightarrow> 'o go_result \<times> 'st"
  cl_Create :: "'o \<Rightarrow> 'st \<Rightarrow> go_error option \<times> 'st"
  cl_Patch :: "'o \<Rightarrow> 'o \<Rightarrow> 'st \<Rightarrow> go_error option \<times> 'st"
  cl_StatusPatch :: "'o \<Rightarrow> 'o \<Rightarrow> 'st \<Rightarrow> go_error option \<times> 'st"
  cl_Delete :: "'o \<Rightarrow> 'st \<Rightarrow> go_error option \<times> 'st"

text \<open>\<open>cl_Patch c obj base\<close> is \<open>c.Patch(ctx, obj, client.MergeFrom(base))\<close>.\<close>

record 'st client =
  cl_Services :: "('st, service) kind_client"
  cl_Exports :: "('st, service_export) kind_client"
  cl_Imports :: "('st, service_import) kind_client"
  cl_Slices :: "('st, endpoint_slice) kind_client"

text \<open>What a write of a new version \<open>new\<close> of the object \<open>k\<close> may do: report success and take
  effect, or report an error and have taken effect or not.\<close>

definition write_outcome ::
  "go_error option \<Rightarrow> ('k \<rightharpoonup> 'o) \<Rightarrow> ('k \<rightharpoonup> 'o) \<Rightarrow> 'k \<Rightarrow> bool \<Rightarrow> 'o option \<Rightarrow> bool" where
  "write_outcome r old now k possible new =
     (if r = None then possible \<and> now = old(k := new)
      else now = old \<or> (possible \<and> now = old(k := new)))"

lemma write_outcome_frame: "write_outcome r old now k p new \<Longrightarrow> k' \<noteq> k \<Longrightarrow> now k' = old k'"
  by (auto simp: write_outcome_def split: if_splits)

lemma write_outcome_ok: "write_outcome None old now k p new \<Longrightarrow> p \<and> now = old(k := new)"
  by (simp add: write_outcome_def)

lemma write_outcome_at: "write_outcome r old now k p new \<Longrightarrow> now k = old k \<or> (p \<and> now k = new)"
  by (auto simp: write_outcome_def split: if_splits)

section \<open>The laws of one kind of object\<close>

locale api_kind =
  fixes kc :: "('st, 'o) kind_client"
    and stored :: "'st \<Rightarrow> namespaced_name \<rightharpoonup> 'o"
    and cached :: "'st \<Rightarrow> namespaced_name \<rightharpoonup> 'o"
    and key :: "'o \<Rightarrow> namespaced_name"
    and merge :: "'o \<Rightarrow> 'o \<Rightarrow> 'o \<Rightarrow> 'o"
    and smerge :: "'o \<Rightarrow> 'o \<Rightarrow> 'o \<Rightarrow> 'o"
    and others :: "'st \<Rightarrow> 'x"
  assumes cached_key: "cached s k = Some ob \<Longrightarrow> key ob = k"
    and Get_stored: "stored (snd (cl_Get kc k s)) = stored s"
    and Get_cached: "cached (snd (cl_Get kc k s)) = cached s"
    and Get_others: "others (snd (cl_Get kc k s)) = others s"
    and Get_found: "fst (cl_Get kc k s) = Inr ob \<Longrightarrow> cached s k = Some ob"
    and Get_absent: "fst (cl_Get kc k s) = Inl e \<Longrightarrow> isNotFound e \<Longrightarrow> cached s k = None"
    and Create_outcome:
      "write_outcome (fst (cl_Create kc ob s)) (stored s) (stored (snd (cl_Create kc ob s)))
         (key ob) (stored s (key ob) = None) (Some ob)"
    and Create_cached: "cached (snd (cl_Create kc ob s)) = cached s"
    and Create_others: "others (snd (cl_Create kc ob s)) = others s"
    and Patch_outcome:
      "write_outcome (fst (cl_Patch kc ob base s)) (stored s) (stored (snd (cl_Patch kc ob base s)))
         (key ob) (stored s (key ob) \<noteq> None) (map_option (merge base ob) (stored s (key ob)))"
    and Patch_cached: "cached (snd (cl_Patch kc ob base s)) = cached s"
    and Patch_others: "others (snd (cl_Patch kc ob base s)) = others s"
    and StatusPatch_outcome:
      "write_outcome (fst (cl_StatusPatch kc ob base s)) (stored s)
         (stored (snd (cl_StatusPatch kc ob base s)))
         (key ob) (stored s (key ob) \<noteq> None) (map_option (smerge base ob) (stored s (key ob)))"
    and StatusPatch_cached: "cached (snd (cl_StatusPatch kc ob base s)) = cached s"
    and StatusPatch_others: "others (snd (cl_StatusPatch kc ob base s)) = others s"
    and Delete_outcome:
      "write_outcome (fst (cl_Delete kc ob s)) (stored s) (stored (snd (cl_Delete kc ob s)))
         (key ob) (stored s (key ob) \<noteq> None) None"
    and Delete_cached: "cached (snd (cl_Delete kc ob s)) = cached s"
    and Delete_others: "others (snd (cl_Delete kc ob s)) = others s"
begin

lemmas call_frames = Get_stored Get_cached Get_others Create_cached Create_others Patch_cached
  Patch_others StatusPatch_cached StatusPatch_others Delete_cached Delete_others

text \<open>No call touches an object it does not name.\<close>

lemmas write_frames =
  write_outcome_frame [OF Create_outcome] write_outcome_frame [OF Patch_outcome]
  write_outcome_frame [OF StatusPatch_outcome] write_outcome_frame [OF Delete_outcome]

text \<open>A patch neither creates nor deletes an object.\<close>

lemma patch_dom:
  "dom (stored (snd (cl_Patch kc ob base s))) = dom (stored s)"
  "dom (stored (snd (cl_StatusPatch kc ob base s))) = dom (stored s)"
  using Patch_outcome [of ob base s] StatusPatch_outcome [of ob base s]
  by (auto simp: write_outcome_def split: if_splits)

text \<open>A call that reports success took effect.\<close>

lemma Create_ok:
  assumes "fst (cl_Create kc ob s) = None"
  shows "stored s (key ob) = None" "stored (snd (cl_Create kc ob s)) = (stored s)(key ob \<mapsto> ob)"
  using Create_outcome [of ob s] assms by (auto simp: write_outcome_def)

lemma Patch_ok:
  assumes "fst (cl_Patch kc ob base s) = None"
  obtains cur where "stored s (key ob) = Some cur"
    "stored (snd (cl_Patch kc ob base s)) = (stored s)(key ob \<mapsto> merge base ob cur)"
  using Patch_outcome [of ob base s] assms that by (auto simp: write_outcome_def)

lemma StatusPatch_ok:
  assumes "fst (cl_StatusPatch kc ob base s) = None"
  obtains cur where "stored s (key ob) = Some cur"
    "stored (snd (cl_StatusPatch kc ob base s)) = (stored s)(key ob \<mapsto> smerge base ob cur)"
  using StatusPatch_outcome [of ob base s] assms that by (auto simp: write_outcome_def)

lemma Delete_ok:
  assumes "fst (cl_Delete kc ob s) = None"
  shows "stored (snd (cl_Delete kc ob s)) = (stored s)(key ob := None)"
  using Delete_outcome [of ob s] assms by (auto simp: write_outcome_def)

end

text \<open>A state that is \<open>up\<close>: reads find what is cached, and writes that can succeed do. This is the ideal
  of a server that admits every object; one that validates refuses some, and is \<open>validating_cluster\<close> in
  \<open>Name_Validity\<close>, where no state is \<open>up\<close>. Theorems that need \<open>up\<close> speak of objects a server would admit.\<close>

locale live_api_kind = api_kind +
  fixes up :: "'a \<Rightarrow> bool"
  assumes up_Get: "up s \<Longrightarrow> fst (cl_Get kc k s) =
      (case cached s k of None \<Rightarrow> Inl (ApiError ReasonNotFound) | Some ob \<Rightarrow> Inr ob)"
    and up_Create: "up s \<Longrightarrow> stored s (key ob) = None \<Longrightarrow> fst (cl_Create kc ob s) = None"
    and up_Patch: "up s \<Longrightarrow> stored s (key ob) \<noteq> None \<Longrightarrow> fst (cl_Patch kc ob base s) = None"
    and up_StatusPatch:
      "up s \<Longrightarrow> stored s (key ob) \<noteq> None \<Longrightarrow> fst (cl_StatusPatch kc ob base s) = None"
    and up_Delete: "up s \<Longrightarrow> stored s (key ob) \<noteq> None \<Longrightarrow> fst (cl_Delete kc ob s) = None"
    and up_after: "up s \<Longrightarrow> up (snd (cl_Get kc k s))" "up s \<Longrightarrow> up (snd (cl_Create kc ob s))"
      "up s \<Longrightarrow> up (snd (cl_Patch kc ob base s))" "up s \<Longrightarrow> up (snd (cl_StatusPatch kc ob base s))"
      "up s \<Longrightarrow> up (snd (cl_Delete kc ob s))"

end
