(* ===== verification/Merge_Patch.thy ===== *)
theory Merge_Patch
  imports Client
begin

text \<open>
  What \<open>Patch(ctx, obj, client.MergeFrom(base))\<close> does to the stored object: a JSON merge patch.
  The patch holds the differences between \<open>base\<close> and \<open>obj\<close>, so a field on which they agree
  keeps its stored value; a scalar or a list that differs is replaced whole; a map or a nested
  object is merged member by member. There is no optimistic lock: the stored object need not be
  \<open>base\<close>. A main patch leaves \<open>status\<close> alone, a status patch everything else.
  \<open>merge_self\<close> facts: patching the object the patch was made from gives the modified object.
\<close>

definition merge_field :: "'a \<Rightarrow> 'a \<Rightarrow> 'a \<Rightarrow> 'a" where
  "merge_field b m c = (if b = m then c else m)"

definition merge_map :: "strmap \<Rightarrow> strmap \<Rightarrow> strmap \<Rightarrow> strmap" where
  "merge_map b m c = (\<lambda>k. merge_field (b k) (m k) (c k))"

text \<open>A nested object behind a pointer: \<open>z\<close> is the object with no member.\<close>

definition merge_ptr :: "'a \<Rightarrow> ('a \<Rightarrow> 'a \<Rightarrow> 'a \<Rightarrow> 'a) \<Rightarrow> 'a option \<Rightarrow> 'a option \<Rightarrow> 'a option \<Rightarrow> 'a option" where
  "merge_ptr z f b m c =
     (if b = m then c
      else (case m of
              None \<Rightarrow> None
            | Some mo \<Rightarrow>
                Some (f (case b of None \<Rightarrow> z | Some bo \<Rightarrow> bo) mo (case c of None \<Rightarrow> z | Some co \<Rightarrow> co))))"

lemma merge_field_same [simp]: "merge_field b b c = c" "merge_field b m b = m" "merge_field b m m = m"
  by (simp_all add: merge_field_def)

lemma merge_map_same [simp]: "merge_map b b c = c" "merge_map b m b = m"
  by (simp_all add: merge_map_def)

lemma merge_ptr_same [simp]: "merge_ptr z f b b c = c"
  by (simp add: merge_ptr_def)

lemma merge_ptr_self: "(\<And>x y. f x y x = y) \<Longrightarrow> merge_ptr z f b m b = m"
  by (auto simp: merge_ptr_def split: option.split)

definition merge_client_ip ::
  "client_ip_config \<Rightarrow> client_ip_config \<Rightarrow> client_ip_config \<Rightarrow> client_ip_config" where
  "merge_client_ip b m c =
     \<lparr>cip_TimeoutSeconds =
        merge_field (cip_TimeoutSeconds b) (cip_TimeoutSeconds m) (cip_TimeoutSeconds c)\<rparr>"

definition merge_sac ::
  "session_affinity_config \<Rightarrow> session_affinity_config \<Rightarrow> session_affinity_config \<Rightarrow>
   session_affinity_config" where
  "merge_sac b m c =
     \<lparr>sac_ClientIP = merge_ptr \<lparr>cip_TimeoutSeconds = None\<rparr> merge_client_ip
        (sac_ClientIP b) (sac_ClientIP m) (sac_ClientIP c)\<rparr>"

definition merge_sac_ptr ::
  "session_affinity_config option \<Rightarrow> session_affinity_config option \<Rightarrow>
   session_affinity_config option \<Rightarrow> session_affinity_config option" where
  "merge_sac_ptr = merge_ptr \<lparr>sac_ClientIP = None\<rparr> merge_sac"

definition merge_meta :: "object_meta \<Rightarrow> object_meta \<Rightarrow> object_meta \<Rightarrow> object_meta" where
  "merge_meta b m c =
     \<lparr>om_Name = merge_field (om_Name b) (om_Name m) (om_Name c),
      om_Namespace = merge_field (om_Namespace b) (om_Namespace m) (om_Namespace c),
      om_UID = merge_field (om_UID b) (om_UID m) (om_UID c),
      om_DeletionTimestamp =
        merge_field (om_DeletionTimestamp b) (om_DeletionTimestamp m) (om_DeletionTimestamp c),
      om_Labels = merge_map (om_Labels b) (om_Labels m) (om_Labels c),
      om_Annotations =
        merge_ptr Map.empty merge_map (om_Annotations b) (om_Annotations m) (om_Annotations c),
      om_OwnerReferences =
        merge_field (om_OwnerReferences b) (om_OwnerReferences m) (om_OwnerReferences c)\<rparr>"

lemma merge_sac_self [simp]: "merge_sac b m b = m" "merge_sac_ptr p p c = c" "merge_sac_ptr p q p = q"
proof -
  have c: "merge_client_ip x y x = y" for x y by (simp add: merge_client_ip_def)
  then have s: "merge_sac x y x = y" for x y by (simp add: merge_sac_def merge_ptr_self)
  then show "merge_sac b m b = m" by simp
  from s show "merge_sac_ptr p q p = q" by (simp add: merge_sac_ptr_def merge_ptr_self)
qed (simp add: merge_sac_ptr_def)

lemma merge_meta_same [simp]: "merge_meta b b c = c" "merge_meta b m b = m"
  by (simp_all add: merge_meta_def merge_ptr_self)

lemma merge_meta_key:
  "om_key m = om_key c \<Longrightarrow> om_key (merge_meta b m c) = om_key c"
  by (simp add: merge_meta_def om_key_def merge_field_def)

section \<open>The four kinds\<close>

definition se_merge :: "service_export \<Rightarrow> service_export \<Rightarrow> service_export \<Rightarrow> service_export" where
  "se_merge b m c =
     \<lparr>se_meta = merge_meta (se_meta b) (se_meta m) (se_meta c),
      se_ExportedLabels = merge_ptr Map.empty merge_map
        (se_ExportedLabels b) (se_ExportedLabels m) (se_ExportedLabels c),
      se_ExportedAnnotations = merge_ptr Map.empty merge_map
        (se_ExportedAnnotations b) (se_ExportedAnnotations m) (se_ExportedAnnotations c),
      se_Conditions = se_Conditions c\<rparr>"

definition se_status_merge ::
  "service_export \<Rightarrow> service_export \<Rightarrow> service_export \<Rightarrow> service_export" where
  "se_status_merge b m c =
     c\<lparr>se_Conditions := merge_field (se_Conditions b) (se_Conditions m) (se_Conditions c)\<rparr>"

definition si_merge :: "service_import \<Rightarrow> service_import \<Rightarrow> service_import \<Rightarrow> service_import" where
  "si_merge b m c =
     \<lparr>si_meta = merge_meta (si_meta b) (si_meta m) (si_meta c),
      si_Ports = merge_field (si_Ports b) (si_Ports m) (si_Ports c),
      si_IPs = merge_field (si_IPs b) (si_IPs m) (si_IPs c),
      si_Type = merge_field (si_Type b) (si_Type m) (si_Type c),
      si_SessionAffinity =
        merge_field (si_SessionAffinity b) (si_SessionAffinity m) (si_SessionAffinity c),
      si_SessionAffinityConfig = merge_sac_ptr
        (si_SessionAffinityConfig b) (si_SessionAffinityConfig m) (si_SessionAffinityConfig c),
      si_IPFamilies = merge_field (si_IPFamilies b) (si_IPFamilies m) (si_IPFamilies c),
      si_InternalTrafficPolicy = merge_field
        (si_InternalTrafficPolicy b) (si_InternalTrafficPolicy m) (si_InternalTrafficPolicy c),
      si_TrafficDistribution = merge_field
        (si_TrafficDistribution b) (si_TrafficDistribution m) (si_TrafficDistribution c),
      si_Clusters = si_Clusters c, si_Conditions = si_Conditions c\<rparr>"

definition si_status_merge ::
  "service_import \<Rightarrow> service_import \<Rightarrow> service_import \<Rightarrow> service_import" where
  "si_status_merge b m c =
     c\<lparr>si_Clusters := merge_field (si_Clusters b) (si_Clusters m) (si_Clusters c),
       si_Conditions := merge_field (si_Conditions b) (si_Conditions m) (si_Conditions c)\<rparr>"

definition es_merge :: "endpoint_slice \<Rightarrow> endpoint_slice \<Rightarrow> endpoint_slice \<Rightarrow> endpoint_slice" where
  "es_merge b m c =
     \<lparr>es_meta = merge_meta (es_meta b) (es_meta m) (es_meta c),
      es_AddressType = merge_field (es_AddressType b) (es_AddressType m) (es_AddressType c),
      es_Endpoints = merge_field (es_Endpoints b) (es_Endpoints m) (es_Endpoints c),
      es_Ports = merge_field (es_Ports b) (es_Ports m) (es_Ports c)\<rparr>"

text \<open>The program never patches a Service, nor the status of an EndpointSlice, which has none.\<close>

definition svc_merge :: "service \<Rightarrow> service \<Rightarrow> service \<Rightarrow> service" where
  "svc_merge b m c = m"

definition es_status_merge ::
  "endpoint_slice \<Rightarrow> endpoint_slice \<Rightarrow> endpoint_slice \<Rightarrow> endpoint_slice" where
  "es_status_merge b m c = c"

lemma se_merge_self: "se_Conditions m = se_Conditions b \<Longrightarrow> se_merge b m b = m"
  by (simp add: se_merge_def merge_ptr_self)

lemma se_status_merge_self [simp]:
  "se_status_merge b (b\<lparr>se_Conditions := cs\<rparr>) b = b\<lparr>se_Conditions := cs\<rparr>"
  by (simp add: se_status_merge_def)

lemma si_merge_self:
  "si_Clusters m = si_Clusters b \<Longrightarrow> si_Conditions m = si_Conditions b \<Longrightarrow> si_merge b m b = m"
  by (simp add: si_merge_def)

lemma es_merge_self [simp]: "es_merge b m b = m"
  by (simp add: es_merge_def)

lemma merge_keys:
  "se_key m = se_key c \<Longrightarrow> se_key (se_merge b m c) = se_key c"
  "si_key n = si_key d \<Longrightarrow> si_key (si_merge e n d) = si_key d"
  "es_key x = es_key z \<Longrightarrow> es_key (es_merge y x z) = es_key z"
  by (simp_all add: se_key_def si_key_def es_key_def se_merge_def si_merge_def es_merge_def
      merge_meta_key)

lemma status_merge_keys [simp]:
  "se_key (se_status_merge b m c) = se_key c"
  "si_key (si_status_merge e n d) = si_key d"
  by (simp_all add: se_key_def si_key_def se_status_merge_def si_status_merge_def)

end
