(* ===== verification/Cluster_Api.thy ===== *)
theory Cluster_Api
  imports Merge_Patch
begin

text \<open>
  The local cluster behind one \<open>client.Client\<close>: the laws of \<open>Client\<close> for the four kinds of
  objects at once, over one state. A call on one kind leaves the other three alone.
  \<open>ex\<close>, \<open>sv\<close>, \<open>im\<close>, \<open>sl\<close> are the server's ServiceExports, Services, ServiceImports and
  EndpointSlices, the primed views what the cache holds.
  Every handler of the program is proved against this locale; \<open>Memory_Api\<close> interprets it.
\<close>

text \<open>Only one object of a kind may differ, and nothing of another kind.\<close>

definition only_at ::
  "('st \<Rightarrow> namespaced_name \<rightharpoonup> 'o) \<Rightarrow> ('st \<Rightarrow> 'x) \<Rightarrow> namespaced_name \<Rightarrow> 'st \<Rightarrow> 'st \<Rightarrow> bool" where
  "only_at view others nn s s' =
     ((\<forall>k. k \<noteq> nn \<longrightarrow> view s' k = view s k) \<and> others s' = others s)"

lemma only_at_trans:
  "only_at ex others nn s t \<Longrightarrow> only_at ex others nn t u \<Longrightarrow> only_at ex others nn s u"
  by (simp add: only_at_def)

text \<open>An operation that names one object, or none.\<close>

lemma only_at_target:
  assumes "\<And>nn. t = None \<or> t = Some nn \<Longrightarrow> only_at view others nn s s'"
  shows "others s' = others s \<and> (\<forall>k. Some k \<noteq> t \<longrightarrow> view s' k = view s k)"
proof (cases t)
  case None
  then have o: "only_at view others nn s s'" for nn using assms by simp
  have "view s' k = view s k" for k
  proof -
    obtain nn where "nn \<noteq> k" using other_name by blast
    then show ?thesis using o [of nn] by (simp add: only_at_def)
  qed
  then show ?thesis using o by (simp add: only_at_def)
next
  case (Some nn)
  then show ?thesis using assms [of nn] by (auto simp: only_at_def)
qed

locale cluster_api =
  exps: live_api_kind "cl_Exports c" ex ex' se_key se_merge se_status_merge
    "\<lambda>s. (sv s, sv' s, im s, im' s, sl s, sl' s)" up +
  svcs: live_api_kind "cl_Services c" sv sv' svc_key svc_merge svc_merge
    "\<lambda>s. (ex s, ex' s, im s, im' s, sl s, sl' s)" up +
  imps: live_api_kind "cl_Imports c" im im' si_key si_merge si_status_merge
    "\<lambda>s. (ex s, ex' s, sv s, sv' s, sl s, sl' s)" up +
  slcs: live_api_kind "cl_Slices c" sl sl' es_key es_merge es_status_merge
    "\<lambda>s. (ex s, ex' s, sv s, sv' s, im s, im' s)" up
  for c :: "'st client"
    and ex ex' :: "'st \<Rightarrow> namespaced_name \<rightharpoonup> service_export"
    and sv sv' :: "'st \<Rightarrow> namespaced_name \<rightharpoonup> service"
    and im im' :: "'st \<Rightarrow> namespaced_name \<rightharpoonup> service_import"
    and sl sl' :: "'st \<Rightarrow> namespaced_name \<rightharpoonup> endpoint_slice"
    and up :: "'st \<Rightarrow> bool"
begin

text \<open>What each call leaves unchanged, kind by kind.\<close>

lemma exports_frames:
  "sv (snd (cl_Get (cl_Exports c) k s)) = sv s" "im (snd (cl_Get (cl_Exports c) k s)) = im s"
  "sl (snd (cl_Get (cl_Exports c) k s)) = sl s" "sv' (snd (cl_Get (cl_Exports c) k s)) = sv' s"
  "sv (snd (cl_Patch (cl_Exports c) ob b s)) = sv s"
  "im (snd (cl_Patch (cl_Exports c) ob b s)) = im s"
  "sl (snd (cl_Patch (cl_Exports c) ob b s)) = sl s"
  "sv (snd (cl_StatusPatch (cl_Exports c) ob b s)) = sv s"
  "im (snd (cl_StatusPatch (cl_Exports c) ob b s)) = im s"
  "sl (snd (cl_StatusPatch (cl_Exports c) ob b s)) = sl s"
  using exps.Get_others [of k s] exps.Patch_others [of ob b s]
    exps.StatusPatch_others [of ob b s] by simp_all

lemma services_frames:
  "ex (snd (cl_Get (cl_Services c) k s)) = ex s" "ex' (snd (cl_Get (cl_Services c) k s)) = ex' s"
  "im (snd (cl_Get (cl_Services c) k s)) = im s" "sl (snd (cl_Get (cl_Services c) k s)) = sl s"
  using svcs.Get_others [of k s] by simp_all

lemma imports_frames:
  "ex (snd (cl_Get (cl_Imports c) k s)) = ex s" "sv (snd (cl_Get (cl_Imports c) k s)) = sv s"
  "sl (snd (cl_Get (cl_Imports c) k s)) = sl s"
  "ex (snd (cl_Create (cl_Imports c) ob s)) = ex s"
  "sv (snd (cl_Create (cl_Imports c) ob s)) = sv s"
  "sl (snd (cl_Create (cl_Imports c) ob s)) = sl s"
  "ex (snd (cl_Patch (cl_Imports c) ob b s)) = ex s"
  "sv (snd (cl_Patch (cl_Imports c) ob b s)) = sv s"
  "sl (snd (cl_Patch (cl_Imports c) ob b s)) = sl s"
  "ex (snd (cl_Delete (cl_Imports c) ob s)) = ex s"
  "sv (snd (cl_Delete (cl_Imports c) ob s)) = sv s"
  "sl (snd (cl_Delete (cl_Imports c) ob s)) = sl s"
  using imps.Get_others [of k s] imps.Create_others [of ob s] imps.Patch_others [of ob b s]
    imps.Delete_others [of ob s] by simp_all

lemma slices_frames:
  "ex (snd (cl_Get (cl_Slices c) k s)) = ex s" "sv (snd (cl_Get (cl_Slices c) k s)) = sv s"
  "im (snd (cl_Get (cl_Slices c) k s)) = im s"
  "ex (snd (cl_Create (cl_Slices c) ob s)) = ex s"
  "sv (snd (cl_Create (cl_Slices c) ob s)) = sv s"
  "im (snd (cl_Create (cl_Slices c) ob s)) = im s"
  "ex (snd (cl_Patch (cl_Slices c) ob b s)) = ex s"
  "sv (snd (cl_Patch (cl_Slices c) ob b s)) = sv s"
  "im (snd (cl_Patch (cl_Slices c) ob b s)) = im s"
  "ex (snd (cl_Delete (cl_Slices c) ob s)) = ex s"
  "sv (snd (cl_Delete (cl_Slices c) ob s)) = sv s"
  "im (snd (cl_Delete (cl_Slices c) ob s)) = im s"
  using slcs.Get_others [of k s] slcs.Create_others [of ob s] slcs.Patch_others [of ob b s]
    slcs.Delete_others [of ob s] by simp_all

lemmas cluster_frames = exports_frames services_frames imports_frames slices_frames

abbreviation rest_kinds :: "'st \<Rightarrow>
    (namespaced_name \<rightharpoonup> service) \<times> (namespaced_name \<rightharpoonup> service_import) \<times>
    (namespaced_name \<rightharpoonup> endpoint_slice)" where
  "rest_kinds s \<equiv> (sv s, im s, sl s)"

lemma only_at_Get:
  "only_at ex rest_kinds nn s (snd (cl_Get (cl_Exports c) nn s))"
  "only_at ex rest_kinds nn s (snd (cl_Get (cl_Services c) nn s))"
  by (simp_all add: only_at_def cluster_frames exps.call_frames svcs.call_frames)

lemma only_at_Patch:
  "se_key ob = nn \<Longrightarrow> only_at ex rest_kinds nn s (snd (cl_Patch (cl_Exports c) ob b s))"
  "se_key ob = nn \<Longrightarrow> only_at ex rest_kinds nn s (snd (cl_StatusPatch (cl_Exports c) ob b s))"
  using exps.write_frames by (simp_all add: only_at_def cluster_frames)

lemma cached_export_key: "ex' s nn = Some se \<Longrightarrow> se_key se = nn"
  by (rule exps.cached_key)

lemma Get_export_key: "fst (cl_Get (cl_Exports c) nn s) = Inr se \<Longrightarrow> se_key se = nn"
  using exps.Get_found exps.cached_key by blast

end

text \<open>The cache catches up between two events: \<open>settle\<close> is what the environment does meanwhile.\<close>

locale synced_cluster = cluster_api +
  fixes settle :: "'a \<Rightarrow> 'a"
  assumes settle_stored: "ex (settle s) = ex s" "sv (settle s) = sv s" "im (settle s) = im s"
      "sl (settle s) = sl s"
    and settle_cached: "ex' (settle s) = ex s" "sv' (settle s) = sv s" "im' (settle s) = im s"
      "sl' (settle s) = sl s"
    and settle_up: "up s \<Longrightarrow> up (settle s)"

end
