(* ===== verification/Memory_Api.thy ===== *)
theory Memory_Api
  imports Cluster_Api
begin

text \<open>
  A concrete API in memory, to instantiate the client with: the server's objects of each kind, the
  cache (a copy taken at some earlier time), and a script that says which of the next calls fail.
  It interprets the laws of \<open>Client\<close> for the four kinds, so every theorem about a handler that
  assumes them can be applied; the witnesses of the development run on it.
\<close>

record mem =
  m_Services :: "namespaced_name \<rightharpoonup> service"
  m_Exports :: "namespaced_name \<rightharpoonup> service_export"
  m_Imports :: "namespaced_name \<rightharpoonup> service_import"
  m_Slices :: "namespaced_name \<rightharpoonup> endpoint_slice"
  mc_Services :: "namespaced_name \<rightharpoonup> service"
  mc_Exports :: "namespaced_name \<rightharpoonup> service_export"
  mc_Imports :: "namespaced_name \<rightharpoonup> service_import"
  mc_Slices :: "namespaced_name \<rightharpoonup> endpoint_slice"
  m_script :: "string option list"

definition empty_mem :: mem where
  "empty_mem = \<lparr>m_Services = Map.empty, m_Exports = Map.empty, m_Imports = Map.empty,
     m_Slices = Map.empty, mc_Services = Map.empty, mc_Exports = Map.empty,
     mc_Imports = Map.empty, mc_Slices = Map.empty, m_script = []\<rparr>"

text \<open>The cache catches up with the server.\<close>

definition sync :: "mem \<Rightarrow> mem" where
  "sync s = s\<lparr>mc_Services := m_Services s, mc_Exports := m_Exports s, mc_Imports := m_Imports s,
     mc_Slices := m_Slices s\<rparr>"

text \<open>The next entry of the script; past its end every call goes through.\<close>

definition fault :: "mem \<Rightarrow> go_error option \<times> mem" where
  "fault s =
     (case m_script s of
        [] \<Rightarrow> (None, s)
      | f # fs \<Rightarrow>
          (map_option (\<lambda>e. ApiError (ReasonOther e)) f, s\<lparr>m_script := fs\<rparr>))"

text \<open>An object sits at its own key.\<close>

definition keyed :: "('o \<Rightarrow> namespaced_name) \<Rightarrow> (namespaced_name \<rightharpoonup> 'o) \<Rightarrow> (namespaced_name \<rightharpoonup> 'o)" where
  "keyed key m = (\<lambda>k. case m k of None \<Rightarrow> None | Some ob \<Rightarrow> if key ob = k then Some ob else None)"

lemma keyed_key: "keyed key m k = Some ob \<Longrightarrow> key ob = k"
  by (auto simp: keyed_def split: option.splits if_splits)

lemma keyed_upd [simp]: "key ob = k \<Longrightarrow> keyed key (m(k \<mapsto> ob)) = (keyed key m)(k \<mapsto> ob)"
  "keyed key (m(k := None)) = (keyed key m)(k := None)"
  "keyed key Map.empty = Map.empty"
  by (auto simp: keyed_def fun_eq_iff)

lemma keyed_id: "key ob = k \<Longrightarrow> keyed key [k \<mapsto> ob] = [k \<mapsto> ob]"
  by simp

definition write_call ::
  "('o \<Rightarrow> namespaced_name) \<Rightarrow> (mem \<Rightarrow> namespaced_name \<rightharpoonup> 'o) \<Rightarrow>
   ((namespaced_name \<rightharpoonup> 'o) \<Rightarrow> mem \<Rightarrow> mem) \<Rightarrow> namespaced_name \<Rightarrow>
   ('o option \<Rightarrow> go_error + 'o option) \<Rightarrow> mem \<Rightarrow> go_error option \<times> mem" where
  "write_call key view put k change s =
     (case fault s of
        (Some e, s') \<Rightarrow> (Some e, s')
      | (None, s') \<Rightarrow>
          (case change (keyed key (view s') k) of
             Inl e \<Rightarrow> (Some e, s')
           | Inr new \<Rightarrow> (None, put ((view s')(k := new)) s')))"

definition present :: "('o \<Rightarrow> 'o option) \<Rightarrow> 'o option \<Rightarrow> go_error + 'o option" where
  "present f cur =
     (case cur of None \<Rightarrow> Inl (ApiError ReasonNotFound) | Some ob \<Rightarrow> Inr (f ob))"

definition mem_kind ::
  "(mem \<Rightarrow> namespaced_name \<rightharpoonup> 'o) \<Rightarrow> ((namespaced_name \<rightharpoonup> 'o) \<Rightarrow> mem \<Rightarrow> mem) \<Rightarrow>
   (mem \<Rightarrow> namespaced_name \<rightharpoonup> 'o) \<Rightarrow> ('o \<Rightarrow> namespaced_name) \<Rightarrow> ('o \<Rightarrow> 'o \<Rightarrow> 'o \<Rightarrow> 'o) \<Rightarrow>
   ('o \<Rightarrow> 'o \<Rightarrow> 'o \<Rightarrow> 'o) \<Rightarrow> (mem, 'o) kind_client" where
  "mem_kind view put cache key merge smerge =
     \<lparr>cl_Get = (\<lambda>k s.
        (case fault s of
           (Some e, s') \<Rightarrow> (Inl e, s')
         | (None, s') \<Rightarrow>
             (case keyed key (cache s') k of
                None \<Rightarrow> (Inl (ApiError ReasonNotFound), s')
              | Some ob \<Rightarrow> (Inr ob, s')))),
      cl_Create = (\<lambda>ob. write_call key view put (key ob)
        (\<lambda>cur. case cur of None \<Rightarrow> Inr (Some ob) | Some _ \<Rightarrow> Inl (ApiError ReasonAlreadyExists))),
      cl_Patch = (\<lambda>ob base. write_call key view put (key ob) (present (\<lambda>cur. Some (merge base ob cur)))),
      cl_StatusPatch =
        (\<lambda>ob base. write_call key view put (key ob) (present (\<lambda>cur. Some (smerge base ob cur)))),
      cl_Delete = (\<lambda>ob. write_call key view put (key ob) (present (\<lambda>_. None)))\<rparr>"

definition m_up :: "mem \<Rightarrow> bool" where
  "m_up s = list_all (\<lambda>f. f = None) (m_script s)"

lemma fault_up: "m_up s \<Longrightarrow> fst (fault s) = None" "m_up s \<Longrightarrow> m_up (snd (fault s))"
  by (auto simp: m_up_def fault_def split: list.split)

section \<open>The laws, for any kind that is a field of the state\<close>

text \<open>\<open>view\<close>/\<open>put\<close> read and write the server's objects of one kind, \<open>cache\<close> the cached ones;
  \<open>rest\<close> is all the other kinds.\<close>

locale mem_lens =
  fixes view :: "mem \<Rightarrow> namespaced_name \<rightharpoonup> 'o"
    and put :: "(namespaced_name \<rightharpoonup> 'o) \<Rightarrow> mem \<Rightarrow> mem"
    and cache :: "mem \<Rightarrow> namespaced_name \<rightharpoonup> 'o"
    and rest :: "mem \<Rightarrow> 'x"
    and key :: "'o \<Rightarrow> namespaced_name"
    and merge :: "'o \<Rightarrow> 'o \<Rightarrow> 'o \<Rightarrow> 'o"
    and smerge :: "'o \<Rightarrow> 'o \<Rightarrow> 'o \<Rightarrow> 'o"
  assumes view_put: "view (put mp s) = mp"
    and cache_put: "cache (put mp s) = cache s"
    and rest_put: "rest (put mp s) = rest s"
    and script_put: "m_script (put mp s) = m_script s"
    and view_script: "view (s\<lparr>m_script := fs\<rparr>) = view s"
    and cache_script: "cache (s\<lparr>m_script := fs\<rparr>) = cache s"
    and rest_script: "rest (s\<lparr>m_script := fs\<rparr>) = rest s"
    and merge_key: "key ob = key cur \<Longrightarrow> key (merge bs ob cur) = key cur"
    and smerge_key: "key ob = key cur \<Longrightarrow> key (smerge bs ob cur) = key cur"
begin

abbreviation stored_view :: "mem \<Rightarrow> namespaced_name \<rightharpoonup> 'o" where
  "stored_view s \<equiv> keyed key (view s)"

lemma fault_frame:
  "view (snd (fault s)) = view s" "cache (snd (fault s)) = cache s" "rest (snd (fault s)) = rest s"
  by (auto simp: fault_def view_script cache_script rest_script split: list.split)

lemma write_call_cases:
  obtains e where "fst (write_call key view put k ch s) = Some e"
      "snd (write_call key view put k ch s) = snd (fault s)"
    | new where "ch (stored_view s k) = Inr new" "fst (write_call key view put k ch s) = None"
      "snd (write_call key view put k ch s) = put ((view s)(k := new)) (snd (fault s))"
proof (cases "fault s")
  case (Pair a s')
  with fault_frame(1) [of s] have v: "view s' = view s" by simp
  show ?thesis
  proof (cases a)
    case None
    show ?thesis
    proof (cases "ch (stored_view s k)")
      case (Inl e)
      with Pair None v show ?thesis by (intro that(1) [of e]) (simp_all add: write_call_def)
    next
      case (Inr new)
      with Pair None v show ?thesis by (intro that(2) [of new]) (simp_all add: write_call_def)
    qed
  next
    case (Some e)
    with Pair show ?thesis by (intro that(1) [of e]) (simp_all add: write_call_def)
  qed
qed

lemma write_call_frame:
  "cache (snd (write_call key view put k ch s)) = cache s"
  "rest (snd (write_call key view put k ch s)) = rest s"
  by (cases rule: write_call_cases [of k ch s]; simp add: fault_frame cache_put rest_put)+

lemma write_call_up: "m_up s \<Longrightarrow> m_up (snd (write_call key view put k ch s))"
  using fault_up(2) [of s]
  by (cases rule: write_call_cases [of k ch s]) (simp_all add: m_up_def script_put)

lemma write_call_succeeds:
  "m_up s \<Longrightarrow> ch (stored_view s k) = Inr new \<Longrightarrow> fst (write_call key view put k ch s) = None"
  using fault_frame(1) [of s] fault_up(1) [of s]
  by (cases "fault s") (simp add: write_call_def)

lemma write_call_outcome:
  assumes "\<And>new. ch (stored_view s k) = Inr new \<Longrightarrow>
      p \<and> new = v \<and> (\<forall>ob. new = Some ob \<longrightarrow> key ob = k)"
  shows "write_outcome (fst (write_call key view put k ch s)) (stored_view s)
     (stored_view (snd (write_call key view put k ch s))) k p v"
proof (cases rule: write_call_cases [of k ch s])
  case (2 new)
  with assms [OF 2(1)] show ?thesis
    by (cases new) (auto simp: write_outcome_def view_put)
qed (simp add: write_outcome_def fault_frame)

end

sublocale mem_lens \<subseteq> api_kind "mem_kind view put cache key merge smerge"
    "\<lambda>s. keyed key (view s)" "\<lambda>s. keyed key (cache s)" key merge smerge rest
proof (unfold_locales, goal_cases)
  case (5 k s ob)
  then show ?case using fault_frame [of s]
    by (cases "fault s") (auto simp: mem_kind_def split: option.splits)
next
  case (6 k s e)
  then show ?case using fault_frame [of s]
    by (cases "fault s")
       (auto simp: mem_kind_def fault_def split: option.splits list.splits)
next
  case (7 ob s)
  show ?case
    by (simp add: mem_kind_def) (rule write_call_outcome, auto split: option.splits)
next
  case (10 ob base s)
  show ?case
    by (simp add: mem_kind_def)
       (rule write_call_outcome, auto simp: present_def merge_key dest: keyed_key split: option.splits)
next
  case (13 ob base s)
  show ?case
    by (simp add: mem_kind_def)
       (rule write_call_outcome, auto simp: present_def smerge_key dest: keyed_key split: option.splits)
next
  case (16 ob s)
  show ?case
    by (simp add: mem_kind_def)
       (rule write_call_outcome, auto simp: present_def split: option.splits)
qed (auto simp: mem_kind_def write_call_frame keyed_key split_beta fault_frame split: option.split)

sublocale mem_lens \<subseteq> live: live_api_kind "mem_kind view put cache key merge smerge"
    "\<lambda>s. keyed key (view s)" "\<lambda>s. keyed key (cache s)" key merge smerge rest m_up
proof (unfold_locales, goal_cases)
  case (1 s k)
  then show ?case using fault_up(1) [of s] fault_frame [of s]
    by (cases "fault s") (simp add: mem_kind_def split: option.split)
next
  case (6 s k)
  then show ?case using fault_up(2) [of s]
    by (auto simp: mem_kind_def split_beta split: option.split)
qed (auto simp: mem_kind_def present_def write_call_up intro!: write_call_succeeds split: option.splits)

section \<open>The four kinds\<close>

definition mem_client :: "mem client" where
  "mem_client =
     \<lparr>cl_Services = mem_kind m_Services (\<lambda>m s. s\<lparr>m_Services := m\<rparr>) mc_Services svc_key
        svc_merge svc_merge,
      cl_Exports = mem_kind m_Exports (\<lambda>m s. s\<lparr>m_Exports := m\<rparr>) mc_Exports se_key
        se_merge se_status_merge,
      cl_Imports = mem_kind m_Imports (\<lambda>m s. s\<lparr>m_Imports := m\<rparr>) mc_Imports si_key
        si_merge si_status_merge,
      cl_Slices = mem_kind m_Slices (\<lambda>m s. s\<lparr>m_Slices := m\<rparr>) mc_Slices es_key
        es_merge es_status_merge\<rparr>"

interpretation mem_exports: mem_lens m_Exports "\<lambda>m s. s\<lparr>m_Exports := m\<rparr>" mc_Exports
  "\<lambda>s. (keyed svc_key (m_Services s), keyed svc_key (mc_Services s),
    keyed si_key (m_Imports s), keyed si_key (mc_Imports s),
    keyed es_key (m_Slices s), keyed es_key (mc_Slices s))" se_key se_merge se_status_merge
  by unfold_locales (auto simp: merge_keys)

interpretation mem_imports: mem_lens m_Imports "\<lambda>m s. s\<lparr>m_Imports := m\<rparr>" mc_Imports
  "\<lambda>s. (keyed se_key (m_Exports s), keyed se_key (mc_Exports s),
    keyed svc_key (m_Services s), keyed svc_key (mc_Services s),
    keyed es_key (m_Slices s), keyed es_key (mc_Slices s))" si_key si_merge si_status_merge
  by unfold_locales (auto simp: merge_keys)

interpretation mem_slices: mem_lens m_Slices "\<lambda>m s. s\<lparr>m_Slices := m\<rparr>" mc_Slices
  "\<lambda>s. (keyed se_key (m_Exports s), keyed se_key (mc_Exports s),
    keyed svc_key (m_Services s), keyed svc_key (mc_Services s),
    keyed si_key (m_Imports s), keyed si_key (mc_Imports s))" es_key es_merge es_status_merge
  by unfold_locales (auto simp: merge_keys es_status_merge_def)

interpretation mem_services: mem_lens m_Services "\<lambda>m s. s\<lparr>m_Services := m\<rparr>" mc_Services
  "\<lambda>s. (keyed se_key (m_Exports s), keyed se_key (mc_Exports s),
    keyed si_key (m_Imports s), keyed si_key (mc_Imports s),
    keyed es_key (m_Slices s), keyed es_key (mc_Slices s))" svc_key svc_merge svc_merge
  by unfold_locales (auto simp: svc_merge_def)

abbreviation v_Exports :: "mem \<Rightarrow> namespaced_name \<rightharpoonup> service_export" where
  "v_Exports s \<equiv> keyed se_key (m_Exports s)"
abbreviation vc_Exports :: "mem \<Rightarrow> namespaced_name \<rightharpoonup> service_export" where
  "vc_Exports s \<equiv> keyed se_key (mc_Exports s)"
abbreviation v_Services :: "mem \<Rightarrow> namespaced_name \<rightharpoonup> service" where
  "v_Services s \<equiv> keyed svc_key (m_Services s)"
abbreviation vc_Services :: "mem \<Rightarrow> namespaced_name \<rightharpoonup> service" where
  "vc_Services s \<equiv> keyed svc_key (mc_Services s)"
abbreviation v_Imports :: "mem \<Rightarrow> namespaced_name \<rightharpoonup> service_import" where
  "v_Imports s \<equiv> keyed si_key (m_Imports s)"
abbreviation vc_Imports :: "mem \<Rightarrow> namespaced_name \<rightharpoonup> service_import" where
  "vc_Imports s \<equiv> keyed si_key (mc_Imports s)"
abbreviation v_Slices :: "mem \<Rightarrow> namespaced_name \<rightharpoonup> endpoint_slice" where
  "v_Slices s \<equiv> keyed es_key (m_Slices s)"
abbreviation vc_Slices :: "mem \<Rightarrow> namespaced_name \<rightharpoonup> endpoint_slice" where
  "vc_Slices s \<equiv> keyed es_key (mc_Slices s)"

lemma mem_client_sel:
  "cl_Exports mem_client = mem_kind m_Exports (\<lambda>m s. s\<lparr>m_Exports := m\<rparr>) mc_Exports se_key
     se_merge se_status_merge"
  "cl_Services mem_client = mem_kind m_Services (\<lambda>m s. s\<lparr>m_Services := m\<rparr>) mc_Services svc_key
     svc_merge svc_merge"
  "cl_Imports mem_client = mem_kind m_Imports (\<lambda>m s. s\<lparr>m_Imports := m\<rparr>) mc_Imports si_key
     si_merge si_status_merge"
  "cl_Slices mem_client = mem_kind m_Slices (\<lambda>m s. s\<lparr>m_Slices := m\<rparr>) mc_Slices es_key
     es_merge es_status_merge"
  by (simp_all add: mem_client_def)

interpretation mem_cluster: cluster_api mem_client v_Exports vc_Exports v_Services vc_Services
  v_Imports vc_Imports v_Slices vc_Slices m_up
  unfolding cluster_api_def mem_client_sel
  using mem_exports.live.live_api_kind_axioms mem_services.live.live_api_kind_axioms
    mem_imports.live.live_api_kind_axioms mem_slices.live.live_api_kind_axioms
  by blast

text \<open>The interpretation as a fact, for the witnesses of theorems that assume the laws.\<close>

lemmas mem_cluster_api = mem_cluster.cluster_api_axioms

interpretation mem_synced: synced_cluster mem_client v_Exports vc_Exports v_Services vc_Services
  v_Imports vc_Imports v_Slices vc_Slices m_up sync
  by unfold_locales (simp_all add: sync_def m_up_def)

lemmas mem_synced_cluster = mem_synced.synced_cluster_axioms

end
