(* ===== verification/Common.thy ===== *)
theory Common
  imports Api_Types
begin

text \<open>
  \<open>pkg/controller/common.go\<close>: the annotation names, the conversion of a \<open>Service\<close> into the
  metadata an export carries, the two label tests on an \<open>EndpointSlice\<close>, and the keyed update
  of a condition list. \<open>localDerivedName\<close> is in \<open>Derived_Name\<close>.
  The condition list refines a map from condition types to conditions (\<open>cond_map\<close>).
\<close>

section \<open>Annotation names\<close>

definition AnnotationServicePorts :: string where
  "AnnotationServicePorts = ''service-reflector.squat.ai/service-ports''"
definition AnnotationServiceType :: string where
  "AnnotationServiceType = ''service-reflector.squat.ai/service-type''"
definition AnnotationSessionAffinity :: string where
  "AnnotationSessionAffinity = ''service-reflector.squat.ai/session-affinity''"
definition AnnotationSessionAffinityConfig :: string where
  "AnnotationSessionAffinityConfig = ''service-reflector.squat.ai/session-affinity-config''"
definition AnnotationIPFamilies :: string where
  "AnnotationIPFamilies = ''service-reflector.squat.ai/ip-families''"

lemmas annotation_defs = AnnotationServicePorts_def AnnotationServiceType_def
  AnnotationSessionAffinity_def AnnotationSessionAffinityConfig_def AnnotationIPFamilies_def

text \<open>The five keys are different: a write of one never shadows another.\<close>

lemma annotation_keys_distinct:
  "distinct [AnnotationServicePorts, AnnotationServiceType, AnnotationSessionAffinity,
     AnnotationSessionAffinityConfig, AnnotationIPFamilies]"
  by (simp add: annotation_defs)

lemma annotation_keys_neq [simp]:
  "AnnotationServicePorts \<noteq> AnnotationServiceType"
  "AnnotationServicePorts \<noteq> AnnotationSessionAffinity"
  "AnnotationServicePorts \<noteq> AnnotationSessionAffinityConfig"
  "AnnotationServicePorts \<noteq> AnnotationIPFamilies"
  "AnnotationServiceType \<noteq> AnnotationServicePorts"
  "AnnotationServiceType \<noteq> AnnotationSessionAffinity"
  "AnnotationServiceType \<noteq> AnnotationSessionAffinityConfig"
  "AnnotationServiceType \<noteq> AnnotationIPFamilies"
  "AnnotationSessionAffinity \<noteq> AnnotationServicePorts"
  "AnnotationSessionAffinity \<noteq> AnnotationServiceType"
  "AnnotationSessionAffinity \<noteq> AnnotationSessionAffinityConfig"
  "AnnotationSessionAffinity \<noteq> AnnotationIPFamilies"
  "AnnotationSessionAffinityConfig \<noteq> AnnotationServicePorts"
  "AnnotationSessionAffinityConfig \<noteq> AnnotationServiceType"
  "AnnotationSessionAffinityConfig \<noteq> AnnotationSessionAffinity"
  "AnnotationSessionAffinityConfig \<noteq> AnnotationIPFamilies"
  "AnnotationIPFamilies \<noteq> AnnotationServicePorts"
  "AnnotationIPFamilies \<noteq> AnnotationServiceType"
  "AnnotationIPFamilies \<noteq> AnnotationSessionAffinity"
  "AnnotationIPFamilies \<noteq> AnnotationSessionAffinityConfig"
  using annotation_keys_distinct by auto

section \<open>Service metadata\<close>

text \<open>\<open>make\<close> of the result slice makes it non-nil, also for a service with no ports.\<close>

definition localServicePort :: "service_port \<Rightarrow> mcs_port" where
  "localServicePort p = \<lparr>mp_Name = sp_Name p, mp_Protocol = sp_Protocol p,
     mp_AppProtocol = sp_AppProtocol p, mp_Port = sp_Port p\<rparr>"

definition localServicePorts :: "service \<Rightarrow> mcs_port slice" where
  "localServicePorts svc = Some (map localServicePort (elems (svc_Ports svc)))"

definition localServiceImportType :: "service \<Rightarrow> string" where
  "localServiceImportType svc =
     (if svc_ClusterIP svc = ClusterIPNone then Headless else ClusterSetIP)"

lemma localServiceImportType_not_empty [simp]: "localServiceImportType svc \<noteq> ''''"
  by (simp add: localServiceImportType_def api_const_defs)

section \<open>Labels of an EndpointSlice\<close>

definition localShouldIgnoreEndpointSlice :: "endpoint_slice \<Rightarrow> bool" where
  "localShouldIgnoreEndpointSlice es =
     (case om_Labels (es_meta es) LabelManagedBy of
        None \<Rightarrow> False
      | Some mgr \<Rightarrow> mgr = ''endpointslice-controller.k8s.io'')"

definition localServiceImportOwner :: "endpoint_slice \<Rightarrow> namespaced_name option" where
  "localServiceImportOwner es =
     (case om_Labels (es_meta es) LabelServiceName of
        None \<Rightarrow> None
      | Some svcName \<Rightarrow> Some (NamespacedName (om_Namespace (es_meta es)) svcName))"

section \<open>Conditions\<close>

text \<open>\<open>newCondition\<close>; \<open>now\<close> is the time \<open>metav1.Now()\<close> returns.\<close>

definition newCondition ::
  "nat \<Rightarrow> string \<Rightarrow> condition_status \<Rightarrow> string \<Rightarrow> string \<Rightarrow> condition" where
  "newCondition now t status reason message =
     \<lparr>c_Type = t, c_Status = status, c_ObservedGeneration = 0, c_LastTransitionTime = now,
      c_Reason = reason, c_Message = message\<rparr>"

lemma newCondition_sel [simp]:
  "c_Type (newCondition now t status reason message) = t"
  "c_Status (newCondition now t status reason message) = status"
  "c_Reason (newCondition now t status reason message) = reason"
  "c_Message (newCondition now t status reason message) = message"
  by (simp_all add: newCondition_def)

text \<open>The loop returns at the first condition of the type; past the end it appends.\<close>

fun setCondition :: "condition list \<Rightarrow> condition \<Rightarrow> condition list" where
  "setCondition [] c = [c]"
| "setCondition (existing # rest) c =
     (if c_Type existing = c_Type c then c # rest else existing # setCondition rest c)"

text \<open>What a reader of the list sees for a type: the first condition of that type.\<close>

fun cond_map :: "condition list \<Rightarrow> string \<rightharpoonup> condition" where
  "cond_map [] t = None"
| "cond_map (c # cs) t = (if c_Type c = t then Some c else cond_map cs t)"

definition conds_ok :: "condition list \<Rightarrow> bool" where
  "conds_ok cs = distinct (map c_Type cs)"

lemma set_types_setCondition:
  "set (map c_Type (setCondition cs c)) = insert (c_Type c) (set (map c_Type cs))"
  by (induction cs) auto

lemma conds_ok_setCondition [simp]: "conds_ok (setCondition cs c) = conds_ok cs"
  unfolding conds_ok_def
proof (induction cs)
  case (Cons x cs)
  show ?case using set_types_setCondition [of cs c] Cons.IH by auto
qed simp

lemma cond_map_setCondition [simp]: "cond_map (setCondition cs c) = (cond_map cs)(c_Type c \<mapsto> c)"
  by (induction cs) (auto simp: fun_eq_iff)

lemma length_setCondition:
  "length (setCondition cs c) =
     (if cond_map cs (c_Type c) = None then Suc (length cs) else length cs)"
  by (induction cs) auto

lemma setCondition_order:
  "map c_Type (setCondition cs c) =
     (if cond_map cs (c_Type c) = None then map c_Type cs @ [c_Type c] else map c_Type cs)"
  by (induction cs) auto

lemma setCondition_overwrite [simp]:
  "c_Type c = c_Type d \<Longrightarrow> setCondition (setCondition cs c) d = setCondition cs d"
  by (induction cs) auto

lemma cond_map_single:
  assumes "cond_map cs = [t \<mapsto> x]" "conds_ok cs"
  shows "cs = [x]"
proof (cases cs)
  case (Cons d ds)
  have d: "cond_map cs (c_Type d) = Some d" by (simp add: Cons)
  then have t: "c_Type d = t" "d = x" using assms(1) by (auto split: if_splits)
  have "ds = []"
  proof (cases ds)
    case (Cons e es)
    then have "c_Type e \<noteq> c_Type d" "cond_map cs (c_Type e) = Some e"
      using assms(2) \<open>cs = d # ds\<close> by (auto simp: conds_ok_def)
    then show ?thesis using assms(1) t by (simp split: if_splits)
  qed
  with Cons t show ?thesis by simp
qed (use assms(1) in \<open>auto dest: fun_cong [of _ _ t]\<close>)

lemma setCondition_commute_map:
  "c_Type c \<noteq> c_Type d \<Longrightarrow>
   cond_map (setCondition (setCondition cs c) d) = cond_map (setCondition (setCondition cs d) c)"
  by (auto simp: fun_eq_iff)

end
