(* ===== verification/Examples.thy ===== *)
theory Examples
  imports Memory_Api Common
begin

text \<open>
  Objects the witnesses of the development share: one Service, its export, an EndpointSlice, and
  API states that hold them, with a cache that is current or empty.
\<close>

definition web :: namespaced_name where "web = NamespacedName ''shop'' ''web''"

definition web_meta :: object_meta where
  "web_meta = empty_meta\<lparr>om_Name := ''web'', om_Namespace := ''shop'', om_UID := ''u1''\<rparr>"

definition web_service :: service where
  "web_service =
     \<lparr>svc_meta = web_meta,
      svc_Ports = Some [\<lparr>sp_Name = ''http'', sp_Protocol = ''TCP'', sp_AppProtocol = None,
        sp_Port = 80, sp_TargetPort = IntVal 8080, sp_NodePort = 0\<rparr>],
      svc_ClusterIP = ''10.0.0.7'', svc_ClusterIPs = Some [''10.0.0.7''],
      svc_SessionAffinity = ''None'', svc_SessionAffinityConfig = None,
      svc_IPFamilies = Some [''IPv4''], svc_Type = ''ClusterIP'', svc_LoadBalancer = []\<rparr>"

definition web_export :: service_export where
  "web_export = \<lparr>se_meta = web_meta, se_ExportedLabels = None, se_ExportedAnnotations = None,
     se_Conditions = []\<rparr>"

definition web_slice :: endpoint_slice where
  "web_slice =
     \<lparr>es_meta = empty_meta\<lparr>om_Name := ''web-x7'', om_Namespace := ''shop'',
        om_Labels := [LabelServiceName \<mapsto> ''web'', LabelManagedBy \<mapsto> ''custom'']\<rparr>,
      es_AddressType = ''IPv4'', es_Endpoints = Some [], es_Ports = None\<rparr>"

text \<open>The export with the annotations of a validated ClusterSetIP service.\<close>

definition with_annotations :: "strmap \<Rightarrow> service_export \<Rightarrow> service_export" where
  "with_annotations a se = se\<lparr>se_meta := (se_meta se)\<lparr>om_Annotations := Some a\<rparr>\<rparr>"

definition mem_with :: "service option \<Rightarrow> service_export option \<Rightarrow> mem" where
  "mem_with svc se = sync (empty_mem\<lparr>m_Services := (\<lambda>k. if k = web then svc else None),
     m_Exports := (\<lambda>k. if k = web then se else None)\<rparr>)"

lemma mem_with_facts [simp]:
  "m_up (mem_with svc se)" "m_up empty_mem"
  "vc_Exports (mem_with svc se) = v_Exports (mem_with svc se)"
  "vc_Services (mem_with svc se) = v_Services (mem_with svc se)"
  "vc_Imports (mem_with svc se) = v_Imports (mem_with svc se)"
  "vc_Slices (mem_with svc se) = v_Slices (mem_with svc se)"
  "v_Imports (mem_with svc se) = Map.empty" "v_Slices (mem_with svc se) = Map.empty"
  "vc_Exports empty_mem = v_Exports empty_mem" "vc_Imports empty_mem = v_Imports empty_mem"
  "vc_Slices empty_mem = v_Slices empty_mem"
  by (simp_all add: mem_with_def sync_def empty_mem_def m_up_def)

lemma web_ports:
  "localServicePorts web_service =
     Some [\<lparr>mp_Name = ''http'', mp_Protocol = ''TCP'', mp_AppProtocol = None, mp_Port = 80\<rparr>]"
  by (simp add: localServicePorts_def localServicePort_def web_service_def)

lemma web_export_sel [simp]:
  "se_Conditions web_export = []" "om_Annotations (se_meta web_export) = None"
  by (simp_all add: web_export_def web_meta_def empty_meta_def)

lemma web_keys [simp]:
  "se_key web_export = web" "svc_key web_service = web" "se_key (with_annotations a web_export) = web"
  by (simp_all add: web_export_def web_service_def web_meta_def se_key_def svc_key_def om_key_def
      web_def with_annotations_def empty_meta_def)

lemma mem_with_at [simp]:
  "v_Exports (mem_with svc (Some web_export)) web = Some web_export"
  "v_Services (mem_with (Some web_service) se) web = Some web_service"
  "v_Services (mem_with None se) web = None"
  by (simp_all add: mem_with_def sync_def keyed_def empty_mem_def)

end
