(* ===== verification/Validator.thy ===== *)
theory Validator
  imports Codec Examples
begin

text \<open>
  \<open>pkg/controller/serviceexport_validator.go\<close>: \<open>ServiceExportValidator.Reconcile\<close> (\<open>vReconcile\<close>)
  and \<open>setInvalid\<close>. The client is an argument; the result is the error returned, if any, and the
  state after the calls. \<open>json.Marshal\<close> does not fail on the three types it is applied to, so the
  branches for its errors have no counterpart.
  The lemmas, inside \<open>cluster_api\<close>: whatever the cache holds and whichever calls fail, only the
  export named by the request can change; with a current cache and calls that succeed, the export
  ends with the Service's metadata in its annotations and Valid=True, or Valid=False without one.
\<close>

section \<open>The metadata written\<close>

text \<open>A nil annotations map is replaced by an empty one before the writes.\<close>

definition ann_map :: "object_meta \<Rightarrow> strmap" where
  "ann_map m = (case om_Annotations m of None \<Rightarrow> Map.empty | Some a \<Rightarrow> a)"

definition writeAnnotations :: "service \<Rightarrow> strmap \<Rightarrow> strmap" where
  "writeAnnotations svc a =
     (let a1 = a(AnnotationServicePorts \<mapsto> print_json (enc_slice enc_mcs_port (localServicePorts svc)));
          a2 = a1(AnnotationServiceType \<mapsto> localServiceImportType svc);
          a3 = a2(AnnotationSessionAffinity \<mapsto> svc_SessionAffinity svc);
          a4 = (case svc_SessionAffinityConfig svc of
                  Some sac \<Rightarrow> a3(AnnotationSessionAffinityConfig \<mapsto> print_json (enc_sac sac))
                | None \<Rightarrow> a3(AnnotationSessionAffinityConfig := None))
      in a4(AnnotationIPFamilies \<mapsto> print_json (enc_slice JStr (svc_IPFamilies svc))))"

definition annotate :: "service \<Rightarrow> service_export \<Rightarrow> service_export" where
  "annotate svc se =
     se\<lparr>se_meta := (se_meta se)\<lparr>om_Annotations :=
          Some (writeAnnotations svc (ann_map (se_meta se)))\<rparr>\<rparr>"

definition set_se_condition :: "condition \<Rightarrow> service_export \<Rightarrow> service_export" where
  "set_se_condition cond se = se\<lparr>se_Conditions := setCondition (se_Conditions se) cond\<rparr>"

section \<open>The reconciler\<close>

definition setInvalid ::
  "nat \<Rightarrow> 'st client \<Rightarrow> service_export \<Rightarrow> string \<Rightarrow> string \<Rightarrow> 'st \<Rightarrow> go_error option \<times> 'st" where
  "setInvalid now c se reason msg s =
     (let patch = set_se_condition
            (newCondition now ServiceExportConditionValid ConditionFalse reason msg) se
      in (case cl_StatusPatch (cl_Exports c) patch se s of
            (Some err, s1) \<Rightarrow>
              (if isNotFound err then (None, s1)
               else (Some (Wrapf ''patching ServiceExport status'' err), s1))
          | (None, s1) \<Rightarrow> (None, s1)))"

definition noServiceMessage :: "namespaced_name \<Rightarrow> string" where
  "noServiceMessage nn = ''service '' @ fmt_q (nn_String nn) @ '' not found''"

definition validCondition :: "nat \<Rightarrow> namespaced_name \<Rightarrow> condition" where
  "validCondition now nn =
     newCondition now ServiceExportConditionValid ConditionTrue ServiceExportReasonValid
       (''service '' @ fmt_q (nn_String nn) @ '' found and exported'')"

definition vReconcile ::
  "nat \<Rightarrow> 'st client \<Rightarrow> namespaced_name \<Rightarrow> 'st \<Rightarrow> go_error option \<times> 'st" where
  "vReconcile now c nn s =
     (case cl_Get (cl_Exports c) nn s of
        (Inl err, s1) \<Rightarrow>
          (if isNotFound err then (None, s1)
           else (Some (Wrapf ''getting ServiceExport'' err), s1))
      | (Inr se, s1) \<Rightarrow>
          (case cl_Get (cl_Services c) nn s1 of
             (Inl err, s2) \<Rightarrow>
               (if isNotFound err
                then setInvalid now c se ServiceExportReasonNoService (noServiceMessage nn) s2
                else (Some (Wrapf ''getting Service'' err), s2))
           | (Inr svc, s2) \<Rightarrow>
               (case cl_Patch (cl_Exports c) (annotate svc se) se s2 of
                  (Some err, s3) \<Rightarrow> (Some (Wrapf ''patching ServiceExport annotations'' err), s3)
                | (None, s3) \<Rightarrow>
                    (case cl_StatusPatch (cl_Exports c)
                            (set_se_condition (validCondition now nn) se) se s3 of
                       (Some err, s4) \<Rightarrow>
                         (if isNotFound err then (None, s4)
                          else (Some (Wrapf ''patching ServiceExport status'' err), s4))
                     | (None, s4) \<Rightarrow> (None, s4)))))"

section \<open>What the writes are\<close>

lemma annotate_key [simp]: "se_key (annotate svc se) = se_key se"
  by (simp add: annotate_def se_key_def om_key_def)

lemma set_se_condition_key [simp]: "se_key (set_se_condition cond se) = se_key se"
  by (simp add: set_se_condition_def se_key_def)

lemma writeAnnotations_frame:
  "k \<notin> {AnnotationServicePorts, AnnotationServiceType, AnnotationSessionAffinity,
     AnnotationSessionAffinityConfig, AnnotationIPFamilies} \<Longrightarrow> writeAnnotations svc a k = a k"
  by (auto simp: writeAnnotations_def Let_def split: option.split)

lemma writeAnnotations_idem [simp]:
  "writeAnnotations svc (writeAnnotations svc' a) = writeAnnotations svc a"
  by (auto simp: writeAnnotations_def Let_def fun_eq_iff split: option.split)

lemma writeAnnotations_at [simp]:
  "writeAnnotations svc a AnnotationServicePorts =
     Some (print_json (enc_slice enc_mcs_port (localServicePorts svc)))"
  "writeAnnotations svc a AnnotationServiceType = Some (localServiceImportType svc)"
  "writeAnnotations svc a AnnotationSessionAffinity = Some (svc_SessionAffinity svc)"
  "writeAnnotations svc a AnnotationSessionAffinityConfig =
     map_option (\<lambda>sac. print_json (enc_sac sac)) (svc_SessionAffinityConfig svc)"
  "writeAnnotations svc a AnnotationIPFamilies =
     Some (print_json (enc_slice JStr (svc_IPFamilies svc)))"
  by (auto simp: writeAnnotations_def Let_def split: option.split)

lemma se_merge_annotate [simp]: "se_merge se (annotate svc se) se = annotate svc se"
  by (rule se_merge_self) (simp add: annotate_def)

lemma se_status_merge_set [simp]:
  "se_Conditions cur = se_Conditions se \<Longrightarrow>
   se_status_merge se (set_se_condition cond se) cur = set_se_condition cond cur"
  by (simp add: set_se_condition_def se_status_merge_def)

lemma annotate_conditions [simp]: "se_Conditions (annotate svc se) = se_Conditions se"
  by (simp add: annotate_def)

section \<open>Behaviour under the laws of the API\<close>

context cluster_api
begin

lemma setInvalid_only:
  assumes "se_key se = nn"
  shows "only_at ex rest_kinds nn s (snd (setInvalid now c se reason msg s))"
  using only_at_Patch(2) [of "set_se_condition
      (newCondition now ServiceExportConditionValid ConditionFalse reason msg) se" nn s se] assms
  by (auto simp: setInvalid_def Let_def split: prod.split option.split)

lemma vReconcile_only: "only_at ex rest_kinds nn s (snd (vReconcile now c nn s))"
proof -
  define s1 where "s1 = snd (cl_Get (cl_Exports c) nn s)"
  define s2 where "s2 = snd (cl_Get (cl_Services c) nn s1)"
  have o1: "only_at ex rest_kinds nn s s1"
    unfolding s1_def by (rule only_at_Get)
  have o2: "only_at ex rest_kinds nn s s2"
    unfolding s2_def by (rule only_at_trans [OF o1 only_at_Get(2)])
  show ?thesis
  proof (cases "fst (cl_Get (cl_Exports c) nn s)")
    case (Inr se)
    then have k: "se_key se = nn" by (rule Get_export_key)
    have o3: "only_at ex rest_kinds nn s (snd (cl_Patch (cl_Exports c) (annotate svc se) se s2))"
      for svc by (rule only_at_trans [OF o2 only_at_Patch(1)]) (simp add: k)
    have o4: "only_at ex rest_kinds nn s (snd (cl_StatusPatch (cl_Exports c)
        (set_se_condition (validCondition now nn) se) se
        (snd (cl_Patch (cl_Exports c) (annotate svc se) se s2))))" for svc
      by (rule only_at_trans [OF o3 only_at_Patch(2)]) (simp add: k)
    show ?thesis
      using Inr o2 o3 o4 only_at_trans [OF o2 setInvalid_only [OF k]]
      by (auto simp: vReconcile_def split_beta s1_def [symmetric] s2_def [symmetric]
          split: sum.split option.split)
  qed (use o1 in \<open>auto simp: vReconcile_def split_beta s1_def [symmetric]\<close>)
qed

lemma vReconcile_dom: "dom (ex (snd (vReconcile now c nn s))) = dom (ex s)"
  by (auto simp: vReconcile_def setInvalid_def Let_def split_beta exps.patch_dom exps.call_frames
      cluster_frames split: sum.split option.split)

text \<open>With a cache that is current for the two objects, and every call going through.\<close>

lemma vReconcile_valid:
  assumes up: "up s" and cur: "ex' s nn = ex s nn"
    and se: "ex s nn = Some se" and svc: "sv' s nn = Some svc"
  shows "fst (vReconcile now c nn s) = None"
    and "ex (snd (vReconcile now c nn s)) nn =
       Some (set_se_condition (validCondition now nn) (annotate svc se))"
proof -
  define s1 where "s1 = snd (cl_Get (cl_Exports c) nn s)"
  define s2 where "s2 = snd (cl_Get (cl_Services c) nn s1)"
  define s3 where "s3 = snd (cl_Patch (cl_Exports c) (annotate svc se) se s2)"
  have k: "se_key se = nn" using exps.cached_key [of s nn se] cur se by simp
  have g1: "fst (cl_Get (cl_Exports c) nn s) = Inr se" using exps.up_Get [OF up] cur se by simp
  have s1: "up s1" "ex s1 = ex s" "sv' s1 = sv' s"
    unfolding s1_def using exps.up_after(1) [OF up] exps.call_frames cluster_frames by auto
  have g2: "fst (cl_Get (cl_Services c) nn s1) = Inr svc"
    using svcs.up_Get [OF s1(1)] s1(3) svc by simp
  have s2: "up s2" "ex s2 = ex s"
    unfolding s2_def using svcs.up_after(1) [OF s1(1)] s1(2) cluster_frames by auto
  have p3: "fst (cl_Patch (cl_Exports c) (annotate svc se) se s2) = None"
    by (rule exps.up_Patch) (simp_all add: s2 k se)
  then have e3: "ex s3 = (ex s)(nn \<mapsto> annotate svc se)"
    using exps.Patch_ok [OF p3] s2(2) se k unfolding s3_def by fastforce
  have u3: "up s3" unfolding s3_def using exps.up_after(3) [OF s2(1)] .
  have p4: "fst (cl_StatusPatch (cl_Exports c) (set_se_condition (validCondition now nn) se) se s3) =
      None" by (rule exps.up_StatusPatch) (simp_all add: u3 k e3)
  then have e4: "ex (snd (cl_StatusPatch (cl_Exports c)
      (set_se_condition (validCondition now nn) se) se s3)) nn =
      Some (set_se_condition (validCondition now nn) (annotate svc se))"
    using exps.StatusPatch_ok [OF p4] e3 k by fastforce
  show "fst (vReconcile now c nn s) = None"
    using g1 g2 p3 p4
    by (simp add: vReconcile_def split_beta s1_def [symmetric] s2_def [symmetric] s3_def [symmetric])
  show "ex (snd (vReconcile now c nn s)) nn =
      Some (set_se_condition (validCondition now nn) (annotate svc se))"
    using g1 g2 p3 p4 e4
    by (simp add: vReconcile_def split_beta s1_def [symmetric] s2_def [symmetric] s3_def [symmetric])
qed

lemma vReconcile_no_service:
  assumes up: "up s" and cur: "ex' s nn = ex s nn"
    and se: "ex s nn = Some se" and svc: "sv' s nn = None"
  shows "fst (vReconcile now c nn s) = None"
    and "ex (snd (vReconcile now c nn s)) nn =
       Some (set_se_condition (newCondition now ServiceExportConditionValid ConditionFalse
         ServiceExportReasonNoService (noServiceMessage nn)) se)"
proof -
  let ?inv = "set_se_condition (newCondition now ServiceExportConditionValid ConditionFalse
         ServiceExportReasonNoService (noServiceMessage nn)) se"
  define s1 where "s1 = snd (cl_Get (cl_Exports c) nn s)"
  define s2 where "s2 = snd (cl_Get (cl_Services c) nn s1)"
  have k: "se_key se = nn" using exps.cached_key [of s nn se] cur se by simp
  have g1: "fst (cl_Get (cl_Exports c) nn s) = Inr se" using exps.up_Get [OF up] cur se by simp
  have s1: "up s1" "ex s1 = ex s" "sv' s1 = sv' s"
    unfolding s1_def using exps.up_after(1) [OF up] exps.call_frames cluster_frames by auto
  have g2: "fst (cl_Get (cl_Services c) nn s1) = Inl (ApiError ReasonNotFound)"
    using svcs.up_Get [OF s1(1)] s1(3) svc by simp
  have s2: "up s2" "ex s2 = ex s"
    unfolding s2_def using svcs.up_after(1) [OF s1(1)] s1(2) cluster_frames by auto
  have p3: "fst (cl_StatusPatch (cl_Exports c) ?inv se s2) = None"
    by (rule exps.up_StatusPatch) (simp_all add: s2 k se)
  then have e3: "ex (snd (cl_StatusPatch (cl_Exports c) ?inv se s2)) nn = Some ?inv"
    using exps.StatusPatch_ok [OF p3] s2(2) se k by fastforce
  show "fst (vReconcile now c nn s) = None" and "ex (snd (vReconcile now c nn s)) nn = Some ?inv"
    using g1 g2 p3 e3
    by (simp_all add: vReconcile_def setInvalid_def split_beta s1_def [symmetric] s2_def [symmetric])
qed

text \<open>An absent export is no error and no change; any other error of a read is returned, and
  nothing is written.\<close>

lemma vReconcile_read_error:
  assumes "fst (cl_Get (cl_Exports c) nn s) = Inl e"
  shows "fst (vReconcile now c nn s) =
       (if isNotFound e then None else Some (Wrapf ''getting ServiceExport'' e))"
    and "ex (snd (vReconcile now c nn s)) = ex s"
  using assms by (simp_all add: vReconcile_def split_beta exps.call_frames)

lemma vReconcile_svc_error:
  assumes "fst (cl_Get (cl_Exports c) nn s) = Inr se"
    and "fst (cl_Get (cl_Services c) nn (snd (cl_Get (cl_Exports c) nn s))) = Inl e" "\<not> isNotFound e"
  shows "ex (snd (vReconcile now c nn s)) = ex s"
  using assms by (simp add: vReconcile_def split_beta exps.call_frames cluster_frames)

end

section \<open>Properties\<close>

text \<open>C18. With both caches current for the request and an API that answers, one \<open>Reconcile\<close> of an
  export whose Service exists returns no error and leaves the export with the Service's ports, type,
  session affinity, its configuration (deleted when the Service has none) and IP families in its
  annotations, every other annotation and every condition of another type as it was, and the
  condition Valid=True with reason Valid and a message that names the Service. Nothing else changes: no
  other field of the export, no other export and no object of another kind.\<close>

theorem vReconcile_publishes:
  assumes api: "cluster_api c ex ex' sv sv' im im' sl sl' up"
    and up: "up s" and cur: "ex' s nn = ex s nn"
    and se: "ex s nn = Some se" and svc: "sv' s nn = Some svc"
    and s1: "s1 = snd (vReconcile now c nn s)"
  shows "fst (vReconcile now c nn s) = None \<and> sv s1 = sv s \<and> im s1 = im s \<and> sl s1 = sl s \<and>
    (\<exists>a cs. ex s1 = (ex s)(nn \<mapsto>
         se\<lparr>se_meta := (se_meta se)\<lparr>om_Annotations := Some a\<rparr>, se_Conditions := cs\<rparr>) \<and>
       a AnnotationServicePorts = Some (print_json (enc_slice enc_mcs_port (localServicePorts svc))) \<and>
       a AnnotationServiceType = Some (localServiceImportType svc) \<and>
       a AnnotationSessionAffinity = Some (svc_SessionAffinity svc) \<and>
       a AnnotationSessionAffinityConfig =
         map_option (\<lambda>sac. print_json (enc_sac sac)) (svc_SessionAffinityConfig svc) \<and>
       a AnnotationIPFamilies = Some (print_json (enc_slice JStr (svc_IPFamilies svc))) \<and>
       (\<forall>k. k \<notin> {AnnotationServicePorts, AnnotationServiceType, AnnotationSessionAffinity,
                 AnnotationSessionAffinityConfig, AnnotationIPFamilies} \<longrightarrow>
          a k = Option.bind (om_Annotations (se_meta se)) (\<lambda>b. b k)) \<and>
       (\<forall>t. cond_map cs t =
          (if t = ServiceExportConditionValid then Some (validCondition now nn)
           else cond_map (se_Conditions se) t)) \<and>
       (conds_ok (se_Conditions se) \<longrightarrow> conds_ok cs))"
proof -
  let ?a = "writeAnnotations svc (ann_map (se_meta se))"
  let ?cs = "setCondition (se_Conditions se) (validCondition now nn)"
  let ?se1 = "se\<lparr>se_meta := (se_meta se)\<lparr>om_Annotations := Some ?a\<rparr>, se_Conditions := ?cs\<rparr>"
  note v = cluster_api.vReconcile_valid [OF api up cur se svc, of now]
  have only: "\<And>k. k \<noteq> nn \<Longrightarrow> ex s1 k = ex s k" "sv s1 = sv s" "im s1 = im s" "sl s1 = sl s"
    using cluster_api.vReconcile_only [OF api, of nn s now] by (simp_all add: only_at_def s1)
  have "set_se_condition (validCondition now nn) (annotate svc se) = ?se1"
    by (simp add: set_se_condition_def annotate_def)
  then have ex: "ex s1 = (ex s)(nn \<mapsto> ?se1)" using v(2) only(1) by (auto simp: s1 fun_eq_iff)
  have f: "?a k = Option.bind (om_Annotations (se_meta se)) (\<lambda>b. b k)"
    if "k \<notin> {AnnotationServicePorts, AnnotationServiceType, AnnotationSessionAffinity,
                 AnnotationSessionAffinityConfig, AnnotationIPFamilies}" for k
    using writeAnnotations_frame [OF that] by (simp add: ann_map_def split: option.split)
  have cs: "cond_map ?cs t = (if t = ServiceExportConditionValid then Some (validCondition now nn)
       else cond_map (se_Conditions se) t)" for t
    by (simp add: validCondition_def)
  show ?thesis
    by (intro conjI, rule v(1), rule only(2), rule only(3), rule only(4), rule exI [of _ ?a], rule exI [of _ ?cs])
       (simp add: ex f cs del: cond_map_setCondition)
qed

theorem vReconcile_publishes_witness:
  "\<exists>a cs. v_Exports (snd (vReconcile 7 mem_client web (mem_with (Some web_service) (Some web_export)))) =
     [web \<mapsto> web_export\<lparr>se_meta := (se_meta web_export)\<lparr>om_Annotations := Some a\<rparr>, se_Conditions := cs\<rparr>] \<and>
   a AnnotationServiceType = Some (localServiceImportType web_service)"
proof -
  have "v_Exports (mem_with (Some web_service) (Some web_export)) = [web \<mapsto> web_export]"
    by (auto simp: mem_with_def sync_def keyed_def fun_eq_iff)
  then show ?thesis
    using vReconcile_publishes [OF mem_cluster_api _ _ _ _ refl, of "mem_with (Some web_service) (Some web_export)"
        web web_export web_service 7]
    by fastforce
qed

text \<open>With both caches current and an API that answers, an export without a Service gets
  Valid=False with reason NoService and the message of the code, and nothing else of it changes:
  the annotations of an earlier validation stay.\<close>

theorem vReconcile_reports_missing:
  assumes api: "cluster_api c ex ex' sv sv' im im' sl sl' up"
    and up: "up s" and cur: "ex' s nn = ex s nn"
    and se: "ex s nn = Some se" and svc: "sv' s nn = None"
  shows "fst (vReconcile now c nn s) = None \<and>
    ex (snd (vReconcile now c nn s)) nn =
      Some (se\<lparr>se_Conditions := setCondition (se_Conditions se)
        (newCondition now ServiceExportConditionValid ConditionFalse ServiceExportReasonNoService
          (''service '' @ fmt_q (nn_String nn) @ '' not found''))\<rparr>)"
  using cluster_api.vReconcile_no_service [OF api up cur se svc]
  by (simp add: set_se_condition_def noServiceMessage_def)

theorem vReconcile_reports_missing_witness:
  "map_option (\<lambda>se. map c_Status (se_Conditions se))
     (v_Exports (snd (vReconcile 7 mem_client web (mem_with None (Some web_export)))) web) =
   Some [ConditionFalse]"
  using vReconcile_reports_missing [OF mem_cluster_api, of "mem_with None (Some web_export)" web web_export 7]
  by simp

text \<open>Whatever the caches hold and whichever calls fail, one \<open>Reconcile\<close> of the validator changes
  at most the export named by the request: it creates and deletes no export, changes no other export,
  no Service, no ServiceImport and no EndpointSlice.\<close>

theorem vReconcile_touches_one:
  assumes "cluster_api c ex ex' sv sv' im im' sl sl' up"
  shows "(\<forall>k. k \<noteq> nn \<longrightarrow> ex (snd (vReconcile now c nn s)) k = ex s k) \<and>
    dom (ex (snd (vReconcile now c nn s))) = dom (ex s) \<and>
    sv (snd (vReconcile now c nn s)) = sv s \<and> im (snd (vReconcile now c nn s)) = im s \<and>
    sl (snd (vReconcile now c nn s)) = sl s"
  using cluster_api.vReconcile_only [OF assms, of nn s now] cluster_api.vReconcile_dom [OF assms]
  by (simp add: only_at_def)

theorem vReconcile_touches_one_witness:
  "dom (v_Exports (snd (vReconcile 7 mem_client web (mem_with (Some web_service) None)))) = {}"
  using vReconcile_touches_one [OF mem_cluster_api, of web 7 "mem_with (Some web_service) None"]
  by (simp add: mem_with_def sync_def keyed_def)

text \<open>C40. Errors of the validator: a failed read of the export is returned wrapped, and an absent one
  is no error; neither writes anything. A failed read of the Service is returned wrapped and writes
  nothing, so a transient failure never marks an export invalid. When the annotation patch fails its
  error is returned and the status is not touched: the state is the one that patch left.\<close>

theorem vReconcile_errors:
  assumes "cluster_api c ex ex' sv sv' im im' sl sl' up"
    and g: "g = cl_Get (cl_Exports c) nn s" and h: "h = cl_Get (cl_Services c) nn (snd g)"
  shows "(\<forall>e. fst g = Inl e \<longrightarrow>
       fst (vReconcile now c nn s) = (if isNotFound e then None else Some (Wrapf ''getting ServiceExport'' e)) \<and>
       ex (snd (vReconcile now c nn s)) = ex s) \<and>
    (\<forall>se e. fst g = Inr se \<and> fst h = Inl e \<and> \<not> isNotFound e \<longrightarrow>
       fst (vReconcile now c nn s) = Some (Wrapf ''getting Service'' e) \<and>
       ex (snd (vReconcile now c nn s)) = ex s) \<and>
    (\<forall>se svc e. fst g = Inr se \<and> fst h = Inr svc \<and>
         fst (cl_Patch (cl_Exports c) (annotate svc se) se (snd h)) = Some e \<longrightarrow>
       vReconcile now c nn s = (Some (Wrapf ''patching ServiceExport annotations'' e),
         snd (cl_Patch (cl_Exports c) (annotate svc se) se (snd h))))"
  using cluster_api.vReconcile_read_error [OF assms(1), of nn s _ now]
    cluster_api.vReconcile_svc_error [OF assms(1), of nn s _ _ now]
  unfolding g h by (auto simp: vReconcile_def split_beta)

theorem vReconcile_errors_witness:
  "fst (vReconcile 7 mem_client web
     ((mem_with (Some web_service) (Some web_export))\<lparr>m_script := [None, Some ''timeout'']\<rparr>)) =
   Some (Wrapf ''getting Service'' (ApiError (ReasonOther ''timeout'')))"
  using vReconcile_errors [OF mem_cluster_api refl refl, of web
      "(mem_with (Some web_service) (Some web_export))\<lparr>m_script := [None, Some ''timeout'']\<rparr>" 7]
  by (simp add: mem_client_def mem_kind_def fault_def mem_with_def sync_def keyed_def)

end
