(* ===== verification/Workqueue.thy ===== *)
theory Workqueue
  imports Prelude
begin

text \<open>
  The work queue behind the conflict detector, \<open>Typed\<close> of
  \<open>vendor/k8s.io/client-go/util/workqueue/queue.go\<close> with its default FIFO: an item is queued at
  most once, an item in processing is not handed out again, and one added while it is processed
  is queued again by \<open>Done\<close>. Each operation runs under the queue's lock, so it is one step;
  \<open>wq_Get\<close> returns \<open>Blocked\<close> where the code waits. The rate limiting queue adds only timed
  operations the program does not call.
  The contract of a queue is the locale \<open>work_queue\<close>, over the sets of pending items and of items
  being processed; it is interpreted on the model of the code.
\<close>

section \<open>State and operations\<close>

record 'a workqueue =
  wq_queue :: "'a list"
  wq_dirty :: "'a set"
  wq_processing :: "'a set"
  wq_shuttingDown :: bool
  wq_drain :: bool

definition newQueue :: "'a workqueue" where
  "newQueue = \<lparr>wq_queue = [], wq_dirty = {}, wq_processing = {}, wq_shuttingDown = False,
     wq_drain = False\<rparr>"

definition wq_Add :: "'a \<Rightarrow> 'a workqueue \<Rightarrow> 'a workqueue" where
  "wq_Add item q =
     (if wq_shuttingDown q then q
      else if item \<in> wq_dirty q then q
      else
        (let q1 = q\<lparr>wq_dirty := insert item (wq_dirty q)\<rparr>
         in if item \<in> wq_processing q then q1
            else q1\<lparr>wq_queue := wq_queue q1 @ [item]\<rparr>))"

datatype 'a get_result = Item 'a | Shutdown | Blocked

definition wq_Get :: "'a workqueue \<Rightarrow> 'a get_result \<times> 'a workqueue" where
  "wq_Get q =
     (case wq_queue q of
        [] \<Rightarrow> (if wq_shuttingDown q then (Shutdown, q) else (Blocked, q))
      | item # rest \<Rightarrow>
          (Item item,
           q\<lparr>wq_queue := rest, wq_processing := insert item (wq_processing q),
             wq_dirty := wq_dirty q - {item}\<rparr>))"

definition wq_Done :: "'a \<Rightarrow> 'a workqueue \<Rightarrow> 'a workqueue" where
  "wq_Done item q =
     (let q1 = q\<lparr>wq_processing := wq_processing q - {item}\<rparr>
      in if item \<in> wq_dirty q1 then q1\<lparr>wq_queue := wq_queue q1 @ [item]\<rparr> else q1)"

definition wq_ShutDown :: "'a workqueue \<Rightarrow> 'a workqueue" where
  "wq_ShutDown q = q\<lparr>wq_drain := False, wq_shuttingDown := True\<rparr>"

section \<open>Invariant\<close>

text \<open>The comment on \<open>Typed.queue\<close>: every element of the queue is dirty and not in processing; with
  the converse and no duplicates, the queue lists the dirty items that are not in processing.\<close>

definition wq_inv :: "'a workqueue \<Rightarrow> bool" where
  "wq_inv q = (distinct (wq_queue q) \<and> set (wq_queue q) = wq_dirty q - wq_processing q)"

lemma wq_inv_new [simp]: "wq_inv newQueue"
  by (simp add: wq_inv_def newQueue_def)

lemma wq_inv_Add [simp]: "wq_inv q \<Longrightarrow> wq_inv (wq_Add item q)"
  by (auto simp: wq_inv_def wq_Add_def Let_def)

lemma wq_inv_Get [simp]: "wq_inv q \<Longrightarrow> wq_inv (snd (wq_Get q))"
  by (cases "wq_queue q") (auto simp: wq_inv_def wq_Get_def)

lemma wq_inv_Done: "wq_inv q \<Longrightarrow> item \<in> wq_processing q \<Longrightarrow> wq_inv (wq_Done item q)"
  by (auto simp: wq_inv_def wq_Done_def Let_def)

lemma wq_inv_ShutDown [simp]: "wq_inv (wq_ShutDown q) = wq_inv q"
  by (simp add: wq_inv_def wq_ShutDown_def)

section \<open>The contract\<close>

text \<open>A client sees two sets: the items that still have to be processed, and those handed out.\<close>

locale work_queue =
  fixes add :: "'a \<Rightarrow> 'q \<Rightarrow> 'q"
    and get :: "'q \<Rightarrow> 'a get_result \<times> 'q"
    and finish :: "'a \<Rightarrow> 'q \<Rightarrow> 'q"
    and pending :: "'q \<Rightarrow> 'a set"
    and active :: "'q \<Rightarrow> 'a set"
    and closed :: "'q \<Rightarrow> bool"
    and invar :: "'q \<Rightarrow> bool"
  assumes invar_add: "invar q \<Longrightarrow> invar (add x q)"
    and pending_add: "invar q \<Longrightarrow> pending (add x q) = (if closed q then pending q else insert x (pending q))"
    and active_add: "invar q \<Longrightarrow> active (add x q) = active q"
    and closed_add: "invar q \<Longrightarrow> closed (add x q) = closed q"
    and invar_get: "invar q \<Longrightarrow> invar (snd (get q))"
    and closed_get: "invar q \<Longrightarrow> closed (snd (get q)) = closed q"
    and get_Item: "invar q \<Longrightarrow> fst (get q) = Item x \<Longrightarrow>
      x \<in> pending q \<and> x \<notin> active q \<and> pending (snd (get q)) = pending q - {x} \<and>
      active (snd (get q)) = insert x (active q)"
    and get_other: "invar q \<Longrightarrow> fst (get q) \<in> {Shutdown, Blocked} \<Longrightarrow>
      snd (get q) = q \<and> pending q \<subseteq> active q \<and> (fst (get q) = Shutdown \<longleftrightarrow> closed q)"
    and invar_finish: "invar q \<Longrightarrow> x \<in> active q \<Longrightarrow> invar (finish x q)"
    and pending_finish: "invar q \<Longrightarrow> pending (finish x q) = pending q"
    and active_finish: "invar q \<Longrightarrow> active (finish x q) = active q - {x}"
    and closed_finish: "invar q \<Longrightarrow> closed (finish x q) = closed q"
    and finite_pending: "invar q \<Longrightarrow> finite (pending q - active q)"
begin

text \<open>Nothing is lost: an added item is pending until it is handed out.\<close>

lemma add_not_lost: "invar q \<Longrightarrow> \<not> closed q \<Longrightarrow> x \<in> pending (add x q)"
  by (simp add: pending_add)

lemma get_keeps: "invar q \<Longrightarrow> y \<in> pending q \<Longrightarrow>
    y \<in> pending (snd (get q)) \<or> fst (get q) = Item y"
  using get_Item [of q] get_other [of q] by (cases "fst (get q)") auto

text \<open>One worker: hands out an item, and returns it. The pending set shrinks by that item.\<close>

lemma worker_round:
  assumes "invar q" "active q = {}" "fst (get q) = Item x"
  shows "invar (finish x (snd (get q)))" "active (finish x (snd (get q))) = {}"
    "pending (finish x (snd (get q))) = pending q - {x}" "x \<in> pending q"
    "closed (finish x (snd (get q))) = closed q"
proof -
  have g: "x \<in> pending q" "pending (snd (get q)) = pending q - {x}"
    "active (snd (get q)) = {x}" using get_Item [OF assms(1,3)] assms(2) by auto
  have i: "invar (snd (get q))" using invar_get [OF assms(1)] .
  show "invar (finish x (snd (get q)))" using invar_finish [OF i] g by simp
  show "active (finish x (snd (get q))) = {}" using active_finish [OF i] g by simp
  show "pending (finish x (snd (get q))) = pending q - {x}" using pending_finish [OF i] g by simp
  show "x \<in> pending q" using g by simp
  show "closed (finish x (snd (get q))) = closed q"
    using closed_finish [OF i] closed_get [OF assms(1)] by simp
qed

lemma idle_get:
  "invar q \<Longrightarrow> active q = {} \<Longrightarrow> pending q \<noteq> {} \<Longrightarrow> \<exists>x. fst (get q) = Item x"
  using get_other [of q] by (cases "fst (get q)") auto

lemma drained_get:
  "invar q \<Longrightarrow> pending q = {} \<Longrightarrow> fst (get q) = (if closed q then Shutdown else Blocked)"
  using get_other [of q] get_Item [of q] by (cases "fst (get q)") auto

end

lemma wq_Get_cases:
  "wq_queue q = [] \<Longrightarrow> wq_Get q = (if wq_shuttingDown q then Shutdown else Blocked, q)"
  by (simp add: wq_Get_def)

interpretation wq: work_queue wq_Add wq_Get wq_Done wq_dirty wq_processing wq_shuttingDown wq_inv
proof (unfold_locales, goal_cases)
  case (7 q x)
  then show ?case by (cases "wq_queue q") (auto simp: wq_Get_def wq_inv_def split: if_splits)
next
  case (8 q)
  then show ?case by (cases "wq_queue q") (auto simp: wq_Get_def wq_inv_def split: if_splits)
next
  case (9 q x)
  then show ?case by (rule wq_inv_Done)
next
  case (13 q)
  then show ?case by (metis wq_inv_def List.finite_set)
qed (simp_all, auto simp: wq_Add_def wq_Done_def wq_Get_def Let_def split: list.split)

end
