(* ===== verification/Conflict.thy ===== *)
theory Conflict
  imports Codec Examples Workqueue "HOL-Library.AList"
begin

text \<open>
  \<open>pkg/controller/conflict_detector.go\<close>. The state (\<open>detector\<close>) is the table \<open>remoteSpecs\<close>, each
  inner Go map an association list with distinct keys, and the work queue, absent until
  \<open>SetupWithManager\<close>. \<open>RecordRemote\<close>/\<open>ForgetRemote\<close> run under the mutex, so they are one step.
  Go's iteration order over the inner map is the argument \<open>order\<close> of \<open>detectConflict\<close>, of which
  the theorems assume only that it lists the entries (\<open>range_order\<close>).
  The table refines a map from (service, cluster) to summary (\<open>remote_view\<close>); the contract the
  watchers rely on is the locale \<open>remote_registry\<close>, interpreted here on the code's operations.
\<close>

section \<open>Summaries\<close>

text \<open>\<open>specSummary\<close> takes a pointer: \<open>None\<close> is nil.\<close>

definition specSummary :: "service_export option \<Rightarrow> string" where
  "specSummary sep =
     (case sep of
        None \<Rightarrow> ''''
      | Some se \<Rightarrow>
          (case om_Annotations (se_meta se) of
             None \<Rightarrow> ''''
           | Some a \<Rightarrow> print_json (JObj
               [(''type'', JStr (get0 a AnnotationServiceType)),
                (''ports'', JStr (get0 a AnnotationServicePorts))])))"

text \<open>What a summary tells apart, for annotations that are valid UTF-8: whether there are
  annotations at all, the type, and the text of the ports.\<close>

definition summary_key :: "service_export \<Rightarrow> (string \<times> string) option" where
  "summary_key se =
     map_option (\<lambda>a. (get0 a AnnotationServiceType, get0 a AnnotationServicePorts))
       (om_Annotations (se_meta se))"

definition summary_valid :: "service_export \<Rightarrow> bool" where
  "summary_valid se =
     (case summary_key se of None \<Rightarrow> True | Some (t, p) \<Rightarrow> valid_utf8 t \<and> valid_utf8 p)"

lemma sanitize_summary_names [simp]: "sanitize ''type'' = ''type''" "sanitize ''ports'' = ''ports''"
  by (rule sanitize_valid, rule ascii_valid_utf8, simp add: ascii_def byte_def)+

lemma parse_summary:
  "summary_valid se \<Longrightarrow>
   parse_json (specSummary (Some se)) =
     (case summary_key se of
        None \<Rightarrow> parse_json ''''
      | Some (t, p) \<Rightarrow> Some (JObj [(''type'', JStr t), (''ports'', JStr p)]))"
  by (auto simp: specSummary_def summary_key_def summary_valid_def parse_print maxNestingDepth_def
      clean_JObj sanitize_valid simp del: print_json.simps split: option.split)

lemma parse_empty [simp]: "parse_json '''' = None"
  by (simp add: parse_json_def parse_value.simps(2))

theorem specSummary_eq_iff:
  assumes "summary_valid se" "summary_valid se'"
  shows "specSummary (Some se) = specSummary (Some se') \<longleftrightarrow> summary_key se = summary_key se'"
proof
  assume "specSummary (Some se) = specSummary (Some se')"
  then show "summary_key se = summary_key se'"
    using parse_summary [OF assms(1)] parse_summary [OF assms(2)] by (auto split: option.splits)
next
  assume "summary_key se = summary_key se'"
  then show "specSummary (Some se) = specSummary (Some se')"
    by (cases "om_Annotations (se_meta se)"; cases "om_Annotations (se_meta se')")
       (auto simp: specSummary_def summary_key_def)
qed

section \<open>State\<close>

record detector =
  cd_remoteSpecs :: "namespaced_name \<rightharpoonup> (string \<times> string) list"
  cd_queue :: "namespaced_name workqueue option"

definition NewConflictDetector :: detector where
  "NewConflictDetector = \<lparr>cd_remoteSpecs = Map.empty, cd_queue = None\<rparr>"

text \<open>\<open>SetupWithManager\<close>: the queue is made first; \<open>complete\<close> and \<open>added\<close> are what the builder
  and \<open>mgr.Add\<close> return.\<close>

definition cdSetupWithManager ::
  "go_error option \<Rightarrow> go_error option \<Rightarrow> detector \<Rightarrow> go_error option \<times> detector" where
  "cdSetupWithManager complete added cd =
     (let cd1 = cd\<lparr>cd_queue := Some newQueue\<rparr>
      in case complete of Some e \<Rightarrow> (Some e, cd1) | None \<Rightarrow> (added, cd1))"

definition cd_enqueue :: "namespaced_name \<Rightarrow> detector \<Rightarrow> detector" where
  "cd_enqueue nn cd = cd\<lparr>cd_queue := map_option (wq_Add nn) (cd_queue cd)\<rparr>"

definition RecordRemote :: "namespaced_name \<Rightarrow> string \<Rightarrow> service_export \<Rightarrow> detector \<Rightarrow> detector" where
  "RecordRemote nn clusterID se cd =
     (let m = (case cd_remoteSpecs cd nn of None \<Rightarrow> [] | Some m \<Rightarrow> m);
          m1 = AList.update clusterID (specSummary (Some se)) m
      in cd_enqueue nn (cd\<lparr>cd_remoteSpecs := (cd_remoteSpecs cd)(nn \<mapsto> m1)\<rparr>))"

definition ForgetRemote :: "namespaced_name \<Rightarrow> string \<Rightarrow> detector \<Rightarrow> detector" where
  "ForgetRemote nn clusterID cd =
     (let cd1 =
        (case cd_remoteSpecs cd nn of
           None \<Rightarrow> cd
         | Some m \<Rightarrow>
             (let m1 = AList.delete clusterID m
              in if m1 = [] then cd\<lparr>cd_remoteSpecs := (cd_remoteSpecs cd)(nn := None)\<rparr>
                 else cd\<lparr>cd_remoteSpecs := (cd_remoteSpecs cd)(nn \<mapsto> m1)\<rparr>))
      in cd_enqueue nn cd1)"

section \<open>Detection\<close>

text \<open>The loop over the remotes stops at the first one that differs.\<close>

fun first_conflict :: "string \<Rightarrow> (string \<times> string) list \<Rightarrow> string option" where
  "first_conflict localSummary [] = None"
| "first_conflict localSummary ((clusterID, remoteSummary) # rest) =
     (if remoteSummary \<noteq> localSummary then Some clusterID
      else first_conflict localSummary rest)"

definition detectConflict ::
  "((string \<times> string) list \<Rightarrow> (string \<times> string) list) \<Rightarrow> detector \<Rightarrow> namespaced_name \<Rightarrow>
   service_export \<Rightarrow> bool \<times> string \<times> string" where
  "detectConflict order cd nn localSE =
     (case cd_remoteSpecs cd nn of
        None \<Rightarrow> (False, ServiceExportReasonNoConflicts, ''no remote exports observed'')
      | Some remotes \<Rightarrow>
          if remotes = []
          then (False, ServiceExportReasonNoConflicts, ''no remote exports observed'')
          else
            (case first_conflict (specSummary (Some localSE)) (order remotes) of
               Some clusterID \<Rightarrow>
                 (True, ServiceExportReasonPortConflict,
                  ''port/type conflict with cluster '' @ clusterID)
             | None \<Rightarrow>
                 (False, ServiceExportReasonNoConflicts, ''all exports are consistent'')))"

definition updateConflictCondition ::
  "nat \<Rightarrow> 'st client \<Rightarrow> service_export \<Rightarrow> bool \<Rightarrow> string \<Rightarrow> string \<Rightarrow> 'st \<Rightarrow> go_error option \<times> 'st" where
  "updateConflictCondition now c se conflict reason msg s =
     (let status = (if conflict then ConditionTrue else ConditionFalse);
          patch = se\<lparr>se_Conditions := setCondition (se_Conditions se)
            (newCondition now ServiceExportConditionConflict status reason msg)\<rparr>
      in (case cl_StatusPatch (cl_Exports c) patch se s of
            (Some err, s1) \<Rightarrow> (Some (Wrapf ''patching ServiceExport conflict status'' err), s1)
          | (None, s1) \<Rightarrow> (None, s1)))"

definition cdReconcile ::
  "nat \<Rightarrow> ((string \<times> string) list \<Rightarrow> (string \<times> string) list) \<Rightarrow> 'st client \<Rightarrow> detector \<Rightarrow>
   namespaced_name \<Rightarrow> 'st \<Rightarrow> go_error option \<times> 'st" where
  "cdReconcile now order c cd nn s =
     (case cl_Get (cl_Exports c) nn s of
        (Inl err, s1) \<Rightarrow> (ignoreNotFound err, s1)
      | (Inr se, s1) \<Rightarrow>
          (case detectConflict order cd nn se of
             (conflict, reason, msg) \<Rightarrow> updateConflictCondition now c se conflict reason msg s1))"

section \<open>The table refines a map\<close>

definition remote_view :: "detector \<Rightarrow> namespaced_name \<times> string \<rightharpoonup> string" where
  "remote_view cd =
     (\<lambda>(nn, cl). case cd_remoteSpecs cd nn of None \<Rightarrow> None | Some m \<Rightarrow> map_of m cl)"

text \<open>No inner map is empty and none holds a key twice.\<close>

definition cd_inv :: "detector \<Rightarrow> bool" where
  "cd_inv cd =
     ((\<forall>nn m. cd_remoteSpecs cd nn = Some m \<longrightarrow> m \<noteq> [] \<and> distinct (map fst m)) \<and>
      (case cd_queue cd of None \<Rightarrow> True | Some q \<Rightarrow> wq_inv q))"

lemma cd_inv_D: "cd_inv cd \<Longrightarrow> cd_remoteSpecs cd nn = Some m \<Longrightarrow> m \<noteq> [] \<and> distinct (map fst m)"
  by (auto simp: cd_inv_def)

lemma enqueue_sel [simp]: "cd_remoteSpecs (cd_enqueue nn cd) = cd_remoteSpecs cd"
  by (simp add: cd_enqueue_def)

lemma remote_view_enqueue [simp]: "remote_view (cd_enqueue nn cd) = remote_view cd"
  by (simp add: remote_view_def)

lemma remote_view_new [simp]: "remote_view NewConflictDetector = Map.empty"
  by (auto simp: remote_view_def NewConflictDetector_def)

lemma remote_view_RecordRemote:
  "remote_view (RecordRemote nn cl se cd) = (remote_view cd)((nn, cl) \<mapsto> specSummary (Some se))"
  by (auto simp: remote_view_def RecordRemote_def Let_def fun_eq_iff update_conv' split: option.split)

lemma remote_view_ForgetRemote:
  "remote_view (ForgetRemote nn cl cd) = (remote_view cd)((nn, cl) := None)"
proof (cases "cd_remoteSpecs cd nn")
  case (Some m)
  have d: "map_of (AList.delete cl m) = (map_of m)(cl := None)" by (rule delete_conv')
  then have "map_of m x = None" if "AList.delete cl m = []" "x \<noteq> cl" for x
    using that by (metis fun_upd_other map_of.simps(1))
  with Some d show ?thesis
    by (auto simp: remote_view_def ForgetRemote_def Let_def fun_eq_iff)
qed (auto simp: remote_view_def ForgetRemote_def fun_eq_iff)

lemma cd_inv_new [simp]: "cd_inv NewConflictDetector"
  by (simp add: cd_inv_def NewConflictDetector_def)

lemma cd_inv_enqueue: "cd_inv cd \<Longrightarrow> cd_inv (cd_enqueue nn cd)"
  by (auto simp: cd_inv_def cd_enqueue_def split: option.splits)

lemma cd_inv_RecordRemote: "cd_inv cd \<Longrightarrow> cd_inv (RecordRemote nn cl se cd)"
  unfolding RecordRemote_def Let_def
  by (rule cd_inv_enqueue) (auto simp: cd_inv_def update_nonempty distinct_update split: option.split)

lemma cd_inv_ForgetRemote: "cd_inv cd \<Longrightarrow> cd_inv (ForgetRemote nn cl cd)"
  unfolding ForgetRemote_def Let_def
  by (rule cd_inv_enqueue) (auto simp: cd_inv_def distinct_delete split: option.split)

section \<open>Detection is exact\<close>

text \<open>Go's range visits every entry once, in any order.\<close>

definition range_order :: "('a list \<Rightarrow> 'a list) \<Rightarrow> bool" where
  "range_order order = (\<forall>m. set (order m) = set m)"

lemma range_order_id [simp]: "range_order id" "range_order rev"
  by (simp_all add: range_order_def)

lemma first_conflict_None: "first_conflict l m = None \<longleftrightarrow> (\<forall>(cl, v)\<in>set m. v = l)"
  by (induction l m rule: first_conflict.induct) auto

lemma first_conflict_Some: "first_conflict l m = Some cl \<Longrightarrow> \<exists>v. (cl, v) \<in> set m \<and> v \<noteq> l"
  by (induction l m rule: first_conflict.induct) (auto split: if_splits)

lemma remote_view_iff:
  assumes "cd_inv cd"
  shows "remote_view cd (nn, cl) = Some v \<longleftrightarrow>
    (\<exists>m. cd_remoteSpecs cd nn = Some m \<and> (cl, v) \<in> set m)"
  using cd_inv_D [OF assms] by (auto simp: remote_view_def split: option.splits)

lemma remote_view_None:
  assumes "cd_inv cd"
  shows "cd_remoteSpecs cd nn = None \<longleftrightarrow> (\<forall>cl. remote_view cd (nn, cl) = None)"
proof (cases "cd_remoteSpecs cd nn")
  case (Some m)
  then obtain cl v where "(cl, v) \<in> set m"
    using cd_inv_D [OF assms] by (metis last_in_set prod.collapse)
  then show ?thesis using Some remote_view_iff [OF assms, of nn cl v] by auto
qed (simp add: remote_view_def)

lemma detectConflict_verdict:
  assumes "cd_inv cd" "range_order order"
  shows "fst (detectConflict order cd nn se) \<longleftrightarrow>
    (\<exists>cl v. remote_view cd (nn, cl) = Some v \<and> v \<noteq> specSummary (Some se))"
proof (cases "cd_remoteSpecs cd nn")
  case (Some m)
  then have ne: "m \<noteq> []" using cd_inv_D [OF assms(1)] by blast
  have "fst (detectConflict order cd nn se) \<longleftrightarrow>
      first_conflict (specSummary (Some se)) (order m) \<noteq> None"
    using Some ne by (auto simp: detectConflict_def split: option.split)
  also have "\<dots> \<longleftrightarrow> (\<exists>(cl, v)\<in>set m. v \<noteq> specSummary (Some se))"
    using assms(2) unfolding first_conflict_None range_order_def by auto
  finally show ?thesis
    using Some by (auto simp: remote_view_iff [OF assms(1)])
qed (auto simp: detectConflict_def remote_view_def)

lemma detectConflict_culprit:
  assumes "cd_inv cd" "range_order order" "fst (detectConflict order cd nn se)"
  obtains cl v where "remote_view cd (nn, cl) = Some v" "v \<noteq> specSummary (Some se)"
    "snd (detectConflict order cd nn se) =
       (ServiceExportReasonPortConflict, ''port/type conflict with cluster '' @ cl)"
proof -
  obtain m cl where m: "cd_remoteSpecs cd nn = Some m"
      "first_conflict (specSummary (Some se)) (order m) = Some cl"
    using assms(3) by (auto simp: detectConflict_def split: option.splits if_splits)
  with first_conflict_Some [OF m(2)] assms(2) obtain v
    where v: "(cl, v) \<in> set m" "v \<noteq> specSummary (Some se)" by (auto simp: range_order_def)
  then have "m \<noteq> []" by auto
  with m v that show thesis
    using remote_view_iff [OF assms(1)] by (auto simp: detectConflict_def)
qed

section \<open>The registry the watchers write\<close>

text \<open>What a watcher does to the detector, and the export last recorded for a cluster.\<close>

datatype remote_event =
  Recorded namespaced_name string service_export
| Forgotten namespaced_name string

fun last_export ::
  "remote_event list \<Rightarrow> namespaced_name \<Rightarrow> string \<Rightarrow> service_export option" where
  "last_export [] nn cl = None"
| "last_export (e # es) nn cl =
     (case last_export es nn cl of
        Some se \<Rightarrow> Some se
      | None \<Rightarrow>
          (case e of
             Recorded nn1 cl1 se \<Rightarrow>
               if nn1 = nn \<and> cl1 = cl \<and> Forgotten nn cl \<notin> set es then Some se else None
           | Forgotten _ _ \<Rightarrow> None))"

locale remote_registry =
  fixes record_remote :: "namespaced_name \<Rightarrow> string \<Rightarrow> service_export \<Rightarrow> 'd \<Rightarrow> 'd"
    and forget_remote :: "namespaced_name \<Rightarrow> string \<Rightarrow> 'd \<Rightarrow> 'd"
    and look :: "'d \<Rightarrow> namespaced_name \<times> string \<rightharpoonup> string"
    and fresh :: 'd
    and invar :: "'d \<Rightarrow> bool"
  assumes look_fresh: "look fresh = Map.empty" and invar_fresh: "invar fresh"
    and look_record: "look (record_remote nn cl se d) = (look d)((nn, cl) \<mapsto> specSummary (Some se))"
    and look_forget: "look (forget_remote nn cl d) = (look d)((nn, cl) := None)"
    and invar_record: "invar d \<Longrightarrow> invar (record_remote nn cl se d)"
    and invar_forget: "invar d \<Longrightarrow> invar (forget_remote nn cl d)"
begin

fun observe :: "remote_event \<Rightarrow> 'd \<Rightarrow> 'd" where
  "observe (Recorded nn cl se) d = record_remote nn cl se d"
| "observe (Forgotten nn cl) d = forget_remote nn cl d"

lemma invar_observe: "invar d \<Longrightarrow> invar (observe e d)"
  by (cases e) (simp_all add: invar_record invar_forget)

lemma invar_fold: "invar d \<Longrightarrow> invar (fold observe es d)"
  by (induction es arbitrary: d) (simp_all add: invar_observe)

text \<open>After any history, the entry of a cluster is the summary of its last export, if that was
  not forgotten since. An entry that no event names is kept.\<close>

lemma look_fold:
  "look (fold observe es d) (nn, cl) =
     (case last_export es nn cl of
        Some se \<Rightarrow> Some (specSummary (Some se))
      | None \<Rightarrow> if Forgotten nn cl \<in> set es then None else look d (nn, cl))"
proof (induction es arbitrary: d)
  case (Cons e es)
  then show ?case
    by (cases e) (auto simp: look_record look_forget split: option.splits)
qed simp

lemma look_history:
  "look (fold observe es fresh) (nn, cl) =
     map_option (\<lambda>se. specSummary (Some se)) (last_export es nn cl)"
  by (simp add: look_fold look_fresh split: option.split)

end

interpretation reg: remote_registry RecordRemote ForgetRemote remote_view NewConflictDetector cd_inv
  by unfold_locales (simp_all add: remote_view_RecordRemote remote_view_ForgetRemote
      cd_inv_RecordRemote cd_inv_ForgetRemote)

text \<open>The same step written out, for the loop below.\<close>

fun cd_event :: "remote_event \<Rightarrow> detector \<Rightarrow> detector" where
  "cd_event (Recorded nn cl se) cd = RecordRemote nn cl se cd"
| "cd_event (Forgotten nn cl) cd = ForgetRemote nn cl cd"

lemma cd_event_observe: "cd_event = reg.observe"
proof (rule ext, rule ext)
  fix e cd show "cd_event e cd = reg.observe e cd" by (cases e) simp_all
qed

lemmas cd_event_inv = reg.invar_fold [folded cd_event_observe]
  and cd_event_history = reg.look_history [folded cd_event_observe]

section \<open>Properties\<close>

text \<open>The detector is exact: after any history of exports recorded and forgotten by the watchers,
  in whatever order Go iterates over the map, a conflict is reported for a local export exactly when
  the export last seen from some cluster, and not deleted since, has another type or other ports in
  its annotations (or has annotations where the local one has none, or the converse).\<close>

theorem detect_history:
  assumes order: "range_order order" and se: "summary_valid se"
    and remote: "\<And>cl se'. last_export evs nn cl = Some se' \<Longrightarrow> summary_valid se'"
  shows "fst (detectConflict order (fold cd_event evs NewConflictDetector) nn se) \<longleftrightarrow>
    (\<exists>cl se'. last_export evs nn cl = Some se' \<and> summary_key se' \<noteq> summary_key se)"
proof -
  have inv: "cd_inv (fold cd_event evs NewConflictDetector)" by (simp add: cd_event_inv)
  show ?thesis
    using specSummary_eq_iff [OF remote se]
    by (auto simp: detectConflict_verdict [OF inv order] cd_event_history)
qed

theorem detect_history_witness:
  "fst (detectConflict rev
     (fold cd_event [Recorded web ''b'' (with_annotations [AnnotationServiceType \<mapsto> ''Headless''] web_export),
        Recorded web ''c'' web_export, Forgotten web ''c'']
       NewConflictDetector) web (with_annotations [AnnotationServiceType \<mapsto> ''ClusterSetIP''] web_export)) \<and>
   \<not> fst (detectConflict id
     (fold cd_event [Recorded web ''b'' web_export, Forgotten web ''b''] NewConflictDetector) web web_export)"
proof -
  let ?h = "with_annotations [AnnotationServiceType \<mapsto> ''Headless''] web_export"
  let ?l = "with_annotations [AnnotationServiceType \<mapsto> ''ClusterSetIP''] web_export"
  have k: "summary_key ?h = Some (''Headless'', [])" "summary_key ?l = Some (''ClusterSetIP'', [])"
    "summary_key web_export = None"
    by (simp_all add: summary_key_def with_annotations_def get0_def)
  have v: "summary_valid ?h" "summary_valid ?l" "summary_valid web_export"
    by (simp_all add: summary_valid_def k ascii_valid_utf8 ascii_def byte_def)
  let ?evs = "[Recorded web ''b'' ?h, Recorded web ''c'' web_export, Forgotten web ''c'']"
  have l: "last_export ?evs web cl = (if cl = ''b'' then Some ?h else None)" for cl by auto
  have l2: "last_export [Recorded web ''b'' web_export, Forgotten web ''b''] web cl = None" for cl
    by auto
  have a: "fst (detectConflict rev (fold cd_event ?evs NewConflictDetector) web ?l)"
  proof (subst detect_history [OF range_order_id(2) v(2)])
    show "summary_valid se'" if "last_export ?evs web cl = Some se'" for cl se'
      using that v(1) unfolding l by (simp split: if_splits)
    show "\<exists>cl se'. last_export ?evs web cl = Some se' \<and> summary_key se' \<noteq> summary_key ?l"
      unfolding l k(2) by (rule exI [of _ "''b''"]) (simp add: k(1))
  qed
  have b: "\<not> fst (detectConflict id (fold cd_event [Recorded web ''b'' web_export, Forgotten web ''b'']
      NewConflictDetector) web web_export)"
    by (subst detect_history [OF range_order_id(1) v(3)]) (simp_all only: l2, simp_all)
  show ?thesis using a b by blast
qed

text \<open>When a conflict is reported, the reason is PortConflict and the message names a cluster whose
  recorded summary differs from that of the local export.\<close>

theorem conflict_names_culprit:
  assumes "cd_inv cd" "range_order order" "fst (detectConflict order cd nn se)"
  shows "\<exists>cl v. remote_view cd (nn, cl) = Some v \<and> v \<noteq> specSummary (Some se) \<and>
    detectConflict order cd nn se =
      (True, ServiceExportReasonPortConflict, ''port/type conflict with cluster '' @ cl)"
proof -
  obtain cl v where v: "remote_view cd (nn, cl) = Some v" "v \<noteq> specSummary (Some se)"
      "snd (detectConflict order cd nn se) =
        (ServiceExportReasonPortConflict, ''port/type conflict with cluster '' @ cl)"
    using detectConflict_culprit [OF assms] .
  then have "detectConflict order cd nn se =
      (True, ServiceExportReasonPortConflict, ''port/type conflict with cluster '' @ cl)"
    using assms(3) by (simp add: prod_eq_iff)
  with v show ?thesis by blast
qed

theorem conflict_names_culprit_witness:
  "snd (snd (detectConflict id
     (RecordRemote web ''b'' (with_annotations [AnnotationServiceType \<mapsto> ''Headless''] web_export)
       NewConflictDetector) web web_export)) = ''port/type conflict with cluster b''"
proof -
  let ?cd = "RecordRemote web ''b'' (with_annotations [AnnotationServiceType \<mapsto> ''Headless''] web_export)
       NewConflictDetector"
  have view: "remote_view ?cd (web, cl) = (if cl = ''b'' then Some (specSummary (Some
      (with_annotations [AnnotationServiceType \<mapsto> ''Headless''] web_export))) else None)" for cl
    by (simp add: remote_view_RecordRemote)
  have inv: "cd_inv ?cd" by (simp add: cd_inv_RecordRemote)
  have "fst (detectConflict id ?cd web web_export)"
    by (simp add: detectConflict_verdict [OF inv range_order_id(1)] view)
       (simp add: specSummary_def with_annotations_def)
  from conflict_names_culprit [OF inv range_order_id(1) this] show ?thesis
    by (auto simp: view split: if_splits)
qed

end
