(* ===== verification/Conflict_Loop.thy ===== *)
theory Conflict_Loop
  imports Conflict
begin

text \<open>
  The conflict detector at work: one \<open>Reconcile\<close> under the laws of the API, and \<open>Start\<close>, the loop
  that takes keys off the queue while the watchers record and forget.
\<close>

section \<open>One reconcile\<close>

context cluster_api
begin

lemma updateConflictCondition_only:
  assumes "se_key se = nn"
  shows "only_at ex rest_kinds nn s (snd (updateConflictCondition now c se b r m s))"
proof -
  have "se_key (se\<lparr>se_Conditions := cs\<rparr>) = nn" for cs
    using assms by (simp add: se_key_def)
  then show ?thesis
    by (simp add: updateConflictCondition_def Let_def split_beta only_at_Patch(2)
        split: option.split)
qed

lemma cdReconcile_only: "only_at ex rest_kinds nn s (snd (cdReconcile now order c cd nn s))"
proof (cases "fst (cl_Get (cl_Exports c) nn s)")
  case (Inr se)
  then show ?thesis
    using only_at_trans [OF only_at_Get(1) updateConflictCondition_only] Get_export_key
    by (auto simp: cdReconcile_def split_beta)
qed (simp add: cdReconcile_def split_beta only_at_Get)

lemma cdReconcile_dom: "dom (ex (snd (cdReconcile now order c cd nn s))) = dom (ex s)"
  by (auto simp: cdReconcile_def updateConflictCondition_def Let_def split_beta exps.patch_dom
      exps.call_frames split: sum.split option.split)

lemma cdReconcile_current:
  assumes up: "up s" and cur: "ex' s nn = ex s nn" and se: "ex s nn = Some se"
  shows "fst (cdReconcile now order c cd nn s) = None"
    and "ex (snd (cdReconcile now order c cd nn s)) nn =
       Some (se\<lparr>se_Conditions := setCondition (se_Conditions se)
         (case detectConflict order cd nn se of (b, r, m) \<Rightarrow>
            newCondition now ServiceExportConditionConflict
              (if b then ConditionTrue else ConditionFalse) r m)\<rparr>)"
proof -
  obtain b r m where d: "detectConflict order cd nn se = (b, r, m)" by (cases "detectConflict order cd nn se")
  define s1 where "s1 = snd (cl_Get (cl_Exports c) nn s)"
  define se' where "se' = se\<lparr>se_Conditions := setCondition (se_Conditions se)
      (newCondition now ServiceExportConditionConflict
        (if b then ConditionTrue else ConditionFalse) r m)\<rparr>"
  have k: "se_key se = nn" using exps.cached_key [of s nn se] cur se by simp
  then have k': "se_key se' = nn" by (simp add: se'_def se_key_def)
  have g1: "fst (cl_Get (cl_Exports c) nn s) = Inr se" using exps.up_Get [OF up] cur se by simp
  have s1: "up s1" "ex s1 = ex s"
    unfolding s1_def using exps.up_after(1) [OF up] exps.call_frames by auto
  have p: "fst (cl_StatusPatch (cl_Exports c) se' se s1) = None"
    by (rule exps.up_StatusPatch) (simp_all add: s1 k' se)
  then have e: "ex (snd (cl_StatusPatch (cl_Exports c) se' se s1)) nn = Some se'"
    using exps.StatusPatch_ok [OF p] s1(2) se k' unfolding se'_def by fastforce
  show "fst (cdReconcile now order c cd nn s) = None"
    using g1 p d
    by (simp add: cdReconcile_def updateConflictCondition_def split_beta Let_def
        s1_def [symmetric] se'_def [symmetric])
  show "ex (snd (cdReconcile now order c cd nn s)) nn =
       Some (se\<lparr>se_Conditions := setCondition (se_Conditions se)
         (case detectConflict order cd nn se of (b, r, m) \<Rightarrow>
            newCondition now ServiceExportConditionConflict
              (if b then ConditionTrue else ConditionFalse) r m)\<rparr>)"
    using g1 p d e
    by (simp add: cdReconcile_def updateConflictCondition_def split_beta Let_def
        s1_def [symmetric] se'_def [symmetric])
qed

lemma cdReconcile_stale:
  assumes up: "up s" and cached: "ex' s nn = Some se0" and stored: "ex s nn = Some se1"
    and no_conflict: "cond_map (se_Conditions se0) ServiceExportConditionConflict = None"
  shows "\<exists>cs. ex (snd (cdReconcile now order c cd nn s)) nn = Some (se1\<lparr>se_Conditions := cs\<rparr>) \<and>
    cond_map cs ServiceExportConditionValid = cond_map (se_Conditions se0) ServiceExportConditionValid"
proof -
  obtain b r m where d: "detectConflict order cd nn se0 = (b, r, m)"
    by (cases "detectConflict order cd nn se0")
  define s1 where "s1 = snd (cl_Get (cl_Exports c) nn s)"
  define cond where "cond = newCondition now ServiceExportConditionConflict
      (if b then ConditionTrue else ConditionFalse) r m"
  define cs where "cs = setCondition (se_Conditions se0) cond"
  define se' where "se' = se0\<lparr>se_Conditions := cs\<rparr>"
  have k': "se_key se' = nn" using exps.cached_key [OF cached] by (simp add: se'_def se_key_def)
  have g1: "fst (cl_Get (cl_Exports c) nn s) = Inr se0" using exps.up_Get [OF up] cached by simp
  have s1: "up s1" "ex s1 = ex s"
    unfolding s1_def using exps.up_after(1) [OF up] exps.call_frames by auto
  have p: "fst (cl_StatusPatch (cl_Exports c) se' se0 s1) = None"
    by (rule exps.up_StatusPatch) (simp_all add: s1 k' stored)
  have view: "cond_map cs = (cond_map (se_Conditions se0))(ServiceExportConditionConflict \<mapsto> cond)"
    by (simp add: cs_def cond_def)
  then have "cond_map cs ServiceExportConditionConflict \<noteq> None" by simp
  then have "se_Conditions se0 \<noteq> cs" using no_conflict by metis
  then have "se_status_merge se0 se' se1 = se1\<lparr>se_Conditions := cs\<rparr>"
    by (simp add: se_status_merge_def se'_def merge_field_def)
  with exps.StatusPatch_ok [OF p] s1(2) stored k'
  have "ex (snd (cl_StatusPatch (cl_Exports c) se' se0 s1)) nn = Some (se1\<lparr>se_Conditions := cs\<rparr>)"
    by fastforce
  then have "ex (snd (cdReconcile now order c cd nn s)) nn = Some (se1\<lparr>se_Conditions := cs\<rparr>)"
    using g1 p d
    by (simp add: cdReconcile_def updateConflictCondition_def split_beta Let_def
        s1_def [symmetric] cond_def [symmetric] cs_def [symmetric] se'_def [symmetric])
  then show ?thesis using view by auto
qed

lemma cdReconcile_read_error:
  assumes "fst (cl_Get (cl_Exports c) nn s) = Inl e"
  shows "fst (cdReconcile now order c cd nn s) = ignoreNotFound e"
    and "ex (snd (cdReconcile now order c cd nn s)) = ex s"
  using assms by (simp_all add: cdReconcile_def split_beta exps.call_frames)

end

section \<open>The loop of \<open>Start\<close>\<close>

text \<open>
  Between the steps of the loop the watchers' goroutines run, and the one that waits for the
  context. A round of the loop comes with what they do before its \<open>Get\<close>, between \<open>Get\<close> and the
  read of the table, and between that read and \<open>Done\<close>.
\<close>

datatype loop_event = Remote remote_event | CtxDone

fun apply_event :: "loop_event \<Rightarrow> detector \<Rightarrow> detector" where
  "apply_event (Remote e) cd = cd_event e cd"
| "apply_event CtxDone cd = cd\<lparr>cd_queue := map_option wq_ShutDown (cd_queue cd)\<rparr>"

record loop_round =
  r_before :: "loop_event list"
  r_taken :: "loop_event list"
  r_read :: "loop_event list"

text \<open>The log keeps, for each reconcile, its key, the entry of the table it read and its result;
  the newest is first.\<close>

type_synonym reconcile_log =
  "(namespaced_name \<times> (string \<times> string) list option \<times> go_error option) list"

datatype loop_end = Returned | Running | NilQueue

text \<open>The body of the loop after \<open>Get\<close> has handed out \<open>nn\<close>: an error is only logged.\<close>

definition cd_body ::
  "nat \<Rightarrow> ((string \<times> string) list \<Rightarrow> (string \<times> string) list) \<Rightarrow> 'st client \<Rightarrow> loop_round \<Rightarrow>
   namespaced_name \<Rightarrow> detector \<Rightarrow> 'st \<Rightarrow> detector \<times> 'st \<times> reconcile_log" where
  "cd_body now order c r nn cd s =
     (let cd1 = fold apply_event (r_taken r) cd;
          (err, s1) = cdReconcile now order c cd1 nn s;
          cd2 = fold apply_event (r_read r) cd1
      in (cd2\<lparr>cd_queue := map_option (wq_Done nn) (cd_queue cd2)\<rparr>, s1,
          [(nn, cd_remoteSpecs cd1 nn, err)]))"

text \<open>A \<open>Get\<close> that blocks goes on waiting in the next round.\<close>

fun cdStart ::
  "nat \<Rightarrow> ((string \<times> string) list \<Rightarrow> (string \<times> string) list) \<Rightarrow> 'st client \<Rightarrow> loop_round list \<Rightarrow>
   detector \<Rightarrow> 'st \<Rightarrow> reconcile_log \<Rightarrow> loop_end \<times> detector \<times> 'st \<times> reconcile_log" where
  "cdStart now order c [] cd s log = (Running, cd, s, log)"
| "cdStart now order c (r # rs) cd s log =
     (let cd1 = fold apply_event (r_before r) cd
      in (case cd_queue cd1 of
            None \<Rightarrow> (NilQueue, cd1, s, log)
          | Some q \<Rightarrow>
              (case wq_Get q of
                 (Shutdown, q1) \<Rightarrow> (Returned, cd1\<lparr>cd_queue := Some q1\<rparr>, s, log)
               | (Blocked, q1) \<Rightarrow> cdStart now order c rs (cd1\<lparr>cd_queue := Some q1\<rparr>) s log
               | (Item nn, q1) \<Rightarrow>
                   (case cd_body now order c r nn (cd1\<lparr>cd_queue := Some q1\<rparr>) s of
                      (cd2, s1, entry) \<Rightarrow> cdStart now order c rs cd2 s1 (entry @ log)))))"

section \<open>What the other goroutines may do to the detector\<close>

text \<open>They only append to the queue; whatever entry of the table they change, its key is pending
  afterwards, unless the queue is shut down.\<close>

definition evolves :: "detector \<Rightarrow> detector \<Rightarrow> bool" where
  "evolves cd cd' =
     (case (cd_queue cd, cd_queue cd') of
        (Some q, Some q') \<Rightarrow>
          (\<exists>new. wq_queue q' = wq_queue q @ new) \<and> wq_processing q' = wq_processing q \<and>
          wq_dirty q \<subseteq> wq_dirty q' \<and> (wq_shuttingDown q \<longrightarrow> wq_shuttingDown q' \<and> wq_queue q' = wq_queue q \<and>
             wq_dirty q' = wq_dirty q) \<and>
          (\<forall>nn. cd_remoteSpecs cd' nn \<noteq> cd_remoteSpecs cd nn \<longrightarrow>
             nn \<in> wq_dirty q' \<or> wq_shuttingDown q')
      | _ \<Rightarrow> False)"

lemma evolves_refl: "cd_queue cd = Some q \<Longrightarrow> evolves cd cd"
  by (simp add: evolves_def)

lemma evolves_trans: "evolves a b \<Longrightarrow> evolves b c \<Longrightarrow> evolves a c"
  by (auto simp: evolves_def split: option.splits) (metis subset_iff)+

lemma evolves_enqueue:
  assumes "cd_queue cd = Some q" "cd_queue cd1 = Some q"
    and "\<And>k. k \<noteq> nn \<Longrightarrow> cd_remoteSpecs cd1 k = cd_remoteSpecs cd k"
  shows "evolves cd (cd_enqueue nn cd1)"
  using assms(3)
  by (force simp: evolves_def cd_enqueue_def wq_Add_def assms(1,2) Let_def)

lemma RecordRemote_evolves: "cd_queue cd = Some q \<Longrightarrow> evolves cd (RecordRemote nn cl se cd)"
  unfolding RecordRemote_def Let_def by (rule evolves_enqueue) auto

lemma ForgetRemote_evolves: "cd_queue cd = Some q \<Longrightarrow> evolves cd (ForgetRemote nn cl cd)"
  unfolding ForgetRemote_def Let_def by (rule evolves_enqueue) (auto split: option.split)

lemma apply_event_evolves:
  assumes "cd_queue cd = Some q"
  shows "evolves cd (apply_event e cd)"
proof (cases e)
  case (Remote re)
  then show ?thesis
    using RecordRemote_evolves [OF assms] ForgetRemote_evolves [OF assms] by (cases re) simp_all
next
  case CtxDone
  then show ?thesis using CtxDone assms by (simp add: evolves_def wq_ShutDown_def)
qed

lemma evolves_queue: "evolves cd cd' \<Longrightarrow> \<exists>q. cd_queue cd' = Some q"
  by (auto simp: evolves_def split: option.splits)

lemma fold_evolves: "cd_queue cd = Some q \<Longrightarrow> evolves cd (fold apply_event es cd)"
proof (induction es arbitrary: cd q)
  case Nil
  then show ?case by (simp add: evolves_refl)
next
  case (Cons e es)
  note first = apply_event_evolves [OF Cons.prems, of e]
  obtain q1 where "cd_queue (apply_event e cd) = Some q1" using evolves_queue [OF first] by blast
  then show ?case using evolves_trans [OF first Cons.IH] by simp
qed

lemma apply_event_inv: "cd_inv cd \<Longrightarrow> cd_inv (apply_event e cd)"
proof (cases e)
  case (Remote re)
  then show "cd_inv cd \<Longrightarrow> ?thesis"
    by (cases re) (simp_all add: cd_inv_RecordRemote cd_inv_ForgetRemote)
qed (auto simp: cd_inv_def split: option.splits)

lemma fold_inv: "cd_inv cd \<Longrightarrow> cd_inv (fold apply_event es cd)"
  by (induction es arbitrary: cd) (simp_all add: apply_event_inv)

section \<open>One round\<close>

definition loop_ready :: "detector \<Rightarrow> bool" where
  "loop_ready cd =
     (cd_inv cd \<and> (case cd_queue cd of None \<Rightarrow> False | Some q \<Rightarrow> wq_processing q = {}))"

definition seen :: "reconcile_log \<Rightarrow> namespaced_name \<Rightarrow> (string \<times> string) list option" where
  "seen log nn = (case find (\<lambda>e. fst e = nn) log of None \<Rightarrow> None | Some e \<Rightarrow> fst (snd e))"

text \<open>Every key whose entry changed since it was last reconciled is pending.\<close>

definition settled :: "detector \<Rightarrow> reconcile_log \<Rightarrow> bool" where
  "settled cd log =
     (case cd_queue cd of
        None \<Rightarrow> False
      | Some q \<Rightarrow>
          (\<forall>nn. nn \<in> wq_dirty q \<or> wq_shuttingDown q \<or> seen log nn = cd_remoteSpecs cd nn))"

lemma loop_readyD:
  "loop_ready cd \<Longrightarrow> \<exists>q. cd_queue cd = Some q \<and> wq_inv q \<and> wq_processing q = {} \<and>
     wq_dirty q = set (wq_queue q)"
  by (auto simp: loop_ready_def cd_inv_def wq_inv_def split: option.splits)

lemma seen_Cons [simp]:
  "seen ((nn, v, err) # log) k = (if k = nn then v else seen log k)"
  by (auto simp: seen_def)

lemma evolves_ready:
  "evolves cd cd' \<Longrightarrow> cd_inv cd' \<Longrightarrow> loop_ready cd \<Longrightarrow> loop_ready cd'"
  by (auto simp: evolves_def loop_ready_def split: option.splits)

lemma evolves_settled: "evolves cd cd' \<Longrightarrow> settled cd log \<Longrightarrow> settled cd' log"
  by (auto simp: evolves_def settled_def split: option.splits) (metis subset_iff)+

text \<open>After a round with an item: \<open>evolves\<close> up to that item.\<close>

lemma body_facts:
  assumes inv: "cd_inv cd" and q: "cd_queue cd = Some q" and pr: "wq_processing q = {}"
    and get: "wq_queue q = nn # rest"
    and body: "cd_body now order c r nn (cd\<lparr>cd_queue := Some (snd (wq_Get q))\<rparr>) s = (cd2, s1, entry)"
  obtains q2 new where "cd_queue cd2 = Some q2" "wq_queue q2 = rest @ new" "loop_ready cd2"
    "wq_shuttingDown q \<Longrightarrow> wq_shuttingDown q2 \<and> wq_queue q2 = rest"
    "settled cd log \<Longrightarrow> settled cd2 (entry @ log)" "fst (hd entry) = nn" "length entry = 1"
proof -
  define q1 where "q1 = snd (wq_Get q)"
  define cdg where "cdg = cd\<lparr>cd_queue := Some q1\<rparr>"
  define cdA where "cdA = fold apply_event (r_taken r) cdg"
  define cdB where "cdB = fold apply_event (r_read r) cdA"
  have q1: "wq_queue q1 = rest" "wq_processing q1 = {nn}" "wq_dirty q1 = wq_dirty q - {nn}"
      "wq_shuttingDown q1 = wq_shuttingDown q"
    using get pr by (simp_all add: q1_def wq_Get_def)
  have invg: "cd_inv cdg"
    using inv q wq_inv_Get by (auto simp: cd_inv_def cdg_def q1_def)
  have eA: "evolves cdg cdA" unfolding cdA_def by (rule fold_evolves) (simp add: cdg_def)
  then obtain qA where qA: "cd_queue cdA = Some qA" using evolves_queue by blast
  have eB: "evolves cdA cdB" unfolding cdB_def by (rule fold_evolves) (rule qA)
  then obtain qB where qB: "cd_queue cdB = Some qB" using evolves_queue by blast
  have invB: "cd_inv cdB" unfolding cdB_def cdA_def by (intro fold_inv invg)
  have b: "cd2 = cdB\<lparr>cd_queue := Some (wq_Done nn qB)\<rparr>"
      "\<exists>err. entry = [(nn, cd_remoteSpecs cdA nn, err)]"
    using body unfolding cd_body_def Let_def q1_def [symmetric] cdg_def [symmetric]
      cdA_def [symmetric] cdB_def [symmetric] qB by (auto simp: split_beta)
  have eC: "evolves cdg cdB" by (rule evolves_trans [OF eA eB])
  obtain new where new: "wq_queue qB = rest @ new" "wq_processing qB = {nn}"
      "wq_dirty q - {nn} \<subseteq> wq_dirty qB"
      "wq_shuttingDown q \<Longrightarrow> wq_shuttingDown qB \<and> new = [] \<and> wq_dirty qB = wq_dirty q - {nn}"
      "\<And>k. cd_remoteSpecs cdB k \<noteq> cd_remoteSpecs cd k \<Longrightarrow> k \<in> wq_dirty qB \<or> wq_shuttingDown qB"
    using eC qB q1 by (auto simp: evolves_def cdg_def)
  have done_sel: "wq_dirty (wq_Done nn qB) = wq_dirty qB" "wq_processing (wq_Done nn qB) = {}"
      "wq_shuttingDown (wq_Done nn qB) = wq_shuttingDown qB"
      "wq_queue (wq_Done nn qB) = rest @ new @ (if nn \<in> wq_dirty qB then [nn] else [])"
    using new by (simp_all add: wq_Done_def Let_def)
  have inv2: "cd_inv cd2"
    using invB qB wq_inv_Done [of qB nn] new(2) by (auto simp: b(1) cd_inv_def)
  show thesis
  proof (rule that [of "wq_Done nn qB" "new @ (if nn \<in> wq_dirty qB then [nn] else [])"])
    show "settled cd2 (entry @ log)" if st: "settled cd log"
    proof -
      have "k \<in> wq_dirty qB \<or> wq_shuttingDown qB \<or> seen (entry @ log) k = cd_remoteSpecs cdB k" for k
      proof (cases "k = nn")
        case True
        then show ?thesis using eB qA qB b(2) by (auto simp: evolves_def) metis
      next
        case False
        then have "seen (entry @ log) k = seen log k" using b(2) by auto
        moreover have "k \<in> wq_dirty q \<or> wq_shuttingDown q \<or> seen log k = cd_remoteSpecs cd k"
          using st q by (auto simp: settled_def)
        ultimately show ?thesis using new(3,4,5) False by (metis Diff_iff singletonD subsetD)
      qed
      then show ?thesis by (simp add: settled_def b(1) done_sel)
    qed
  qed (use b inv2 done_sel new in \<open>auto simp: loop_ready_def\<close>)
qed

text \<open>How a round goes, from a state between two rounds.\<close>

lemma cdStart_round:
  assumes ready: "loop_ready cd"
  obtains (blocked) cd1 q q1 where "evolves cd cd1" "loop_ready cd1" "cd_queue cd1 = Some q"
      "cd_queue cd = Some q1" "wq_queue q1 = []"
      "wq_queue q = []" "\<not> wq_shuttingDown q" "\<not> wq_shuttingDown q1"
      "cdStart now order c (r # rs) cd s log = cdStart now order c rs cd1 s log"
  | (stopped) cd1 q q1 where "evolves cd cd1" "loop_ready cd1" "cd_queue cd1 = Some q"
      "cd_queue cd = Some q1" "wq_queue q1 = []" "wq_queue q = []" "wq_shuttingDown q"
      "cdStart now order c (r # rs) cd s log = (Returned, cd1, s, log)"
  | (item) cd2 q1 q2 s1 nn rest err v old added where "loop_ready cd2" "cd_queue cd = Some q1"
      "cd_queue cd2 = Some q2"
      "wq_queue q1 @ old = nn # rest" "wq_queue q2 = rest @ added"
      "wq_shuttingDown q1 \<Longrightarrow> wq_shuttingDown q2 \<and> old = [] \<and> added = []"
      "settled cd log \<Longrightarrow> settled cd2 ((nn, v, err) # log)"
      "cdStart now order c (r # rs) cd s log = cdStart now order c rs cd2 s1 ((nn, v, err) # log)"
proof -
  obtain q0 where q0: "cd_queue cd = Some q0" using loop_readyD [OF ready] by blast
  define cd1 where "cd1 = fold apply_event (r_before r) cd"
  have e: "evolves cd cd1" unfolding cd1_def by (rule fold_evolves [OF q0])
  have i1: "cd_inv cd1" unfolding cd1_def using ready by (simp add: fold_inv loop_ready_def)
  have ready1: "loop_ready cd1" by (rule evolves_ready [OF e i1 ready])
  obtain q where q: "cd_queue cd1 = Some q" "wq_processing q = {}"
    using loop_readyD [OF ready1] by blast
  obtain old where old: "wq_queue q = wq_queue q0 @ old"
      "wq_shuttingDown q0 \<Longrightarrow> wq_shuttingDown q \<and> old = []"
    using e q0 q by (auto simp: evolves_def)
  have same: "cd1\<lparr>cd_queue := Some q\<rparr> = cd1" using q by simp
  show thesis
  proof (cases "wq_queue q")
    case Nil
    have sd: "wq_shuttingDown q0 \<Longrightarrow> wq_shuttingDown q" using old by simp
    show thesis
    proof (cases "wq_shuttingDown q")
      case True
      then show thesis
        using stopped [OF e ready1 q(1) q0] Nil q old
        by (simp add: cd1_def [symmetric] wq_Get_def same)
    next
      case False
      show thesis
        by (rule blocked [OF e ready1 q(1) q0])
           (use False Nil q old sd in \<open>auto simp: cd1_def [symmetric] wq_Get_def same\<close>)
    qed
  next
    case (Cons nn tl)
    obtain cd2 s1 entry where body:
        "cd_body now order c r nn (cd1\<lparr>cd_queue := Some (snd (wq_Get q))\<rparr>) s = (cd2, s1, entry)"
      by (metis prod_cases3)
    obtain q2 new where b: "cd_queue cd2 = Some q2" "wq_queue q2 = tl @ new" "loop_ready cd2"
        "wq_shuttingDown q \<Longrightarrow> wq_shuttingDown q2 \<and> wq_queue q2 = tl"
        "settled cd1 log \<Longrightarrow> settled cd2 (entry @ log)" "fst (hd entry) = nn" "length entry = 1"
      using body_facts [OF i1 q Cons body] by metis
    obtain v err where entry: "entry = [(nn, v, err)]"
      using b(6,7) by (cases entry) auto
    have g: "wq_Get q = (Item nn, snd (wq_Get q))" using Cons by (simp add: wq_Get_def)
    have run: "cdStart now order c (r # rs) cd s log = cdStart now order c rs cd2 s1 ((nn, v, err) # log)"
      using q(1) body entry
      by (simp add: cd1_def [symmetric] split_beta) (subst g, simp add: body entry)
    have tail: "wq_shuttingDown q0 \<Longrightarrow> wq_shuttingDown q2 \<and> old = [] \<and> new = []"
      using b(2,4) old(2) by auto
    have st: "settled cd log \<Longrightarrow> settled cd2 ((nn, v, err) # log)"
      using b(5) evolves_settled [OF e] entry by simp
    show thesis
      by (rule item [OF b(3) q0 b(1) _ b(2) tail st run]) (use Cons old in simp_all)
  qed
qed

section \<open>Any number of rounds\<close>

declare cdStart.simps(2) [simp del]

lemma cdStart_log:
  assumes "loop_ready cd" "cdStart now order c rs cd s log = (res, cd', s', log')"
  shows "set log \<subseteq> set log'"
  using assms
proof (induction rs arbitrary: cd s log)
  case (Cons r rs)
  from Cons.prems(1) show ?case
    by (cases rule: cdStart_round [where now = now and order = order and c = c and r = r and rs = rs
          and s = s and log = log])
       (use Cons.prems in \<open>auto dest!: Cons.IH\<close>)
qed simp

lemma cdStart_ready:
  assumes "loop_ready cd" "cdStart now order c rs cd s log = (res, cd', s', log')"
  shows "loop_ready cd' \<and> res \<noteq> NilQueue"
  using assms
proof (induction rs arbitrary: cd s log)
  case (Cons r rs)
  from Cons.prems(1) show ?case
    by (cases rule: cdStart_round [where now = now and order = order and c = c and r = r and rs = rs
          and s = s and log = log])
       (use Cons in \<open>auto dest: Cons.IH\<close>)
qed auto

lemma cdStart_settled:
  assumes "loop_ready cd" "cdStart now order c rs cd s log = (res, cd', s', log')" "settled cd log"
  shows "settled cd' log'"
  using assms
proof (induction rs arbitrary: cd s log)
  case (Cons r rs)
  from Cons.prems(1) show ?case
    by (cases rule: cdStart_round [where now = now and order = order and c = c and r = r and rs = rs
          and s = s and log = log])
       (use Cons evolves_settled in \<open>fastforce dest: Cons.IH\<close>)+
qed simp

text \<open>First in, first out: the \<open>k\<close>-th pending key is reconciled within \<open>k\<close> rounds, whatever the
  watchers do meanwhile and also during the shut down.\<close>

lemma cdStart_fifo:
  assumes "loop_ready cd" "cdStart now order c rs cd s log = (res, cd', s', log')"
    and "cd_queue cd = Some q" "nn \<in> set (take (length rs) (wq_queue q))"
  shows "nn \<in> fst ` set log'"
  using assms
proof (induction rs arbitrary: cd s log q)
  case (Cons r rs)
  from Cons.prems(1) show ?case
  proof (cases rule: cdStart_round [where now = now and order = order and c = c and r = r and rs = rs
          and s = s and log = log])
    case (item cd2 q1 q2 s1 nn1 rest err v old added)
    have q1: "q1 = q" "cdStart now order c rs cd2 s1 ((nn1, v, err) # log) = (res, cd', s', log')"
      using item Cons.prems by simp_all
    show ?thesis
    proof (cases "nn = nn1")
      case True
      then show ?thesis using cdStart_log [OF item(1) q1(2)] by force
    next
      case False
      have "nn \<in> set (take (Suc (length rs)) (wq_queue q @ old))"
        using Cons.prems(4) by (auto simp: take_append)
      also have "wq_queue q @ old = nn1 # rest" using item(4) q1(1) by simp
      finally have "nn \<in> set (take (length rs) rest)" using False by simp
      then have "nn \<in> set (take (length rs) (wq_queue q2))" using item(5) by (simp add: take_append)
      then show ?thesis using Cons.IH [OF item(1) q1(2) item(3)] by simp
    qed
  qed (use Cons.prems in auto)
qed simp

text \<open>Once the queue is shut down the loop drains it and returns.\<close>

lemma cdStart_returns:
  assumes "loop_ready cd" "cdStart now order c rs cd s log = (res, cd', s', log')"
    and "cd_queue cd = Some q" "wq_shuttingDown q" "length (wq_queue q) < length rs"
  shows "res = Returned"
  using assms
proof (induction rs arbitrary: cd s log q)
  case (Cons r rs)
  from Cons.prems(1) show ?case
  proof (cases rule: cdStart_round [where now = now and order = order and c = c and r = r and rs = rs
          and s = s and log = log])
    case (item cd2 q1 q2 s1 nn1 rest err v old added)
    then have q1: "q1 = q" "cdStart now order c rs cd2 s1 ((nn1, v, err) # log) = (res, cd', s', log')"
      using Cons.prems by simp_all
    then have "wq_shuttingDown q2" "length (wq_queue q2) < length rs"
      using item(4,5,6) Cons.prems(4,5) by auto
    then show ?thesis using Cons.IH [OF item(1) q1(2) item(3)] by simp
  qed (use Cons.prems in auto)
qed simp

section \<open>The detectors \<open>Start\<close> runs on\<close>

text \<open>What a detector can be between two rounds: set up, then any events and any rounds.\<close>

inductive between_rounds :: "'st client \<Rightarrow> detector \<Rightarrow> bool" for c where
  set_up: "between_rounds c (snd (cdSetupWithManager None None NewConflictDetector))"
| event: "between_rounds c cd \<Longrightarrow> between_rounds c (apply_event e cd)"
| round: "between_rounds c cd \<Longrightarrow> cdStart now order c [r] cd s log = (res, cd', s', log') \<Longrightarrow>
    between_rounds c cd'"

lemma setup_ready [simp]:
  "loop_ready (snd (cdSetupWithManager None None NewConflictDetector))"
  "settled (snd (cdSetupWithManager None None NewConflictDetector)) []"
  by (simp_all add: cdSetupWithManager_def Let_def loop_ready_def cd_inv_def NewConflictDetector_def
      newQueue_def wq_inv_def settled_def seen_def)

lemma event_ready: "loop_ready cd \<Longrightarrow> loop_ready (apply_event e cd)"
  using loop_readyD [of cd] evolves_ready [OF apply_event_evolves apply_event_inv]
  by (auto simp: loop_ready_def)

lemma between_rounds_ready: "between_rounds c cd \<Longrightarrow> loop_ready cd"
  by (induction rule: between_rounds.induct) (auto simp: event_ready dest: cdStart_ready)

section \<open>Properties\<close>

text \<open>C39. With a current cache and an API that answers, one \<open>Reconcile\<close> of the detector returns no
  error and leaves the export with the Conflict condition of the verdict, and every condition of
  another type, the annotations and the metadata as they were.\<close>

theorem cdReconcile_sets_condition:
  assumes api: "cluster_api c ex ex' sv sv' im im' sl sl' up"
    and up: "up s" and cur: "ex' s nn = ex s nn" and se: "ex s nn = Some se"
    and verdict: "detectConflict order cd nn se = (conflict, reason, msg)"
  shows "fst (cdReconcile now order c cd nn s) = None \<and>
    (\<exists>cs. ex (snd (cdReconcile now order c cd nn s)) nn = Some (se\<lparr>se_Conditions := cs\<rparr>) \<and>
       cond_map cs = (cond_map (se_Conditions se))(ServiceExportConditionConflict \<mapsto>
         newCondition now ServiceExportConditionConflict
           (if conflict then ConditionTrue else ConditionFalse) reason msg) \<and>
       (conds_ok (se_Conditions se) \<longrightarrow> conds_ok cs))"
proof -
  let ?c = "newCondition now ServiceExportConditionConflict
      (if conflict then ConditionTrue else ConditionFalse) reason msg"
  have r: "fst (cdReconcile now order c cd nn s) = None" "ex (snd (cdReconcile now order c cd nn s)) nn =
      Some (se\<lparr>se_Conditions := setCondition (se_Conditions se) ?c\<rparr>)"
    using cluster_api.cdReconcile_current [OF api up cur se, of now order cd] verdict by simp_all
  have "cond_map (setCondition (se_Conditions se) ?c) =
      (cond_map (se_Conditions se))(ServiceExportConditionConflict \<mapsto> ?c)"
    by (simp only: cond_map_setCondition newCondition_sel)
  with r show ?thesis by (intro conjI exI [of _ "setCondition (se_Conditions se) ?c"]) auto
qed

theorem cdReconcile_sets_condition_witness:
  "map_option (\<lambda>se. map c_Reason (se_Conditions se))
     (v_Exports (snd (cdReconcile 7 id mem_client NewConflictDetector web
       (mem_with None (Some web_export)))) web) = Some [ServiceExportReasonNoConflicts]"
proof -
  have d: "detectConflict id NewConflictDetector web web_export =
      (False, ServiceExportReasonNoConflicts, ''no remote exports observed'')"
    by (simp add: detectConflict_def NewConflictDetector_def)
  obtain cs where cs: "v_Exports (snd (cdReconcile 7 id mem_client NewConflictDetector web
        (mem_with None (Some web_export)))) web = Some (web_export\<lparr>se_Conditions := cs\<rparr>)"
      "cond_map cs = [ServiceExportConditionConflict \<mapsto>
        newCondition 7 ServiceExportConditionConflict ConditionFalse ServiceExportReasonNoConflicts
          ''no remote exports observed'']" "conds_ok cs"
    using cdReconcile_sets_condition [OF mem_cluster_api _ _ _ d, of "mem_with None (Some web_export)" 7]
    by (auto simp: conds_ok_def fun_eq_iff)
  show ?thesis using cs(1) by (simp add: cond_map_single [OF cs(2,3)])
qed

text \<open>Whatever the cache holds and whichever calls fail, \<open>Reconcile\<close> of the detector changes at
  most the export named by the request, creates and deletes none, and changes no object of another
  kind; a failed read of the export is returned and writes nothing.\<close>

theorem cdReconcile_touches_one:
  assumes "cluster_api c ex ex' sv sv' im im' sl sl' up"
  shows "(\<forall>k. k \<noteq> nn \<longrightarrow> ex (snd (cdReconcile now order c cd nn s)) k = ex s k) \<and>
    dom (ex (snd (cdReconcile now order c cd nn s))) = dom (ex s) \<and>
    sv (snd (cdReconcile now order c cd nn s)) = sv s \<and>
    im (snd (cdReconcile now order c cd nn s)) = im s \<and>
    sl (snd (cdReconcile now order c cd nn s)) = sl s \<and>
    (\<forall>e. fst (cl_Get (cl_Exports c) nn s) = Inl e \<longrightarrow>
       fst (cdReconcile now order c cd nn s) = ignoreNotFound e \<and>
       ex (snd (cdReconcile now order c cd nn s)) = ex s)"
  using cluster_api.cdReconcile_only [OF assms, of nn s now order cd]
    cluster_api.cdReconcile_dom [OF assms] cluster_api.cdReconcile_read_error [OF assms]
  by (simp add: only_at_def)

theorem cdReconcile_touches_one_witness:
  "v_Exports (snd (cdReconcile 7 id mem_client NewConflictDetector web empty_mem)) = Map.empty"
  using cdReconcile_touches_one [OF mem_cluster_api, of web 7 id NewConflictDetector empty_mem]
  by (simp add: empty_mem_def)

text \<open>C17. No update is lost: run the loop from a detector just set up, for any number of rounds, with
  any watchers' events and the shut down at any point of each round. Every service whose entry
  of the table differs from the one its newest reconcile read is still pending in the queue, unless
  the queue was shut down; in particular, once the queue is empty every verdict written was computed
  from the table as it is.\<close>

theorem start_loses_no_update:
  "case cdStart now order c rounds (snd (cdSetupWithManager None None NewConflictDetector)) s [] of
     (res, cd, s', log) \<Rightarrow>
       res \<noteq> NilQueue \<and> (\<exists>q. cd_queue cd = Some q \<and> wq_dirty q = set (wq_queue q) \<and>
         (\<forall>nn. nn \<in> wq_dirty q \<or> wq_shuttingDown q \<or> seen log nn = cd_remoteSpecs cd nn))"
proof -
  obtain res cd s' log where r: "cdStart now order c rounds
      (snd (cdSetupWithManager None None NewConflictDetector)) s [] = (res, cd, s', log)"
    by (metis prod_cases4)
  have "settled cd log" by (rule cdStart_settled [OF setup_ready(1) r setup_ready(2)])
  then show ?thesis
    using cdStart_ready [OF setup_ready(1) r] loop_readyD [of cd] by (auto simp: r settled_def)
qed

text \<open>C22. First in, first out: between two rounds, the keys queued are all reconciled within as many
  rounds as there are keys, whatever is recorded, forgotten or shut down meanwhile.\<close>

theorem start_reconciles_pending:
  assumes "between_rounds c cd" "cd_queue cd = Some q" "length (wq_queue q) \<le> length rounds"
    and "cdStart now order c rounds cd s log = (res, cd', s', log')"
  shows "set (wq_queue q) \<subseteq> fst ` set log'"
  using cdStart_fifo [OF between_rounds_ready [OF assms(1)] assms(4,2)] assms(3) by auto

definition idle_round :: loop_round where
  "idle_round = \<lparr>r_before = [], r_taken = [], r_read = []\<rparr>"

theorem start_reconciles_pending_witness:
  "web \<in> fst ` set (snd (snd (snd (cdStart 7 id mem_client [idle_round]
     (apply_event (Remote (Recorded web ''b'' web_export))
       (snd (cdSetupWithManager None None NewConflictDetector))) empty_mem []))))"
proof -
  let ?cd = "apply_event (Remote (Recorded web ''b'' web_export))
       (snd (cdSetupWithManager None None NewConflictDetector))"
  have q: "cd_queue ?cd = Some (wq_Add web newQueue)"
    by (simp add: cdSetupWithManager_def Let_def RecordRemote_def cd_enqueue_def)
  have l: "wq_queue (wq_Add web newQueue) = [web]" by (simp add: wq_Add_def newQueue_def)
  have b: "between_rounds mem_client ?cd" by (intro between_rounds.intros)
  show ?thesis
    using start_reconciles_pending [OF b q, of "[idle_round]" 7 id empty_mem "[]"]
    by (cases "cdStart 7 id mem_client [idle_round] ?cd empty_mem []") (auto simp: l)
qed

text \<open>C23. Termination: once the context is done, \<open>Start\<close> returns after the keys that are queued are
  drained, however many events still come; no key can be added any more.\<close>

theorem start_returns:
  assumes "between_rounds c cd" "cd_queue cd = Some q" "wq_shuttingDown q"
    and "length (wq_queue q) < length rounds"
  shows "fst (cdStart now order c rounds cd s log) = Returned"
  using cdStart_returns [OF between_rounds_ready [OF assms(1)] _ assms(2-4)]
  by (metis prod_cases4 fst_conv)

theorem start_returns_witness:
  "fst (cdStart 7 id mem_client [idle_round, idle_round]
     (apply_event CtxDone (apply_event (Remote (Recorded web ''b'' web_export))
       (snd (cdSetupWithManager None None NewConflictDetector)))) empty_mem []) = Returned"
proof -
  let ?cd = "apply_event (Remote (Recorded web ''b'' web_export))
       (snd (cdSetupWithManager None None NewConflictDetector))"
  have q: "cd_queue (apply_event CtxDone ?cd) = Some (wq_ShutDown (wq_Add web newQueue))"
    by (simp add: cdSetupWithManager_def Let_def RecordRemote_def cd_enqueue_def)
  show ?thesis
    by (rule start_returns [OF between_rounds.event [OF between_rounds.event [OF between_rounds.set_up]] q])
       (simp_all add: wq_ShutDown_def wq_Add_def newQueue_def)
qed

text \<open>A reconcile that fails is dropped: the detector after the body of the loop, its queue
  included, is the same whatever the API answered, so a conflict whose status patch failed is
  written only when the next event of that service arrives.\<close>

theorem failed_reconcile_not_retried:
  "fst (cd_body now order c r nn cd s) = fst (cd_body now' order' c' r nn cd s')"
  by (simp add: cd_body_def Let_def split_beta)

text \<open>Two writers of one list: a status patch replaces the whole list of conditions, without a lock
  on the version it was made from. When the detector reconciles from a cache that still holds an
  older export, the Valid condition goes back to what the cache had, whatever the validator wrote
  on the server since.\<close>

theorem stale_cache_loses_condition:
  assumes api: "cluster_api c ex ex' sv sv' im im' sl sl' up"
    and up: "up s" and cached: "ex' s nn = Some se0" and stored: "ex s nn = Some se1"
    and no_conflict: "cond_map (se_Conditions se0) ServiceExportConditionConflict = None"
  shows "\<exists>cs. ex (snd (cdReconcile now order c cd nn s)) nn = Some (se1\<lparr>se_Conditions := cs\<rparr>) \<and>
    cond_map cs ServiceExportConditionValid = cond_map (se_Conditions se0) ServiceExportConditionValid"
  using cluster_api.cdReconcile_stale [OF api up cached stored no_conflict] by blast

theorem stale_cache_loses_condition_witness:
  "map_option (\<lambda>se. cond_map (se_Conditions se) ServiceExportConditionValid)
     (v_Exports (snd (cdReconcile 7 id mem_client NewConflictDetector web
       ((mem_with None (Some web_export))\<lparr>m_Exports := [web \<mapsto> web_export\<lparr>se_Conditions :=
          [newCondition 5 ServiceExportConditionValid ConditionTrue ServiceExportReasonValid []]\<rparr>]\<rparr>))) web) =
   Some None"
proof -
  let ?se1 = "web_export\<lparr>se_Conditions :=
          [newCondition 5 ServiceExportConditionValid ConditionTrue ServiceExportReasonValid []]\<rparr>"
  let ?s = "(mem_with None (Some web_export))\<lparr>m_Exports := [web \<mapsto> ?se1]\<rparr>"
  have k: "se_key ?se1 = web" using web_keys(1) by (simp add: se_key_def)
  have s: "m_up ?s" "vc_Exports ?s web = Some web_export" "v_Exports ?s web = Some ?se1"
    using k by (simp_all add: mem_with_def sync_def empty_mem_def m_up_def keyed_def)
  obtain cs where "v_Exports (snd (cdReconcile 7 id mem_client NewConflictDetector web ?s)) web =
      Some (?se1\<lparr>se_Conditions := cs\<rparr>)" "cond_map cs ServiceExportConditionValid = None"
    using stale_cache_loses_condition [OF mem_cluster_api s, of 7 id NewConflictDetector]
    by (metis cond_map.simps(1) web_export_sel(1))
  then show ?thesis by (simp only: option.map) simp
qed

end
