(* ===== verification/Watcher.thy ===== *)
theory Watcher
  imports Conflict
begin

text \<open>
  \<open>pkg/controller/watcher.go\<close>: a watcher of one remote emitter. Its handlers run on the events of
  two informers and mirror what they see: a ServiceExport to a ServiceImport of the same key, an
  EndpointSlice to an EndpointSlice under a derived name.
  A handler returns nothing in Go; here it returns the line it logs, if any, the detector it shares
  with the other watchers, and the state behind the client. The conversion of unstructured objects
  belongs to \<open>apimachinery\<close>, so \<open>fromSE\<close> and \<open>fromES\<close> are arguments.
\<close>

section \<open>State and inputs\<close>

record watcher =
  w_clusterID :: string
  w_remoteID :: string
  w_namespace :: string
  w_selector :: string

definition NewWatcher :: "string \<Rightarrow> string \<Rightarrow> string \<Rightarrow> string \<Rightarrow> watcher" where
  "NewWatcher clusterID remoteID namespace selector =
     \<lparr>w_clusterID = clusterID, w_remoteID = remoteID, w_namespace = namespace,
      w_selector = selector\<rparr>"

text \<open>What an informer hands to a handler, by its dynamic type.\<close>

datatype 'u informer_obj =
  Unstructured 'u
| DeletedFinalStateUnknown string "'u informer_obj"
| OtherObj

datatype log_line = Info string | Error go_error string

definition toServiceExport ::
  "('u \<Rightarrow> service_export option) \<Rightarrow> 'u informer_obj \<Rightarrow> service_export option" where
  "toServiceExport fromSE obj = (case obj of Unstructured u \<Rightarrow> fromSE u | _ \<Rightarrow> None)"

definition toEndpointSlice ::
  "('u \<Rightarrow> endpoint_slice option) \<Rightarrow> 'u informer_obj \<Rightarrow> endpoint_slice option" where
  "toEndpointSlice fromES obj = (case obj of Unstructured u \<Rightarrow> fromES u | _ \<Rightarrow> None)"

text \<open>The delete handlers also look into a tombstone, one level deep.\<close>

definition deleted_obj :: "('u informer_obj \<Rightarrow> 'o option) \<Rightarrow> 'u informer_obj \<Rightarrow> 'o option" where
  "deleted_obj conv obj =
     (case conv obj of
        Some ob \<Rightarrow> Some ob
      | None \<Rightarrow> (case obj of DeletedFinalStateUnknown _ inner \<Rightarrow> conv inner | _ \<Rightarrow> None))"

section \<open>Reading the metadata of an export\<close>

record import_spec =
  x_Type :: string
  x_Ports :: "mcs_port slice"
  x_SessionAffinity :: string
  x_SessionAffinityConfig :: "session_affinity_config option"
  x_IPFamilies :: "string slice"

definition read_ports :: "strmap \<Rightarrow> mcs_port slice go_result" where
  "read_ports ann =
     (case ann AnnotationServicePorts of
        None \<Rightarrow> Inr None
      | Some raw \<Rightarrow>
          (case json_Unmarshal (dec_slice (dec_struct set_mcs_port) zero_mcs_port) None raw of
             None \<Rightarrow> Inl (Wrapf ''unmarshalling service ports'' JsonError)
           | Some ports \<Rightarrow> Inr ports))"

definition read_sac :: "strmap \<Rightarrow> session_affinity_config option go_result" where
  "read_sac ann =
     (case ann AnnotationSessionAffinityConfig of
        None \<Rightarrow> Inr None
      | Some raw \<Rightarrow>
          if raw = '''' then Inr None
          else
            (case json_Unmarshal (dec_struct set_sac) zero_sac raw of
               None \<Rightarrow> Inl (Wrapf ''unmarshalling session affinity config'' JsonError)
             | Some sac \<Rightarrow> Inr (Some sac)))"

definition read_families :: "strmap \<Rightarrow> string slice go_result" where
  "read_families ann =
     (case ann AnnotationIPFamilies of
        None \<Rightarrow> Inr None
      | Some raw \<Rightarrow>
          (case json_Unmarshal (dec_slice dec_string '''') None raw of
             None \<Rightarrow> Inl (Wrapf ''unmarshalling ip families'' JsonError)
           | Some fs \<Rightarrow> Inr fs))"

definition extractAnnotations :: "service_export \<Rightarrow> import_spec go_result" where
  "extractAnnotations se =
     (case om_Annotations (se_meta se) of
        None \<Rightarrow> Inl (Errorf (''ServiceExport '' @ om_Namespace (se_meta se) @ ''/'' @
                  om_Name (se_meta se) @ '' has no annotations; not yet validated''))
      | Some ann \<Rightarrow>
          (let siType = get0 ann AnnotationServiceType
           in if siType = ''''
              then Inl (Errorf (''ServiceExport '' @ om_Namespace (se_meta se) @ ''/'' @
                     om_Name (se_meta se) @ '' missing '' @ AnnotationServiceType @ '' annotation''))
              else
                (case read_ports ann of
                   Inl e \<Rightarrow> Inl e
                 | Inr ports \<Rightarrow>
                     (case read_sac ann of
                        Inl e \<Rightarrow> Inl e
                      | Inr sac \<Rightarrow>
                          (case read_families ann of
                             Inl e \<Rightarrow> Inl e
                           | Inr families \<Rightarrow>
                               Inr \<lparr>x_Type = siType, x_Ports = ports,
                                 x_SessionAffinity = get0 ann AnnotationSessionAffinity,
                                 x_SessionAffinityConfig = sac, x_IPFamilies = families\<rparr>)))))"

section \<open>ServiceExports\<close>

definition new_import :: "service_export \<Rightarrow> import_spec \<Rightarrow> service_import" where
  "new_import se x =
     \<lparr>si_meta = empty_meta\<lparr>om_Name := om_Name (se_meta se), om_Namespace := om_Namespace (se_meta se)\<rparr>,
      si_Ports = x_Ports x, si_IPs = None, si_Type = x_Type x,
      si_SessionAffinity = x_SessionAffinity x,
      si_SessionAffinityConfig = x_SessionAffinityConfig x, si_IPFamilies = x_IPFamilies x,
      si_InternalTrafficPolicy = None, si_TrafficDistribution = None, si_Clusters = [],
      si_Conditions = []\<rparr>"

definition update_import :: "import_spec \<Rightarrow> service_import \<Rightarrow> service_import" where
  "update_import x si =
     si\<lparr>si_Type := x_Type x, si_Ports := x_Ports x, si_SessionAffinity := x_SessionAffinity x,
       si_SessionAffinityConfig := x_SessionAffinityConfig x, si_IPFamilies := x_IPFamilies x\<rparr>"

definition reconcile_import ::
  "'st client \<Rightarrow> service_export \<Rightarrow> 'st \<Rightarrow> log_line option \<times> 'st" where
  "reconcile_import c se s =
     (case extractAnnotations se of
        Inl err \<Rightarrow>
          (Some (Error err ''failed to extract service metadata from ServiceExport annotations; skipping''), s)
      | Inr x \<Rightarrow>
          (case cl_Get (cl_Imports c) (se_key se) s of
             (Inl err, s1) \<Rightarrow>
               (if \<not> isNotFound err
                then (Some (Error err ''failed to get local ServiceImport''), s1)
                else
                  (case cl_Create (cl_Imports c) (new_import se x) s1 of
                     (Some createErr, s2) \<Rightarrow>
                       (Some (Error createErr ''failed to create ServiceImport''), s2)
                   | (None, s2) \<Rightarrow> (Some (Info ''created ServiceImport''), s2)))
           | (Inr si, s1) \<Rightarrow>
               (case cl_Patch (cl_Imports c) (update_import x si) si s1 of
                  (Some patchErr, s2) \<Rightarrow>
                    (Some (Error patchErr ''failed to patch ServiceImport''), s2)
                | (None, s2) \<Rightarrow> (Some (Info ''updated ServiceImport''), s2))))"

text \<open>The detector is told first, also of an export that turns out not to be usable.\<close>

definition onServiceExportAdd ::
  "watcher \<Rightarrow> ('u \<Rightarrow> service_export option) \<Rightarrow> 'st client \<Rightarrow> 'u informer_obj \<Rightarrow>
   detector option \<Rightarrow> 'st \<Rightarrow> log_line option \<times> detector option \<times> 'st" where
  "onServiceExportAdd w fromSE c obj cd s =
     (case toServiceExport fromSE obj of
        None \<Rightarrow> (None, cd, s)
      | Some se \<Rightarrow>
          (let cd1 = map_option (RecordRemote (se_key se) (w_remoteID w) se) cd;
               (line, s1) = reconcile_import c se s
           in (line, cd1, s1)))"

definition delete_import ::
  "'st client \<Rightarrow> namespaced_name \<Rightarrow> 'st \<Rightarrow> log_line option \<times> 'st" where
  "delete_import c nn s =
     (case cl_Get (cl_Imports c) nn s of
        (Inl err, s1) \<Rightarrow>
          (if isNotFound err then (None, s1)
           else (Some (Error err ''failed to get local ServiceImport for deletion''), s1))
      | (Inr si, s1) \<Rightarrow>
          (case cl_Delete (cl_Imports c) si s1 of
             (Some err, s2) \<Rightarrow>
               (if \<not> isNotFound err
                then (Some (Error err ''failed to delete local ServiceImport''), s2)
                else (Some (Info ''deleted ServiceImport''), s2))
           | (None, s2) \<Rightarrow> (Some (Info ''deleted ServiceImport''), s2)))"

definition onServiceExportDelete ::
  "watcher \<Rightarrow> ('u \<Rightarrow> service_export option) \<Rightarrow> 'st client \<Rightarrow> 'u informer_obj \<Rightarrow>
   detector option \<Rightarrow> 'st \<Rightarrow> log_line option \<times> detector option \<times> 'st" where
  "onServiceExportDelete w fromSE c obj cd s =
     (case deleted_obj (toServiceExport fromSE) obj of
        None \<Rightarrow> (None, cd, s)
      | Some se \<Rightarrow>
          (let cd1 = map_option (ForgetRemote (se_key se) (w_remoteID w)) cd;
               (line, s1) = delete_import c (se_key se) s
           in (line, cd1, s1)))"

section \<open>EndpointSlices\<close>

definition localEndpointSliceName :: "string \<Rightarrow> string \<Rightarrow> string" where
  "localEndpointSliceName remoteID remoteName =
     (let name = remoteID @ ''-'' @ remoteName
      in if 63 < length name then take 63 name else name)"

definition mirror_labels :: "watcher \<Rightarrow> string \<Rightarrow> strmap" where
  "mirror_labels w owner =
     [LabelServiceName \<mapsto> owner, LabelManagedBy \<mapsto> ''service-reflector'',
      LabelSourceCluster \<mapsto> w_remoteID w]"

definition mirror_key :: "watcher \<Rightarrow> endpoint_slice \<Rightarrow> namespaced_name" where
  "mirror_key w es = NamespacedName (om_Namespace (es_meta es))
     (localEndpointSliceName (w_remoteID w) (om_Name (es_meta es)))"

definition desired_slice :: "watcher \<Rightarrow> endpoint_slice \<Rightarrow> namespaced_name \<Rightarrow> endpoint_slice" where
  "desired_slice w es owner =
     \<lparr>es_meta = empty_meta\<lparr>om_Name := localEndpointSliceName (w_remoteID w) (om_Name (es_meta es)),
        om_Namespace := om_Namespace (es_meta es), om_Labels := mirror_labels w (Name owner)\<rparr>,
      es_AddressType = es_AddressType es, es_Endpoints = es_Endpoints es, es_Ports = es_Ports es\<rparr>"

definition update_slice :: "endpoint_slice \<Rightarrow> endpoint_slice \<Rightarrow> endpoint_slice" where
  "update_slice desired local_es =
     local_es\<lparr>es_AddressType := es_AddressType desired, es_Endpoints := es_Endpoints desired,
       es_Ports := es_Ports desired,
       es_meta := (es_meta local_es)\<lparr>om_Labels := om_Labels (es_meta desired)\<rparr>\<rparr>"

definition onEndpointSliceAdd ::
  "watcher \<Rightarrow> ('u \<Rightarrow> endpoint_slice option) \<Rightarrow> 'st client \<Rightarrow> 'u informer_obj \<Rightarrow> 'st \<Rightarrow>
   log_line option \<times> 'st" where
  "onEndpointSliceAdd w fromES c obj s =
     (case toEndpointSlice fromES obj of
        None \<Rightarrow> (None, s)
      | Some remoteES \<Rightarrow>
          if localShouldIgnoreEndpointSlice remoteES then (None, s)
          else
            (case localServiceImportOwner remoteES of
               None \<Rightarrow> (None, s)
             | Some owner \<Rightarrow>
                 (let desired = desired_slice w remoteES owner
                  in (case cl_Get (cl_Slices c) (mirror_key w remoteES) s of
                        (Inl err, s1) \<Rightarrow>
                          (if \<not> isNotFound err
                           then (Some (Error err ''failed to get local EndpointSlice''), s1)
                           else
                             (case cl_Create (cl_Slices c) desired s1 of
                                (Some createErr, s2) \<Rightarrow>
                                  (Some (Error createErr ''failed to create local EndpointSlice''), s2)
                              | (None, s2) \<Rightarrow> (Some (Info ''created local EndpointSlice''), s2)))
                      | (Inr localES, s1) \<Rightarrow>
                          (case cl_Patch (cl_Slices c) (update_slice desired localES) localES s1 of
                             (Some patchErr, s2) \<Rightarrow>
                               (Some (Error patchErr ''failed to patch local EndpointSlice''), s2)
                           | (None, s2) \<Rightarrow> (Some (Info ''updated local EndpointSlice''), s2))))))"

definition onEndpointSliceDelete ::
  "watcher \<Rightarrow> ('u \<Rightarrow> endpoint_slice option) \<Rightarrow> 'st client \<Rightarrow> 'u informer_obj \<Rightarrow> 'st \<Rightarrow>
   log_line option \<times> 'st" where
  "onEndpointSliceDelete w fromES c obj s =
     (case deleted_obj (toEndpointSlice fromES) obj of
        None \<Rightarrow> (None, s)
      | Some remoteES \<Rightarrow>
          (case cl_Get (cl_Slices c) (mirror_key w remoteES) s of
             (Inl err, s1) \<Rightarrow>
               (if isNotFound err then (None, s1)
                else (Some (Error err ''failed to get local EndpointSlice for deletion''), s1))
           | (Inr localES, s1) \<Rightarrow>
               (case cl_Delete (cl_Slices c) localES s1 of
                  (Some err, s2) \<Rightarrow>
                    (if \<not> isNotFound err
                     then (Some (Error err ''failed to delete local EndpointSlice''), s2)
                     else (Some (Info ''deleted local EndpointSlice''), s2))
                | (None, s2) \<Rightarrow> (Some (Info ''deleted local EndpointSlice''), s2))))"

section \<open>What the writes are\<close>

text \<open>The part of a ServiceImport that mirrors an export, and the part of an EndpointSlice that
  mirrors another.\<close>

definition import_view :: "service_import \<Rightarrow> import_spec" where
  "import_view si =
     \<lparr>x_Type = si_Type si, x_Ports = si_Ports si, x_SessionAffinity = si_SessionAffinity si,
      x_SessionAffinityConfig = si_SessionAffinityConfig si, x_IPFamilies = si_IPFamilies si\<rparr>"

type_synonym slice_view = "strmap \<times> string \<times> endpoint slice \<times> endpoint_port slice"

definition slice_view :: "endpoint_slice \<Rightarrow> slice_view" where
  "slice_view es = (om_Labels (es_meta es), es_AddressType es, es_Endpoints es, es_Ports es)"

lemma new_import_facts [simp]:
  "si_key (new_import se x) = se_key se" "import_view (new_import se x) = x"
  by (simp_all add: new_import_def import_view_def si_key_def se_key_def om_key_def)

lemma update_import_facts [simp]:
  "si_key (update_import x si) = si_key si" "import_view (update_import x si) = x"
  "si_merge si (update_import x si) si = update_import x si"
  "si_meta (update_import x si) = si_meta si" "si_IPs (update_import x si) = si_IPs si"
  "si_Clusters (update_import x si) = si_Clusters si"
  "si_Conditions (update_import x si) = si_Conditions si"
  by (simp_all add: update_import_def import_view_def si_key_def si_merge_self)

lemma update_slice_facts [simp]:
  "es_key (update_slice d l) = es_key l" "slice_view (update_slice d l) = slice_view d"
  by (simp_all add: update_slice_def es_key_def om_key_def slice_view_def)

lemma desired_slice_key [simp]: "es_key (desired_slice w es owner) = mirror_key w es"
  by (simp add: desired_slice_def es_key_def om_key_def mirror_key_def)

section \<open>Behaviour under the laws of the API\<close>

context cluster_api
begin

abbreviation rest_of_imports where "rest_of_imports s \<equiv> (ex s, sv s, sl s)"
abbreviation rest_of_slices where "rest_of_slices s \<equiv> (ex s, sv s, im s)"

lemma only_import:
  "only_at im rest_of_imports nn s (snd (cl_Get (cl_Imports c) nn s))"
  "si_key ob = nn \<Longrightarrow> only_at im rest_of_imports nn s (snd (cl_Create (cl_Imports c) ob s))"
  "si_key ob = nn \<Longrightarrow> only_at im rest_of_imports nn s (snd (cl_Patch (cl_Imports c) ob b s))"
  "si_key ob = nn \<Longrightarrow> only_at im rest_of_imports nn s (snd (cl_Delete (cl_Imports c) ob s))"
  using imps.write_frames by (simp_all add: only_at_def cluster_frames imps.call_frames)

lemma only_slice:
  "only_at sl rest_of_slices nn s (snd (cl_Get (cl_Slices c) nn s))"
  "es_key ob = nn \<Longrightarrow> only_at sl rest_of_slices nn s (snd (cl_Create (cl_Slices c) ob s))"
  "es_key ob = nn \<Longrightarrow> only_at sl rest_of_slices nn s (snd (cl_Patch (cl_Slices c) ob b s))"
  "es_key ob = nn \<Longrightarrow> only_at sl rest_of_slices nn s (snd (cl_Delete (cl_Slices c) ob s))"
  using slcs.write_frames by (simp_all add: only_at_def cluster_frames slcs.call_frames)

lemma Get_import_key: "fst (cl_Get (cl_Imports c) nn s) = Inr si \<Longrightarrow> si_key si = nn"
  using imps.Get_found imps.cached_key by blast

lemma Get_slice_key: "fst (cl_Get (cl_Slices c) nn s) = Inr es \<Longrightarrow> es_key es = nn"
  using slcs.Get_found slcs.cached_key by blast

lemmas then_import = only_at_trans [OF only_import(1)]
lemmas then_slice = only_at_trans [OF only_slice(1)]

lemma only_at_refl [simp]: "only_at view others nn s s"
  by (simp add: only_at_def)

lemma reconcile_import_only:
  "only_at im rest_of_imports (se_key se) s (snd (reconcile_import c se s))"
  using only_import(1) then_import [OF only_import(2)] then_import [OF only_import(3)] Get_import_key
  by (auto simp: reconcile_import_def split_beta split: sum.split option.split)

lemma delete_import_only: "only_at im rest_of_imports nn s (snd (delete_import c nn s))"
  using only_import(1) then_import [OF only_import(4)] Get_import_key
  by (auto simp: delete_import_def split_beta split: sum.split option.split)

lemma onEndpointSliceAdd_only:
  assumes "toEndpointSlice fromES obj = Some es"
  shows "only_at sl rest_of_slices (mirror_key w es) s (snd (onEndpointSliceAdd w fromES c obj s))"
  using only_slice(1) then_slice [OF only_slice(2)] then_slice [OF only_slice(3)] Get_slice_key
  by (auto simp: onEndpointSliceAdd_def assms split_beta Let_def split: sum.split option.split)

lemma onEndpointSliceDelete_only:
  assumes "deleted_obj (toEndpointSlice fromES) obj = Some es"
  shows "only_at sl rest_of_slices (mirror_key w es) s (snd (onEndpointSliceDelete w fromES c obj s))"
  using only_slice(1) then_slice [OF only_slice(4)] Get_slice_key
  by (auto simp: onEndpointSliceDelete_def assms split_beta split: sum.split option.split)

text \<open>With a current cache and calls that go through.\<close>

lemma up_imports:
  assumes "up s"
  shows "up (snd (cl_Get (cl_Imports c) k s))" "up (snd (cl_Create (cl_Imports c) ob s))"
    "up (snd (cl_Patch (cl_Imports c) ob b s))" "up (snd (cl_Delete (cl_Imports c) ob s))"
  using imps.up_after assms by blast+

lemma up_slices:
  assumes "up s"
  shows "up (snd (cl_Get (cl_Slices c) k s))" "up (snd (cl_Create (cl_Slices c) ob s))"
    "up (snd (cl_Patch (cl_Slices c) ob b s))" "up (snd (cl_Delete (cl_Slices c) ob s))"
  using slcs.up_after assms by blast+

lemma reconcile_import_live:
  assumes up: "up s" and cur: "im' s (se_key se) = im s (se_key se)"
    and x: "extractAnnotations se = Inr x"
  shows "im (snd (reconcile_import c se s)) = (im s)(se_key se \<mapsto>
      (case im s (se_key se) of None \<Rightarrow> new_import se x | Some si \<Rightarrow> update_import x si))"
    and "fst (reconcile_import c se s) = Some (Info
      (case im s (se_key se) of None \<Rightarrow> ''created ServiceImport'' | Some _ \<Rightarrow> ''updated ServiceImport''))"
    and "up (snd (reconcile_import c se s))"
proof -
  define nn where "nn = se_key se"
  define s1 where "s1 = snd (cl_Get (cl_Imports c) nn s)"
  have s1: "up s1" "im s1 = im s"
    unfolding s1_def using up_imports(1) [OF up] imps.call_frames by auto
  have "im (snd (reconcile_import c se s)) = (im s)(nn \<mapsto>
        (case im s nn of None \<Rightarrow> new_import se x | Some si \<Rightarrow> update_import x si)) \<and>
      fst (reconcile_import c se s) = Some (Info
        (case im s nn of None \<Rightarrow> ''created ServiceImport'' | Some _ \<Rightarrow> ''updated ServiceImport'')) \<and>
      up (snd (reconcile_import c se s))"
  proof (cases "im s nn")
    case None
    have g: "fst (cl_Get (cl_Imports c) nn s) = Inl (ApiError ReasonNotFound)"
      using imps.up_Get [OF up] cur None by (simp add: nn_def)
    have cr: "fst (cl_Create (cl_Imports c) (new_import se x) s1) = None"
      by (rule imps.up_Create) (simp_all add: s1 None nn_def [symmetric])
    show ?thesis
      using g cr imps.Create_ok(2) [OF cr] up_imports(2) [OF s1(1)] s1 None x
      by (simp add: reconcile_import_def split_beta nn_def [symmetric] s1_def [symmetric])
  next
    case (Some si)
    have k: "si_key si = nn" using imps.cached_key [of s nn si] cur Some by (simp add: nn_def)
    have g: "fst (cl_Get (cl_Imports c) nn s) = Inr si"
      using imps.up_Get [OF up] cur Some by (simp add: nn_def)
    have pa: "fst (cl_Patch (cl_Imports c) (update_import x si) si s1) = None"
      by (rule imps.up_Patch) (simp_all add: s1 Some k)
    have e: "im (snd (cl_Patch (cl_Imports c) (update_import x si) si s1)) =
        (im s)(nn \<mapsto> update_import x si)"
      using imps.Patch_ok [OF pa] s1(2) Some k by fastforce
    show ?thesis
      using g pa e up_imports(3) [OF s1(1)] Some x
      by (simp add: reconcile_import_def split_beta nn_def [symmetric] s1_def [symmetric])
  qed
  then show "im (snd (reconcile_import c se s)) = (im s)(se_key se \<mapsto>
      (case im s (se_key se) of None \<Rightarrow> new_import se x | Some si \<Rightarrow> update_import x si))"
    and "fst (reconcile_import c se s) = Some (Info
      (case im s (se_key se) of None \<Rightarrow> ''created ServiceImport'' | Some _ \<Rightarrow> ''updated ServiceImport''))"
    and "up (snd (reconcile_import c se s))"
    by (simp_all add: nn_def)
qed

lemma delete_import_live:
  assumes up: "up s" and cur: "im' s nn = im s nn"
  shows "im (snd (delete_import c nn s)) = (im s)(nn := None)"
    and "up (snd (delete_import c nn s))"
    and "fst (delete_import c nn s) =
      (if im s nn = None then None else Some (Info ''deleted ServiceImport''))"
proof -
  define s1 where "s1 = snd (cl_Get (cl_Imports c) nn s)"
  have s1: "up s1" "im s1 = im s"
    unfolding s1_def using up_imports(1) [OF up] imps.call_frames by auto
  have "im (snd (delete_import c nn s)) = (im s)(nn := None) \<and> up (snd (delete_import c nn s)) \<and>
      fst (delete_import c nn s) =
        (if im s nn = None then None else Some (Info ''deleted ServiceImport''))"
  proof (cases "im s nn")
    case None
    then show ?thesis
      using imps.up_Get [OF up, of nn] cur s1
      by (auto simp: delete_import_def split_beta s1_def [symmetric])
  next
    case (Some si)
    have k: "si_key si = nn" using imps.cached_key [of s nn si] cur Some by simp
    have g: "fst (cl_Get (cl_Imports c) nn s) = Inr si" using imps.up_Get [OF up] cur Some by simp
    have d: "fst (cl_Delete (cl_Imports c) si s1) = None"
      by (rule imps.up_Delete) (simp_all add: s1 Some k)
    show ?thesis
      using g d imps.Delete_ok [OF d] up_imports(4) [OF s1(1)] s1 Some k
      by (simp add: delete_import_def split_beta s1_def [symmetric])
  qed
  then show "im (snd (delete_import c nn s)) = (im s)(nn := None)"
    and "up (snd (delete_import c nn s))"
    and "fst (delete_import c nn s) =
      (if im s nn = None then None else Some (Info ''deleted ServiceImport''))" by auto
qed

lemma onEndpointSliceAdd_live:
  assumes up: "up s" and cur: "sl' s (mirror_key w es) = sl s (mirror_key w es)"
    and obj: "toEndpointSlice fromES obj = Some es"
    and keep: "\<not> localShouldIgnoreEndpointSlice es" "localServiceImportOwner es = Some owner"
  shows "sl (snd (onEndpointSliceAdd w fromES c obj s)) = (sl s)(mirror_key w es \<mapsto>
      (case sl s (mirror_key w es) of
         None \<Rightarrow> desired_slice w es owner
       | Some l \<Rightarrow> update_slice (desired_slice w es owner) l))"
    and "up (snd (onEndpointSliceAdd w fromES c obj s))"
proof -
  define nn where "nn = mirror_key w es"
  define d where "d = desired_slice w es owner"
  define s1 where "s1 = snd (cl_Get (cl_Slices c) nn s)"
  have kd: "es_key d = nn" by (simp add: d_def nn_def)
  have s1: "up s1" "sl s1 = sl s"
    unfolding s1_def using up_slices(1) [OF up] slcs.call_frames by auto
  have "sl (snd (onEndpointSliceAdd w fromES c obj s)) = (sl s)(nn \<mapsto>
        (case sl s nn of None \<Rightarrow> d | Some l \<Rightarrow> update_slice d l)) \<and>
      up (snd (onEndpointSliceAdd w fromES c obj s))"
  proof (cases "sl s nn")
    case None
    have g: "fst (cl_Get (cl_Slices c) nn s) = Inl (ApiError ReasonNotFound)"
      using slcs.up_Get [OF up] cur None by (simp add: nn_def)
    have cr: "fst (cl_Create (cl_Slices c) d s1) = None"
      by (rule slcs.up_Create) (simp_all add: s1 None kd)
    show ?thesis
      using g cr slcs.Create_ok(2) [OF cr] up_slices(2) [OF s1(1)] s1 None kd keep
      by (simp add: onEndpointSliceAdd_def obj split_beta Let_def nn_def [symmetric]
          d_def [symmetric] s1_def [symmetric])
  next
    case (Some l)
    have k: "es_key l = nn" using slcs.cached_key [of s nn l] cur Some by (simp add: nn_def)
    have g: "fst (cl_Get (cl_Slices c) nn s) = Inr l"
      using slcs.up_Get [OF up] cur Some by (simp add: nn_def)
    have pa: "fst (cl_Patch (cl_Slices c) (update_slice d l) l s1) = None"
      by (rule slcs.up_Patch) (simp_all add: s1 Some k)
    have e: "sl (snd (cl_Patch (cl_Slices c) (update_slice d l) l s1)) = (sl s)(nn \<mapsto> update_slice d l)"
      using slcs.Patch_ok [OF pa] s1(2) Some k by fastforce
    show ?thesis
      using g pa e up_slices(3) [OF s1(1)] Some keep
      by (simp add: onEndpointSliceAdd_def obj split_beta Let_def nn_def [symmetric]
          d_def [symmetric] s1_def [symmetric])
  qed
  then show "sl (snd (onEndpointSliceAdd w fromES c obj s)) = (sl s)(mirror_key w es \<mapsto>
      (case sl s (mirror_key w es) of
         None \<Rightarrow> desired_slice w es owner
       | Some l \<Rightarrow> update_slice (desired_slice w es owner) l))"
    and "up (snd (onEndpointSliceAdd w fromES c obj s))"
    by (simp_all add: nn_def d_def split: option.split)
qed

lemma onEndpointSliceDelete_live:
  assumes up: "up s" and cur: "sl' s (mirror_key w es) = sl s (mirror_key w es)"
    and obj: "deleted_obj (toEndpointSlice fromES) obj = Some es"
  shows "sl (snd (onEndpointSliceDelete w fromES c obj s)) = (sl s)(mirror_key w es := None)"
    and "up (snd (onEndpointSliceDelete w fromES c obj s))"
proof -
  define nn where "nn = mirror_key w es"
  define s1 where "s1 = snd (cl_Get (cl_Slices c) nn s)"
  have s1: "up s1" "sl s1 = sl s"
    unfolding s1_def using up_slices(1) [OF up] slcs.call_frames by auto
  have "sl (snd (onEndpointSliceDelete w fromES c obj s)) = (sl s)(nn := None) \<and>
      up (snd (onEndpointSliceDelete w fromES c obj s))"
  proof (cases "sl s nn")
    case None
    then show ?thesis
      using slcs.up_Get [OF up, of nn] cur s1
      by (auto simp: onEndpointSliceDelete_def obj split_beta nn_def [symmetric] s1_def [symmetric])
  next
    case (Some l)
    have k: "es_key l = nn" using slcs.cached_key [of s nn l] cur Some by (simp add: nn_def)
    have g: "fst (cl_Get (cl_Slices c) nn s) = Inr l"
      using slcs.up_Get [OF up] cur Some by (simp add: nn_def)
    have d: "fst (cl_Delete (cl_Slices c) l s1) = None"
      by (rule slcs.up_Delete) (simp_all add: s1 Some k)
    show ?thesis
      using g d slcs.Delete_ok [OF d] up_slices(4) [OF s1(1)] s1 Some k
      by (simp add: onEndpointSliceDelete_def obj split_beta nn_def [symmetric] s1_def [symmetric])
  qed
  then show "sl (snd (onEndpointSliceDelete w fromES c obj s)) = (sl s)(mirror_key w es := None)"
    and "up (snd (onEndpointSliceDelete w fromES c obj s))"
    by (simp_all add: nn_def)
qed

end

end
