(* ===== verification/Mirror.thy ===== *)
theory Mirror
  imports Watcher
begin

text \<open>
  \<open>Watcher.Run\<close>: the requests the two informers make of the remote emitter, the handlers their
  events are dispatched to, and what a whole sequence of events does to the local cluster.
  The specification is a pair of maps: what each ServiceImport and each mirrored EndpointSlice
  shows. Over a cluster whose cache catches up between events, the handlers refine it.
\<close>

section \<open>The informers of \<open>Run\<close>\<close>

record list_options =
  lo_LabelSelector :: string
  lo_FieldSelector :: string
  lo_Watch :: bool
  lo_ResourceVersion :: string

datatype gvr = SeGVR | EsGVR

text \<open>A request: its resource, the namespace it is restricted to (\<open>None\<close> is all of them), and the
  options.\<close>

datatype request = ListReq gvr "string option" list_options | WatchReq gvr "string option" list_options

definition w_scope :: "watcher \<Rightarrow> string option" where
  "w_scope w = (if w_namespace w \<noteq> '''' then Some (w_namespace w) else None)"

definition listSE :: "watcher \<Rightarrow> list_options \<Rightarrow> request" where
  "listSE w opts = ListReq SeGVR (w_scope w) (opts\<lparr>lo_LabelSelector := w_selector w\<rparr>)"

definition watchSE :: "watcher \<Rightarrow> list_options \<Rightarrow> request" where
  "watchSE w opts =
     WatchReq SeGVR (w_scope w) (opts\<lparr>lo_Watch := True, lo_LabelSelector := w_selector w\<rparr>)"

definition listES :: "watcher \<Rightarrow> list_options \<Rightarrow> request" where
  "listES w opts = ListReq EsGVR (w_scope w) opts"

definition watchES :: "watcher \<Rightarrow> list_options \<Rightarrow> request" where
  "watchES w opts = WatchReq EsGVR (w_scope w) (opts\<lparr>lo_Watch := True\<rparr>)"

text \<open>\<open>Run\<close> until it blocks on the context: an error of making the client is wrapped, one of
  adding a handler returned as it is; the informers start only when all three went well.\<close>

definition run_watcher ::
  "watcher \<Rightarrow> go_error option \<Rightarrow> go_error option \<Rightarrow> go_error option \<Rightarrow> go_error option \<times> gvr list" where
  "run_watcher w newClient addSE addES =
     (case newClient of
        Some err \<Rightarrow> (Some (Wrapf (''creating dynamic client for '' @ w_remoteID w) err), [])
      | None \<Rightarrow>
          (case addSE of
             Some err \<Rightarrow> (Some err, [])
           | None \<Rightarrow> (case addES of Some err \<Rightarrow> (Some err, []) | None \<Rightarrow> (None, [SeGVR, EsGVR]))))"

section \<open>Dispatch\<close>

datatype 'u notification = Added 'u | Updated 'u 'u | Deleted 'u

datatype 'u watch_event = OnExport "'u notification" | OnSlice "'u notification"

definition dispatch ::
  "watcher \<Rightarrow> ('u \<Rightarrow> service_export option) \<Rightarrow> ('u \<Rightarrow> endpoint_slice option) \<Rightarrow> 'st client \<Rightarrow>
   'u informer_obj watch_event \<Rightarrow> detector option \<times> 'st \<Rightarrow> detector option \<times> 'st" where
  "dispatch w fromSE fromES c ev st =
     (case st of (cd, s) \<Rightarrow>
        (case ev of
           OnExport (Added obj) \<Rightarrow> snd (onServiceExportAdd w fromSE c obj cd s)
         | OnExport (Updated _ obj) \<Rightarrow> snd (onServiceExportAdd w fromSE c obj cd s)
         | OnExport (Deleted obj) \<Rightarrow> snd (onServiceExportDelete w fromSE c obj cd s)
         | OnSlice (Added obj) \<Rightarrow> (cd, snd (onEndpointSliceAdd w fromES c obj s))
         | OnSlice (Updated _ obj) \<Rightarrow> (cd, snd (onEndpointSliceAdd w fromES c obj s))
         | OnSlice (Deleted obj) \<Rightarrow> (cd, snd (onEndpointSliceDelete w fromES c obj s))))"

fun run_events ::
  "watcher \<Rightarrow> ('u \<Rightarrow> service_export option) \<Rightarrow> ('u \<Rightarrow> endpoint_slice option) \<Rightarrow> 'st client \<Rightarrow>
   ('st \<Rightarrow> 'st) \<Rightarrow> 'u informer_obj watch_event list \<Rightarrow> detector option \<times> 'st \<Rightarrow>
   detector option \<times> 'st" where
  "run_events w fromSE fromES c settle [] st = st"
| "run_events w fromSE fromES c settle (ev # evs) st =
     (case dispatch w fromSE fromES c ev st of
        (cd, s) \<Rightarrow> run_events w fromSE fromES c settle evs (cd, settle s))"

section \<open>Specification\<close>

type_synonym mirror =
  "(namespaced_name \<rightharpoonup> import_spec) \<times> (namespaced_name \<rightharpoonup> slice_view)"

definition spec_export :: "service_export option \<Rightarrow> mirror \<Rightarrow> mirror" where
  "spec_export sep m =
     (case sep of
        None \<Rightarrow> m
      | Some se \<Rightarrow>
          (case extractAnnotations se of
             Inl _ \<Rightarrow> m
           | Inr x \<Rightarrow> ((fst m)(se_key se \<mapsto> x), snd m)))"

definition spec_unexport :: "service_export option \<Rightarrow> mirror \<Rightarrow> mirror" where
  "spec_unexport sep m =
     (case sep of None \<Rightarrow> m | Some se \<Rightarrow> ((fst m)(se_key se := None), snd m))"

definition spec_slice :: "watcher \<Rightarrow> endpoint_slice option \<Rightarrow> mirror \<Rightarrow> mirror" where
  "spec_slice w esp m =
     (case esp of
        None \<Rightarrow> m
      | Some es \<Rightarrow>
          (if localShouldIgnoreEndpointSlice es then m
           else
             (case localServiceImportOwner es of
                None \<Rightarrow> m
              | Some owner \<Rightarrow>
                  (fst m, (snd m)(mirror_key w es \<mapsto>
                     (mirror_labels w (Name owner), es_AddressType es, es_Endpoints es,
                      es_Ports es))))))"

definition spec_unslice :: "watcher \<Rightarrow> endpoint_slice option \<Rightarrow> mirror \<Rightarrow> mirror" where
  "spec_unslice w esp m =
     (case esp of None \<Rightarrow> m | Some es \<Rightarrow> (fst m, (snd m)(mirror_key w es := None)))"

definition spec_event ::
  "watcher \<Rightarrow> ('u \<Rightarrow> service_export option) \<Rightarrow> ('u \<Rightarrow> endpoint_slice option) \<Rightarrow>
   'u informer_obj watch_event \<Rightarrow> mirror \<Rightarrow> mirror" where
  "spec_event w fromSE fromES ev =
     (case ev of
        OnExport (Added obj) \<Rightarrow> spec_export (toServiceExport fromSE obj)
      | OnExport (Updated _ obj) \<Rightarrow> spec_export (toServiceExport fromSE obj)
      | OnExport (Deleted obj) \<Rightarrow> spec_unexport (deleted_obj (toServiceExport fromSE) obj)
      | OnSlice (Added obj) \<Rightarrow> spec_slice w (toEndpointSlice fromES obj)
      | OnSlice (Updated _ obj) \<Rightarrow> spec_slice w (toEndpointSlice fromES obj)
      | OnSlice (Deleted obj) \<Rightarrow> spec_unslice w (deleted_obj (toEndpointSlice fromES) obj))"

definition mirror_view ::
  "(namespaced_name \<rightharpoonup> service_import) \<Rightarrow> (namespaced_name \<rightharpoonup> endpoint_slice) \<Rightarrow> mirror" where
  "mirror_view i l = (map_option import_view \<circ> i, map_option slice_view \<circ> l)"

lemma desired_slice_view [simp]:
  "slice_view (desired_slice w es owner) =
     (mirror_labels w (Name owner), es_AddressType es, es_Endpoints es, es_Ports es)"
  by (simp add: slice_view_def desired_slice_def)

section \<open>Refinement\<close>

context synced_cluster
begin

definition in_sync :: "'a \<Rightarrow> bool" where
  "in_sync s = (up s \<and> im' s = im s \<and> sl' s = sl s)"

lemma spec_export_refines:
  assumes "in_sync s" and s1: "s1 = snd (snd (onServiceExportAdd w fromSE c obj cd s))"
  shows "up s1 \<and> mirror_view (im s1) (sl s1) =
    spec_export (toServiceExport fromSE obj) (mirror_view (im s) (sl s))"
proof (cases "toServiceExport fromSE obj")
  case (Some se)
  then have s1: "s1 = snd (reconcile_import c se s)"
    by (simp add: assms(2) onServiceExportAdd_def Let_def split_beta)
  show ?thesis
  proof (cases "extractAnnotations se")
    case (Inr x)
    have up: "up s" "im' s (se_key se) = im s (se_key se)" using assms(1) by (auto simp: in_sync_def)
    have "sl s1 = sl s" using reconcile_import_only [of se s] s1 by (simp add: only_at_def)
    then show ?thesis
      using reconcile_import_live [OF up Inr] s1 Some Inr
      by (auto simp: mirror_view_def spec_export_def fun_eq_iff split: option.split)
  qed (use Some s1 assms(1) in \<open>simp add: spec_export_def reconcile_import_def in_sync_def\<close>)
qed (use assms in \<open>simp add: onServiceExportAdd_def spec_export_def in_sync_def\<close>)

lemma spec_unexport_refines:
  assumes "in_sync s" and s1: "s1 = snd (snd (onServiceExportDelete w fromSE c obj cd s))"
  shows "up s1 \<and> mirror_view (im s1) (sl s1) =
    spec_unexport (deleted_obj (toServiceExport fromSE) obj) (mirror_view (im s) (sl s))"
proof (cases "deleted_obj (toServiceExport fromSE) obj")
  case (Some se)
  then have s1: "s1 = snd (delete_import c (se_key se) s)"
    by (simp add: assms(2) onServiceExportDelete_def Let_def split_beta)
  have up: "up s" "im' s (se_key se) = im s (se_key se)" using assms(1) by (auto simp: in_sync_def)
  have "sl s1 = sl s" using delete_import_only [of "se_key se" s] s1 by (simp add: only_at_def)
  then show ?thesis
    using delete_import_live [OF up] s1 Some
    by (auto simp: mirror_view_def spec_unexport_def fun_eq_iff)
qed (use assms in \<open>simp add: onServiceExportDelete_def spec_unexport_def in_sync_def\<close>)

lemma spec_slice_refines:
  assumes "in_sync s" and s1: "s1 = snd (onEndpointSliceAdd w fromES c obj s)"
  shows "up s1 \<and> mirror_view (im s1) (sl s1) =
    spec_slice w (toEndpointSlice fromES obj) (mirror_view (im s) (sl s))"
proof (cases "\<exists>es owner. toEndpointSlice fromES obj = Some es \<and>
    \<not> localShouldIgnoreEndpointSlice es \<and> localServiceImportOwner es = Some owner")
  case True
  then obtain es owner where es: "toEndpointSlice fromES obj = Some es"
      "\<not> localShouldIgnoreEndpointSlice es" "localServiceImportOwner es = Some owner" by blast
  have up: "up s" "sl' s (mirror_key w es) = sl s (mirror_key w es)"
    using assms(1) by (auto simp: in_sync_def)
  have "im s1 = im s" using onEndpointSliceAdd_only [OF es(1), of w s] s1 by (simp add: only_at_def)
  then show ?thesis
    using onEndpointSliceAdd_live [OF up es] s1 es
    by (auto simp: mirror_view_def spec_slice_def fun_eq_iff split: option.split)
qed (use assms in \<open>auto simp: onEndpointSliceAdd_def spec_slice_def in_sync_def
    split: option.splits if_splits\<close>)

lemma spec_unslice_refines:
  assumes "in_sync s" and s1: "s1 = snd (onEndpointSliceDelete w fromES c obj s)"
  shows "up s1 \<and> mirror_view (im s1) (sl s1) =
    spec_unslice w (deleted_obj (toEndpointSlice fromES) obj) (mirror_view (im s) (sl s))"
proof (cases "deleted_obj (toEndpointSlice fromES) obj")
  case (Some es)
  have up: "up s" "sl' s (mirror_key w es) = sl s (mirror_key w es)"
    using assms(1) by (auto simp: in_sync_def)
  have "im s1 = im s" using onEndpointSliceDelete_only [OF Some, of w s] s1 by (simp add: only_at_def)
  then show ?thesis
    using onEndpointSliceDelete_live [OF up Some] s1 Some
    by (auto simp: mirror_view_def spec_unslice_def fun_eq_iff)
qed (use assms in \<open>simp add: onEndpointSliceDelete_def spec_unslice_def in_sync_def\<close>)

lemma dispatch_refines:
  assumes "in_sync s" "dispatch w fromSE fromES c ev (cd, s) = (cd1, s1)"
  shows "up s1 \<and> mirror_view (im s1) (sl s1) = spec_event w fromSE fromES ev (mirror_view (im s) (sl s))"
proof -
  note refine = spec_export_refines [OF assms(1) refl] spec_unexport_refines [OF assms(1) refl]
    spec_slice_refines [OF assms(1) refl] spec_unslice_refines [OF assms(1) refl]
  have "s1 = snd (dispatch w fromSE fromES c ev (cd, s))" using assms(2) by simp
  then show ?thesis
    by (simp add: dispatch_def spec_event_def refine split: watch_event.split notification.split)
qed

theorem run_refines:
  assumes "in_sync s" "run_events w fromSE fromES c settle evs (cd, s) = (cd1, s1)"
  shows "in_sync s1 \<and> mirror_view (im s1) (sl s1) =
    fold (spec_event w fromSE fromES) evs (mirror_view (im s) (sl s))"
  using assms
proof (induction evs arbitrary: cd s)
  case (Cons ev evs)
  obtain cd2 s2 where d: "dispatch w fromSE fromES c ev (cd, s) = (cd2, s2)" by fastforce
  note r = dispatch_refines [OF Cons.prems(1) d]
  have "in_sync (settle s2)" using r by (simp add: in_sync_def settle_stored settle_cached settle_up)
  from Cons.IH [OF this] Cons.prems(2) d r show ?case by (simp add: settle_stored)
qed simp

end

section \<open>The object an event is about\<close>

definition export_target ::
  "('u \<Rightarrow> service_export option) \<Rightarrow> 'u informer_obj notification \<Rightarrow> namespaced_name option" where
  "export_target fromSE n =
     map_option se_key
       (case n of
          Added obj \<Rightarrow> toServiceExport fromSE obj
        | Updated _ obj \<Rightarrow> toServiceExport fromSE obj
        | Deleted obj \<Rightarrow> deleted_obj (toServiceExport fromSE) obj)"

definition slice_target ::
  "watcher \<Rightarrow> ('u \<Rightarrow> endpoint_slice option) \<Rightarrow> 'u informer_obj notification \<Rightarrow> namespaced_name option" where
  "slice_target w fromES n =
     map_option (mirror_key w)
       (case n of
          Added obj \<Rightarrow> toEndpointSlice fromES obj
        | Updated _ obj \<Rightarrow> toEndpointSlice fromES obj
        | Deleted obj \<Rightarrow> deleted_obj (toEndpointSlice fromES) obj)"

context cluster_api
begin

lemma add_export_only:
  "only_at im rest_of_imports nn s (snd (snd (onServiceExportAdd w fromSE c obj cd s)))"
  if "toServiceExport fromSE obj = None \<or> map_option se_key (toServiceExport fromSE obj) = Some nn"
  using that reconcile_import_only [of "the (toServiceExport fromSE obj)" s]
  by (cases "toServiceExport fromSE obj") (auto simp: onServiceExportAdd_def Let_def split_beta)

lemma delete_export_only:
  "only_at im rest_of_imports nn s (snd (snd (onServiceExportDelete w fromSE c obj cd s)))"
  if "deleted_obj (toServiceExport fromSE) obj = None \<or>
    map_option se_key (deleted_obj (toServiceExport fromSE) obj) = Some nn"
  using that delete_import_only [of nn s]
  by (cases "deleted_obj (toServiceExport fromSE) obj")
     (auto simp: onServiceExportDelete_def Let_def split_beta)

lemma no_slice:
  "toEndpointSlice fromES obj = None \<Longrightarrow> snd (onEndpointSliceAdd w fromES c obj s) = s"
  "deleted_obj (toEndpointSlice fromES) obj = None \<Longrightarrow> snd (onEndpointSliceDelete w fromES c obj s) = s"
  by (simp_all add: onEndpointSliceAdd_def onEndpointSliceDelete_def)

lemma dispatch_export_only:
  "export_target fromSE n \<in> {None, Some nn} \<Longrightarrow>
   only_at im rest_of_imports nn s (snd (dispatch w fromSE fromES c (OnExport n) (cd, s)))"
  by (cases n) (auto simp: dispatch_def export_target_def add_export_only delete_export_only)

lemma dispatch_slice_only:
  "slice_target w fromES n \<in> {None, Some nn} \<Longrightarrow>
   only_at sl rest_of_slices nn s (snd (dispatch w fromSE fromES c (OnSlice n) (cd, s)))"
  using onEndpointSliceAdd_only onEndpointSliceDelete_only
  by (cases n) (auto simp: dispatch_def slice_target_def no_slice)

end

section \<open>Properties\<close>

text \<open>C3. Refinement: let a watcher process any sequence of events of its two informers, over a
  cluster that answers and whose cache catches up after each event. What the local ServiceImports
  and EndpointSlices then show is what the specification computes from the same events: an export
  with readable metadata sets the import of its key, a deleted one removes it, a slice that is not
  ignored and has an owner sets its mirror, a deleted one removes it, and nothing else changes.\<close>

theorem watcher_refines_mirror:
  assumes "synced_cluster c ex ex' sv sv' im im' sl sl' up settle"
    and "up s" "im' s = im s" "sl' s = sl s"
    and "s1 = snd (run_events w fromSE fromES c settle evs (cd, s))"
  shows "mirror_view (im s1) (sl s1) = fold (spec_event w fromSE fromES) evs (mirror_view (im s) (sl s))"
  using synced_cluster.run_refines [OF assms(1) _ surjective_pairing, of s w fromSE fromES evs cd] assms
  by (simp add: synced_cluster.in_sync_def [OF assms(1)])

lemma web_slice_facts:
  "\<not> localShouldIgnoreEndpointSlice web_slice"
  "localServiceImportOwner web_slice = Some web"
  "mirror_key (NewWatcher b ''r1'' ns sel) web_slice = NamespacedName ''shop'' ''r1-web-x7''"
  by (simp_all add: localShouldIgnoreEndpointSlice_def localServiceImportOwner_def web_slice_def
      api_const_defs mirror_key_def localEndpointSliceName_def NewWatcher_def empty_meta_def web_def)

theorem watcher_refines_mirror_witness:
  "map_option es_AddressType (v_Slices (snd (run_events (NewWatcher ''b'' ''r1'' [] []) (\<lambda>u. None) Some
      mem_client sync [OnSlice (Added (Unstructured web_slice))] (None, empty_mem)))
      (NamespacedName ''shop'' ''r1-web-x7'')) = Some ''IPv4''"
proof -
  let ?s = "snd (run_events (NewWatcher ''b'' ''r1'' [] []) (\<lambda>u. None) Some
      mem_client sync [OnSlice (Added (Unstructured web_slice))] (None, empty_mem))"
  have "snd (mirror_view (v_Imports ?s) (v_Slices ?s)) (NamespacedName ''shop'' ''r1-web-x7'') =
      Some (mirror_labels (NewWatcher ''b'' ''r1'' [] []) ''web'', ''IPv4'', Some [], None)"
    by (subst watcher_refines_mirror [OF mem_synced_cluster _ _ _ refl])
       (simp_all add: spec_event_def spec_slice_def toEndpointSlice_def web_slice_facts
          web_slice_def [THEN arg_cong [of _ _ es_AddressType]] 
          web_slice_def [THEN arg_cong [of _ _ es_Endpoints]]
          web_slice_def [THEN arg_cong [of _ _ es_Ports]] web_def)
  then show ?thesis by (auto simp: mirror_view_def slice_view_def)
qed

text \<open>C33. Safety of the handlers: whatever the cache holds and whichever calls fail, one event changes
  no ServiceExport and no Service; an event of an export changes at most the ServiceImport of the
  same key, an event of a slice at most the EndpointSlice under its mirror's name, and an object that
  cannot be converted changes nothing.\<close>

theorem event_touches_one:
  assumes "cluster_api c ex ex' sv sv' im im' sl sl' up"
    and s1: "s1 = snd (dispatch w fromSE fromES c ev (cd, s))"
  shows "ex s1 = ex s \<and> sv s1 = sv s \<and>
    (case ev of
       OnExport n \<Rightarrow> sl s1 = sl s \<and> (\<forall>k. Some k \<noteq> export_target fromSE n \<longrightarrow> im s1 k = im s k)
     | OnSlice n \<Rightarrow> im s1 = im s \<and> (\<forall>k. Some k \<noteq> slice_target w fromES n \<longrightarrow> sl s1 k = sl s k))"
proof (cases ev)
  case (OnExport n)
  have "only_at im (\<lambda>s. (ex s, sv s, sl s)) nn s s1"
    if "export_target fromSE n = None \<or> export_target fromSE n = Some nn" for nn
    using cluster_api.dispatch_export_only [OF assms(1), of fromSE n nn s w fromES cd] that OnExport s1
    by auto
  from only_at_target [of "export_target fromSE n", OF this] show ?thesis using OnExport by simp
next
  case (OnSlice n)
  have "only_at sl (\<lambda>s. (ex s, sv s, im s)) nn s s1"
    if "slice_target w fromES n = None \<or> slice_target w fromES n = Some nn" for nn
    using cluster_api.dispatch_slice_only [OF assms(1), of w fromES n nn s fromSE cd] that OnSlice s1
    by auto
  from only_at_target [of "slice_target w fromES n", OF this] show ?thesis using OnSlice by simp
qed

theorem event_touches_one_witness:
  "v_Slices (snd (dispatch (NewWatcher ''b'' ''r1'' [] []) (\<lambda>u. Some web_export) (\<lambda>u. None) mem_client
     (OnExport (Deleted (DeletedFinalStateUnknown ''shop/web'' (Unstructured ())))) (None, empty_mem))) =
   Map.empty"
  using event_touches_one [OF mem_cluster_api refl, of "NewWatcher ''b'' ''r1'' [] []" "\<lambda>u. Some web_export"
      "\<lambda>u. None" "OnExport (Deleted (DeletedFinalStateUnknown ''shop/web'' (Unstructured ())))" None empty_mem]
  by (simp add: empty_mem_def)

text \<open>What the code needs to read an export.\<close>

definition usable_export :: "service_export \<Rightarrow> bool" where
  "usable_export se =
     (case om_Annotations (se_meta se) of
        None \<Rightarrow> False
      | Some a \<Rightarrow>
          get0 a AnnotationServiceType \<noteq> '''' \<and>
          (case a AnnotationServicePorts of
             None \<Rightarrow> True
           | Some raw \<Rightarrow> json_Unmarshal (dec_slice (dec_struct set_mcs_port) zero_mcs_port) None raw \<noteq> None) \<and>
          (case a AnnotationSessionAffinityConfig of
             None \<Rightarrow> True
           | Some raw \<Rightarrow> raw = '''' \<or> json_Unmarshal (dec_struct set_sac) zero_sac raw \<noteq> None) \<and>
          (case a AnnotationIPFamilies of
             None \<Rightarrow> True
           | Some raw \<Rightarrow> json_Unmarshal (dec_slice dec_string '''') None raw \<noteq> None))"

lemma usable_export_iff: "usable_export se \<longleftrightarrow> (\<exists>x. extractAnnotations se = Inr x)"
  by (auto simp: usable_export_def extractAnnotations_def read_ports_def read_sac_def read_families_def
      Let_def split: option.split)

text \<open>An export is skipped exactly when its metadata cannot be read: it has no annotations, an
  empty or missing type, or a ports, affinity configuration (unless empty) or IP families annotation
  that is there and does not decode. Then nothing is read or written in the local cluster, the error
  is logged, and the detector has recorded the export nevertheless. A usable one is logged as a
  failure or a success of the API, never as skipped.\<close>

theorem unusable_export_skipped:
  assumes "toServiceExport fromSE obj = Some se"
  shows "(\<not> usable_export se) =
    (\<exists>err. onServiceExportAdd w fromSE c obj cd s =
       (Some (Error err ''failed to extract service metadata from ServiceExport annotations; skipping''),
        map_option (RecordRemote (se_key se) (w_remoteID w) se) cd, s))"
  using assms
  by (auto simp: usable_export_iff onServiceExportAdd_def reconcile_import_def Let_def split_beta
      split: sum.splits option.splits if_splits)

theorem unusable_export_skipped_witness:
  "snd (snd (onServiceExportAdd (NewWatcher ''b'' ''r1'' [] []) Some mem_client (Unstructured web_export)
     None empty_mem)) = empty_mem"
proof -
  have "\<not> usable_export web_export" by (simp add: usable_export_def)
  moreover have obj: "toServiceExport Some (Unstructured web_export) = Some web_export"
    by (simp add: toServiceExport_def)
  moreover note unusable_export_skipped [OF obj, of "NewWatcher ''b'' ''r1'' [] []" mem_client None empty_mem]
  ultimately show ?thesis by auto
qed

lemma localName_take: "localEndpointSliceName r n = take 63 (r @ ''-'' @ n)"
  by (simp add: localEndpointSliceName_def Let_def)

lemma localName_long:
  "62 \<le> length r + length p \<Longrightarrow> localEndpointSliceName r (p @ a) = localEndpointSliceName r p"
  using take_append [of 63 "r @ ''-'' @ p" a] by (simp add: localName_take del: take_append)

text \<open>The local name of a mirrored slice has at most 63 bytes, and it tells the slices of one
  remote apart as long as the names fit: two different names that stay within the limit have
  different mirrors.\<close>

theorem mirror_name_bound:
  "length (localEndpointSliceName r n) \<le> 63 \<and>
   (length r + length n < 63 \<and> length r + length m < 63 \<and>
      localEndpointSliceName r n = localEndpointSliceName r m \<longrightarrow> n = m)"
  by (auto simp: localEndpointSliceName_def Let_def min_def)

theorem mirror_name_bound_witness:
  "localEndpointSliceName ''r1'' ''web-x7'' \<noteq> localEndpointSliceName ''r1'' ''web-x8''"
  using mirror_name_bound [of "''r1''" "''web-x7''" "''web-x8''"] by auto

text \<open>Past the limit names collide, and a slice is lost: when two slices of one namespace have names
  whose mirrors agree, the second is written over the first, and when the first is deleted remotely
  the only mirror goes, although the second still exists.\<close>

theorem colliding_slice_lost:
  assumes api: "synced_cluster c ex ex' sv sv' im im' sl sl' up settle"
    and s: "up s" "im' s = im s" "sl' s = sl s"
    and es: "fromES u1 = Some es1" "fromES u2 = Some es2"
    and collide: "length (w_remoteID w) + length p \<ge> 62"
      "om_Name (es_meta es1) = p @ a" "om_Name (es_meta es2) = p @ b"
      "om_Namespace (es_meta es1) = om_Namespace (es_meta es2)"
  shows "sl (snd (run_events w fromSE fromES c settle
      [OnSlice (Added (Unstructured u1)), OnSlice (Added (Unstructured u2)),
       OnSlice (Deleted (Unstructured u1))] (cd, s))) (mirror_key w es2) = None"
proof -
  let ?evs = "[OnSlice (Added (Unstructured u1)), OnSlice (Added (Unstructured u2)),
       OnSlice (Deleted (Unstructured u1))]"
  let ?s1 = "snd (run_events w fromSE fromES c settle ?evs (cd, s))"
  have k: "mirror_key w es1 = mirror_key w es2"
    using collide localName_long [of "w_remoteID w" p] by (simp add: mirror_key_def)
  have "synced_cluster.in_sync im im' sl sl' up s"
    using s by (simp add: synced_cluster.in_sync_def [OF api])
  from synced_cluster.run_refines [OF api this surjective_pairing, of w fromSE fromES ?evs cd]
  have "snd (mirror_view (im ?s1) (sl ?s1)) (mirror_key w es2) = None"
    using es k by (simp add: spec_event_def spec_unslice_def deleted_obj_def toEndpointSlice_def)
  then show ?thesis by (simp add: mirror_view_def)
qed

theorem colliding_slice_lost_witness:
  "v_Slices (snd (run_events (NewWatcher ''b'' ''r1'' [] []) (\<lambda>u. None)
      (\<lambda>d. Some (web_slice\<lparr>es_meta := (es_meta web_slice)\<lparr>om_Name := replicate 60 (CHR ''a'') @ d\<rparr>\<rparr>))
      mem_client sync
      [OnSlice (Added (Unstructured ''1'')), OnSlice (Added (Unstructured ''2'')),
       OnSlice (Deleted (Unstructured ''1''))] (None, empty_mem)))
    (mirror_key (NewWatcher ''b'' ''r1'' [] [])
      (web_slice\<lparr>es_meta := (es_meta web_slice)\<lparr>om_Name := replicate 60 (CHR ''a'') @ ''2''\<rparr>\<rparr>)) = None"
  by (rule colliding_slice_lost [OF mem_synced_cluster, where p = "replicate 60 (CHR ''a'')"],
      simp, simp, simp, rule refl, rule refl) (simp_all add: NewWatcher_def)

text \<open>An import goes with the first export: when the watcher of one remote sees its export
  deleted, it deletes the local ServiceImport, although the detector still holds the export of
  another remote for the same service.\<close>

theorem shared_import_deleted:
  assumes api: "cluster_api c ex ex' sv sv' im im' sl sl' up"
    and s: "up s" "im' s (se_key se) = im s (se_key se)"
    and obj: "deleted_obj (toServiceExport fromSE) obj = Some se"
    and other: "r2 \<noteq> w_remoteID w" "remote_view cd (se_key se, r2) = Some v"
    and run: "onServiceExportDelete w fromSE c obj (Some cd) s = (line, Some cd1, s1)"
  shows "im s1 (se_key se) = None \<and> remote_view cd1 (se_key se, r2) = Some v \<and>
    remote_view cd1 (se_key se, w_remoteID w) = None"
  using run obj other cluster_api.delete_import_live [OF api s]
  by (auto simp: onServiceExportDelete_def Let_def split_beta remote_view_ForgetRemote)

theorem shared_import_deleted_witness:
  "case onServiceExportDelete (NewWatcher ''b'' ''r1'' [] []) Some mem_client (Unstructured web_export)
       (Some (RecordRemote web ''r2'' web_export NewConflictDetector)) empty_mem of
     (line, Some cd1, s1) \<Rightarrow> v_Imports s1 web = None \<and> remote_view cd1 (web, ''r2'') \<noteq> None
   | _ \<Rightarrow> False"
proof -
  let ?cd = "RecordRemote web ''r2'' web_export NewConflictDetector"
  obtain line cd1 s1 where r: "onServiceExportDelete (NewWatcher ''b'' ''r1'' [] []) Some mem_client
      (Unstructured web_export) (Some ?cd) empty_mem = (line, Some cd1, s1)"
    by (auto simp: onServiceExportDelete_def deleted_obj_def toServiceExport_def Let_def split_beta)
  show ?thesis
    using shared_import_deleted [OF mem_cluster_api _ _ _ _ _ r, of "web_export" "''r2''"]
    unfolding r
    by (simp add: deleted_obj_def toServiceExport_def NewWatcher_def remote_view_RecordRemote)
qed

text \<open>A slice that the EndpointSlice controller manages, which is what Kubernetes makes for every
  Service with a selector, is never mirrored: its events leave the local cluster unchanged.\<close>

theorem controller_slice_not_mirrored:
  assumes "fromES u = Some es"
    and "om_Labels (es_meta es) LabelManagedBy = Some ''endpointslice-controller.k8s.io''"
  shows "dispatch w fromSE fromES c (OnSlice (Added (Unstructured u))) (cd, s) = (cd, s) \<and>
    dispatch w fromSE fromES c (OnSlice (Updated old (Unstructured u))) (cd, s) = (cd, s)"
  using assms
  by (simp add: dispatch_def onEndpointSliceAdd_def toEndpointSlice_def
      localShouldIgnoreEndpointSlice_def)

theorem controller_slice_not_mirrored_witness:
  "v_Slices (snd (dispatch (NewWatcher ''b'' ''r1'' [] []) (\<lambda>u. None)
     (\<lambda>u. Some (web_slice\<lparr>es_meta := (es_meta web_slice)\<lparr>om_Labels :=
        [LabelManagedBy \<mapsto> ''endpointslice-controller.k8s.io'']\<rparr>\<rparr>)) mem_client
     (OnSlice (Added (Unstructured ()))) (None, empty_mem))) = Map.empty"
  by (subst controller_slice_not_mirrored [THEN conjunct1], rule refl) (simp_all add: empty_mem_def)

text \<open>The label test of the EndpointSlice reconciler of \<open>mcs-api\<close>, which \<open>Start\<close> sets up to relabel the
  mirrored slices for the derived Service.\<close>

definition mcs_shouldIgnoreEndpointSlice :: "endpoint_slice \<Rightarrow> bool" where
  "mcs_shouldIgnoreEndpointSlice es =
     (if om_DeletionTimestamp (es_meta es) \<noteq> None then True
      else if get0 (om_Labels (es_meta es)) McsLabelServiceName = [] then True
      else False)"

text \<open>That reconciler ignores every slice a watcher writes, because the mirror carries the service
  name under the core label and not under the label of the multicluster API; this holds for a
  new mirror, for one that is updated, and for the object the API server stores in the end.\<close>

theorem mirror_ignored_upstream:
  "mcs_shouldIgnoreEndpointSlice (desired_slice w es owner) \<and>
   mcs_shouldIgnoreEndpointSlice (update_slice (desired_slice w es owner) local_es) \<and>
   mcs_shouldIgnoreEndpointSlice
     (es_merge local_es (update_slice (desired_slice w es owner) local_es) local_es)"
  by (simp add: mcs_shouldIgnoreEndpointSlice_def desired_slice_def update_slice_def mirror_labels_def
      api_const_defs get0_def)

end
