(* ===== verification/Json_Utf8.thy ===== *)
theory Json_Utf8
  imports Json_Parser
begin

text \<open>
  What \<open>json.Marshal\<close> writes is valid UTF-8, whatever the strings in the value are: an annotation
  written by the program can be put into JSON again without being altered.
\<close>

lemma valid_utf8_append:
  "valid_utf8 s \<Longrightarrow> valid_utf8 t \<Longrightarrow> valid_utf8 (s @ t)"
proof (induction s rule: valid_utf8.induct)
  case (2 c r)
  then obtain n where n: "rune_len (c # r) = Some n" "valid_utf8 (drop (n - 1) r)"
    by (auto split: option.splits)
  have len: "0 < n" "n \<le> Suc (length r)" using rune_len_Some_bound [OF n(1)] by auto
  have "rune_len ((c # r) @ t) = Some n"
    using rune_len_local [OF n(1), of "drop n (c # r) @ t"]
    by (metis append.assoc append_take_drop_id)
  moreover have "valid_utf8 (drop (n - 1) r @ t)" using 2 n by simp
  ultimately show ?case using len by simp
qed simp

lemma valid_utf8_rune: "rune_len s = Some n \<Longrightarrow> valid_utf8 (take n s)"
  using rune_len_local [of s n "[]"] rune_len_SomeE [of s n] by fastforce

lemma valid_utf8_Cons: "byte c < 0x80 \<Longrightarrow> valid_utf8 s \<Longrightarrow> valid_utf8 (c # s)"
  by simp

lemma ascii_hex_char: "n < 16 \<Longrightarrow> byte (hex_char n) < 0x80"
  by (auto simp: hex_char_def Let_def)

lemma valid_esc_ascii: "byte c < 0x80 \<Longrightarrow> valid_utf8 (esc_ascii c)"
proof (rule ascii_valid_utf8)
  assume c: "byte c < 0x80"
  have "byte c div 16 < 16" "byte c mod 16 < 16" using byte_less [of c] by linarith+
  then show "ascii (esc_ascii c)"
    using c ascii_hex_char by (auto simp: esc_ascii_def ascii_def) (simp_all add: byte_def)
qed

lemma valid_esc_multi: "valid_utf8 bs \<Longrightarrow> valid_utf8 (esc_multi bs)"
  by (auto simp: esc_multi_def byte_def)

lemma valid_quote_body: "valid_utf8 (quote_body s)"
proof (induction s rule: quote_body.induct)
  case (2 c r)
  show ?case
  proof (cases "byte c < 0x80")
    case True
    then show ?thesis using 2(1) by (simp add: quote_body.simps(2) valid_utf8_append valid_esc_ascii)
  next
    case False
    show ?thesis
    proof (cases "rune_len (c # r)")
      case None
      have "valid_utf8 ''ufffd''" by (rule ascii_valid_utf8) (simp add: ascii_def byte_def)
      then have "valid_utf8 (CHR 0x5C # ''ufffd'' @ quote_body r)"
        using 2(2) [OF False None] by (intro valid_utf8_Cons valid_utf8_append) (simp_all add: byte_def)
      then show ?thesis using False None by (simp add: quote_body.simps(2))
    next
      case (Some n)
      then show ?thesis
        using False 2(3) [OF False Some] valid_utf8_rune [OF Some]
        by (simp add: quote_body.simps(2) valid_utf8_append valid_esc_multi)
    qed
  qed
qed simp

lemma valid_quote: "valid_utf8 (quote s)"
proof -
  have q: "byte (CHR 0x22) < 0x80" by (simp add: byte_def)
  have "valid_utf8 [CHR 0x22]" by (rule valid_utf8_Cons [OF q]) simp
  then show ?thesis
    unfolding quote_def by (intro valid_utf8_Cons [OF q] valid_utf8_append valid_quote_body) simp
qed

lemma ascii_itoa: "ascii (itoa i)"
proof -
  have "ascii (dec n)" for n
    using dec_digits by (fastforce simp: ascii_def list_all_iff is_digit_def)
  then show ?thesis by (simp add: itoa_def ascii_def byte_def)
qed

lemma valid_print_json:
  "json_ok j \<Longrightarrow> valid_utf8 (print_json j)"
  "list_all json_ok js \<Longrightarrow> valid_utf8 (print_elems js)"
  "list_all (\<lambda>(n, j). json_ok j) ms \<Longrightarrow> valid_utf8 (print_members ms)"
proof (induction j and js and ms rule: print_json_print_elems_print_members.induct)
  case (3 lit)
  then show ?case using ascii_valid_utf8 [OF ascii_itoa] by (auto split: option.splits)
qed (simp_all add: valid_quote valid_utf8_append byte_def)

end
