(* ===== verification/Reflection.thy ===== *)
theory Reflection
  imports Validator Conflict_Loop Mirror Json_Utf8
begin

text \<open>
  What the two ends of the protocol share: the annotations the validator writes are read back by
  the watcher as the metadata of the Service, and two exports of the same Service agree for the
  conflict detector.
\<close>

section \<open>The annotations are a codec\<close>

definition spec_of_service :: "service \<Rightarrow> import_spec" where
  "spec_of_service svc =
     \<lparr>x_Type = localServiceImportType svc, x_Ports = localServicePorts svc,
      x_SessionAffinity = svc_SessionAffinity svc,
      x_SessionAffinityConfig = svc_SessionAffinityConfig svc, x_IPFamilies = svc_IPFamilies svc\<rparr>"

text \<open>The strings of a Service that go through JSON are valid UTF-8, as the API server requires.\<close>

definition service_utf8 :: "service \<Rightarrow> bool" where
  "service_utf8 svc =
     (list_all (\<lambda>p. valid_utf8 (sp_Name p) \<and> valid_utf8 (sp_Protocol p) \<and>
        (case sp_AppProtocol p of None \<Rightarrow> True | Some a \<Rightarrow> valid_utf8 a)) (elems (svc_Ports svc)) \<and>
      list_all valid_utf8 (elems (svc_IPFamilies svc)))"

lemma web_service_utf8 [simp]: "service_utf8 web_service" "service_utf8 (web_service\<lparr>svc_ClusterIP := ip\<rparr>)"
  by (simp_all add: service_utf8_def web_service_def ascii_valid_utf8 ascii_def byte_def)

lemma valid_localServicePorts:
  "service_utf8 svc \<Longrightarrow> list_all valid_mcs_port (elems (localServicePorts svc))"
  by (simp add: service_utf8_def localServicePorts_def list_all_iff valid_mcs_port_def
      localServicePort_def)

lemma print_sac_nonempty [simp]: "print_json (enc_sac sac) \<noteq> ''''"
  by (simp add: enc_sac_def)

lemma read_ports_written:
  "service_utf8 svc \<Longrightarrow> read_ports (writeAnnotations svc a) = Inr (localServicePorts svc)"
  by (simp add: read_ports_def port_codec.slice.unmarshal_marshal valid_localServicePorts)

lemma read_families_written:
  "service_utf8 svc \<Longrightarrow> read_families (writeAnnotations svc a) = Inr (svc_IPFamilies svc)"
  by (simp add: read_families_def family_codec.slice.unmarshal_marshal service_utf8_def)

lemma read_sac_written: "read_sac (writeAnnotations svc a) = Inr (svc_SessionAffinityConfig svc)"
  by (cases "svc_SessionAffinityConfig svc")
     (simp_all add: read_sac_def sac_codec.unmarshal_marshal)

lemma extract_annotate:
  assumes "service_utf8 svc"
  shows "extractAnnotations (annotate svc se) = Inr (spec_of_service svc)"
  using assms
  by (simp add: extractAnnotations_def annotate_def Let_def spec_of_service_def get0_def
      read_ports_written read_families_written read_sac_written)

lemma set_se_condition_meta [simp]: "se_meta (set_se_condition cond se) = se_meta se"
  by (simp add: set_se_condition_def)

lemma extract_set_condition [simp]:
  "extractAnnotations (set_se_condition cond se) = extractAnnotations se"
  unfolding extractAnnotations_def set_se_condition_meta ..

lemma summary_annotate:
  "summary_key (annotate svc se) =
     Some (localServiceImportType svc, print_json (enc_slice enc_mcs_port (localServicePorts svc)))"
  by (simp add: summary_key_def annotate_def get0_def)

text \<open>The summaries of validated exports tell the type and the ports of the Services apart.\<close>

lemma json_ok_ports: "service_utf8 svc \<Longrightarrow> json_ok (enc_slice enc_mcs_port (localServicePorts svc))"
  by (rule port_codec.slice.enc_ok [OF valid_localServicePorts])

lemma ascii_import_type: "ascii (localServiceImportType svc)"
  by (simp add: localServiceImportType_def api_const_defs ascii_def byte_def)

lemma summary_valid_annotate: "service_utf8 svc \<Longrightarrow> summary_valid (annotate svc se)"
  by (simp add: summary_valid_def summary_annotate ascii_valid_utf8 ascii_import_type
      valid_print_json(1) json_ok_ports)

lemma summary_key_annotate_eq:
  assumes "service_utf8 svc" "service_utf8 svc'"
  shows "summary_key (annotate svc se) = summary_key (annotate svc' se') \<longleftrightarrow>
    localServiceImportType svc = localServiceImportType svc' \<and>
    localServicePorts svc = localServicePorts svc'"
  using port_codec.slice.marshal_inj [OF valid_localServicePorts [OF assms(1)]
      valid_localServicePorts [OF assms(2)]]
  by (auto simp: summary_annotate)

end
