(* ===== verification/Selectors.thy ===== *)
theory Selectors
  imports Api_Types Go_Strings
begin

text \<open>
  The selectors an emitter request carries: \<open>labels.Selector\<close> and \<open>fields.Selector\<close> as
  \<open>vendor/k8s.io/apimachinery/pkg/labels/selector.go\<close> and \<open>fields/selector.go\<close> have them, and the
  three helpers of \<open>pkg/storage/storage.go\<close> that combine them. \<open>Add\<close> sorts by key with a sort that
  is not stable, so the sort is an argument (\<open>srt\<close>) of which only the elements are assumed.
\<close>

section \<open>Label selectors\<close>

datatype sel_operator =
  OpIn | OpNotIn | OpEquals | OpDoubleEquals | OpNotEquals | OpExists | OpDoesNotExist
| OpGreaterThan | OpLessThan | OpOther string

record requirement =
  r_key :: string
  r_operator :: sel_operator
  r_strValues :: "string list"

definition hasValue :: "requirement \<Rightarrow> string \<Rightarrow> bool" where
  "hasValue r v = list_ex (\<lambda>x. x = v) (r_strValues r)"

definition compare_values :: "requirement \<Rightarrow> string \<Rightarrow> bool" where
  "compare_values r val =
     (case ParseInt val of
        None \<Rightarrow> False
      | Some lsValue \<Rightarrow>
          (case r_strValues r of
             [v] \<Rightarrow>
               (case ParseInt v of
                  None \<Rightarrow> False
                | Some rValue \<Rightarrow>
                    (r_operator r = OpGreaterThan \<and> lsValue > rValue) \<or>
                    (r_operator r = OpLessThan \<and> lsValue < rValue))
           | _ \<Rightarrow> False))"

definition req_Matches :: "requirement \<Rightarrow> strmap \<Rightarrow> bool" where
  "req_Matches r ls =
     (if r_operator r \<in> {OpIn, OpEquals, OpDoubleEquals}
      then (case ls (r_key r) of None \<Rightarrow> False | Some val \<Rightarrow> hasValue r val)
      else if r_operator r \<in> {OpNotIn, OpNotEquals}
      then (case ls (r_key r) of None \<Rightarrow> True | Some val \<Rightarrow> \<not> hasValue r val)
      else if r_operator r = OpExists then ls (r_key r) \<noteq> None
      else if r_operator r = OpDoesNotExist then ls (r_key r) = None
      else if r_operator r \<in> {OpGreaterThan, OpLessThan}
      then (case ls (r_key r) of None \<Rightarrow> False | Some val \<Rightarrow> compare_values r val)
      else False)"

datatype label_selector = InternalSelector "requirement list" | NothingSelector

text \<open>The loop over the requirements returns at the first that does not match.\<close>

fun reqs_Matches :: "requirement list \<Rightarrow> strmap \<Rightarrow> bool" where
  "reqs_Matches [] l = True"
| "reqs_Matches (r # rs) l = (if \<not> req_Matches r l then False else reqs_Matches rs l)"

definition sel_Matches :: "label_selector \<Rightarrow> strmap \<Rightarrow> bool" where
  "sel_Matches s l =
     (case s of NothingSelector \<Rightarrow> False | InternalSelector rs \<Rightarrow> reqs_Matches rs l)"

definition Everything :: label_selector where "Everything = InternalSelector []"

definition sel_Requirements :: "label_selector \<Rightarrow> requirement list option" where
  "sel_Requirements s = (case s of InternalSelector rs \<Rightarrow> Some rs | NothingSelector \<Rightarrow> None)"

definition sel_Add ::
  "(requirement list \<Rightarrow> requirement list) \<Rightarrow> label_selector \<Rightarrow> requirement list \<Rightarrow> label_selector" where
  "sel_Add srt s reqs =
     (case s of
        InternalSelector rs \<Rightarrow> InternalSelector (srt (rs @ reqs))
      | NothingSelector \<Rightarrow> NothingSelector)"

section \<open>Field selectors\<close>

datatype field_selector =
  HasTerm string string
| NotHasTerm string string
| AndTerm "field_selector list"
| NothingField

fun field_Matches :: "field_selector \<Rightarrow> strmap \<Rightarrow> bool" where
  "field_Matches (HasTerm f v) ls = (get0 ls f = v)"
| "field_Matches (NotHasTerm f v) ls = (get0 ls f \<noteq> v)"
| "field_Matches (AndTerm ts) ls = list_all (\<lambda>q. field_Matches q ls) ts"
| "field_Matches NothingField ls = False"

definition ObjectMetaFieldsSet :: "object_meta \<Rightarrow> bool \<Rightarrow> strmap" where
  "ObjectMetaFieldsSet m hasNamespaceField =
     (if \<not> hasNamespaceField then [''metadata.name'' \<mapsto> om_Name m]
      else [''metadata.name'' \<mapsto> om_Name m, ''metadata.namespace'' \<mapsto> om_Namespace m])"

section \<open>The helpers of the storage\<close>

record internal_list_options =
  ilo_LabelSelector :: "label_selector option"
  ilo_FieldSelector :: "field_selector option"

definition mergeSelectors ::
  "(requirement list \<Rightarrow> requirement list) \<Rightarrow> label_selector \<Rightarrow> internal_list_options option \<Rightarrow>
   label_selector" where
  "mergeSelectors srt s options =
     (let ls = (case options of
                  None \<Rightarrow> Everything
                | Some opt \<Rightarrow>
                    (case ilo_LabelSelector opt of None \<Rightarrow> Everything | Some l \<Rightarrow> l))
      in (case sel_Requirements s of None \<Rightarrow> ls | Some r \<Rightarrow> sel_Add srt ls r))"

definition defaultFieldSelector :: "internal_list_options option \<Rightarrow> field_selector" where
  "defaultFieldSelector options =
     (case options of
        None \<Rightarrow> AndTerm []
      | Some opt \<Rightarrow> (case ilo_FieldSelector opt of None \<Rightarrow> AndTerm [] | Some f \<Rightarrow> f))"

definition matchNamespace :: "string \<Rightarrow> object_meta \<Rightarrow> bool" where
  "matchNamespace ns m = (ns = '''' \<or> om_Namespace m = ns)"

section \<open>What they select\<close>

lemma reqs_Matches_all: "reqs_Matches rs l = list_all (\<lambda>r. req_Matches r l) rs"
  by (induction rs) simp_all

lemma sel_Matches_Everything [simp]: "sel_Matches Everything l"
  by (simp add: Everything_def sel_Matches_def)

lemma sel_Requirements_Everything [simp]: "sel_Requirements Everything = Some []"
  by (simp add: Everything_def sel_Requirements_def)

lemma sel_Matches_Add:
  assumes "\<And>rs. set (srt rs) = set rs"
  shows "sel_Matches (sel_Add srt s reqs) l \<longleftrightarrow> sel_Matches s l \<and> list_all (\<lambda>r. req_Matches r l) reqs"
  using assms by (cases s) (auto simp: sel_Add_def sel_Matches_def reqs_Matches_all list_all_iff)

text \<open>What the request asks for, in terms of its options.\<close>

definition options_select :: "internal_list_options option \<Rightarrow> string \<Rightarrow> object_meta \<Rightarrow> bool" where
  "options_select options ns m =
     ((case options of
         None \<Rightarrow> True
       | Some opt \<Rightarrow>
           (case ilo_LabelSelector opt of None \<Rightarrow> True | Some l \<Rightarrow> sel_Matches l (om_Labels m)) \<and>
           (case ilo_FieldSelector opt of
              None \<Rightarrow> True
            | Some f \<Rightarrow> field_Matches f (ObjectMetaFieldsSet m True))) \<and>
      (ns \<noteq> '''' \<longrightarrow> om_Namespace m = ns))"

lemma helpers_select:
  assumes "\<And>rs. set (srt rs) = set rs"
  shows "sel_Matches (mergeSelectors srt Everything options) (om_Labels m) \<and>
      field_Matches (defaultFieldSelector options) (ObjectMetaFieldsSet m True) \<and>
      matchNamespace ns m \<longleftrightarrow> options_select options ns m"
  by (cases options)
     (auto simp: mergeSelectors_def defaultFieldSelector_def matchNamespace_def options_select_def
        sel_Matches_Add [OF assms] split: option.split)

end
