(* ===== verification/Storage.thy ===== *)
theory Storage
  imports Selectors Examples
begin

text \<open>
  \<open>pkg/storage/storage.go\<close>, the store behind the emitter's API: \<open>List\<close> and \<open>Watch\<close> for exports and for
  slices, and the handlers the informers call. A store holds items of any dynamic type, and a type
  assertion that fails is a panic (\<open>panic\<close>) or the code's comma-ok branch.
  The watchers registered with a store are a slice of pointers into a heap of watcher records; each
  knows the index it was added at, which its \<open>stop\<close> closure captured. \<open>stop\<close> works on the backing
  array, so a slice header read before it (\<open>stale\<close>) sees its writes.
\<close>

section \<open>Items, channels, watchers\<close>

datatype 'u item =
  ItemExport service_export
| ItemSlice endpoint_slice
| ItemUnstructured 'u
| ItemTombstone string "'u item"
| ItemOther

datatype panic = BadTypeAssertion | IndexOutOfRange | NilDereference | SendOnClosed | CloseOfClosed

datatype event_type = EventAdded | EventModified | EventDeleted

type_synonym 'u event = "event_type \<times> 'u item"

text \<open>The accessors of \<open>metav1.Object\<close>. The typed pointers and \<open>*Unstructured\<close> implement it and
  \<open>runtime.Object\<close>; a tombstone, a plain struct, implements neither. \<open>u_meta\<close> reads an
  unstructured object.\<close>

definition item_meta :: "('u \<Rightarrow> object_meta) \<Rightarrow> 'u item \<Rightarrow> object_meta option" where
  "item_meta u_meta it =
     (case it of
        ItemExport se \<Rightarrow> Some (se_meta se)
      | ItemSlice es \<Rightarrow> Some (es_meta es)
      | ItemUnstructured u \<Rightarrow> Some (u_meta u)
      | _ \<Rightarrow> None)"

record 'u chan =
  ch_buf :: "'u event list"
  ch_closed :: bool

definition chan_cap :: nat where "chan_cap = 100"

text \<open>\<open>select\<close> with a default: a full channel drops the event, a closed one panics.\<close>

definition nonBlockingSend :: "'u event \<Rightarrow> 'u chan \<Rightarrow> panic + 'u chan" where
  "nonBlockingSend e ch =
     (if ch_closed ch then Inl SendOnClosed
      else if length (ch_buf ch) < chan_cap then Inr (ch\<lparr>ch_buf := ch_buf ch @ [e]\<rparr>)
      else Inr ch)"

definition chan_recv :: "'u chan \<Rightarrow> 'u event option \<times> 'u chan" where
  "chan_recv ch =
     (case ch_buf ch of [] \<Rightarrow> (None, ch) | e # es \<Rightarrow> (Some e, ch\<lparr>ch_buf := es\<rparr>))"

record 'u swatcher =
  sw_ch :: "'u chan"
  sw_ls :: label_selector
  sw_fs :: field_selector
  sw_ns :: string
  sw_idx :: nat

text \<open>\<open>reg_ws\<close> is the slice \<open>ws\<close>: pointers, \<open>None\<close> for nil.\<close>

record 'u registry =
  reg_ws :: "nat option list"
  reg_heap :: "'u swatcher list"

definition empty_registry :: "'u registry" where
  "empty_registry = \<lparr>reg_ws = [], reg_heap = []\<rparr>"

section \<open>Registration\<close>

definition addWatcher ::
  "label_selector \<Rightarrow> field_selector \<Rightarrow> string \<Rightarrow> 'u registry \<Rightarrow> nat \<times> 'u registry" where
  "addWatcher ls fs ns r =
     (let i = length (reg_ws r);
          w = \<lparr>sw_ch = \<lparr>ch_buf = [], ch_closed = False\<rparr>, sw_ls = ls, sw_fs = fs, sw_ns = ns, sw_idx = i\<rparr>;
          a = length (reg_heap r)
      in (a, \<lparr>reg_ws = reg_ws r @ [Some a], reg_heap = reg_heap r @ [w]\<rparr>))"

text \<open>The writes of \<open>stop\<close> to the array, then the slice one shorter.\<close>

definition stop_array :: "nat \<Rightarrow> nat option list \<Rightarrow> nat option list" where
  "stop_array i ws = (ws[i := last ws])[length ws - 1 := None]"

definition stop_watcher :: "nat \<Rightarrow> 'u registry \<Rightarrow> panic + 'u registry" where
  "stop_watcher a r =
     (let i = sw_idx (reg_heap r ! a); n = length (reg_ws r)
      in if i < n then Inr (r\<lparr>reg_ws := take (n - 1) (stop_array i (reg_ws r))\<rparr>)
         else Inl IndexOutOfRange)"

definition close_chan :: "nat \<Rightarrow> 'u registry \<Rightarrow> panic + 'u registry" where
  "close_chan a r =
     (let w = reg_heap r ! a
      in if ch_closed (sw_ch w) then Inl CloseOfClosed
         else Inr (r\<lparr>reg_heap := (reg_heap r)[a := w\<lparr>sw_ch := (sw_ch w)\<lparr>ch_closed := True\<rparr>\<rparr>]\<rparr>))"

definition Stop :: "nat \<Rightarrow> 'u registry \<Rightarrow> panic + 'u registry" where
  "Stop a r = (case stop_watcher a r of Inl p \<Rightarrow> Inl p | Inr r1 \<Rightarrow> close_chan a r1)"

section \<open>Delivery\<close>

definition sw_selects :: "'u swatcher \<Rightarrow> object_meta \<Rightarrow> bool" where
  "sw_selects w m =
     (sel_Matches (sw_ls w) (om_Labels m) \<and>
      field_Matches (sw_fs w) (ObjectMetaFieldsSet m True) \<and> matchNamespace (sw_ns w) m)"

text \<open>The loop of \<open>handler\<close> over a slice of watchers.\<close>

fun deliver ::
  "nat option list \<Rightarrow> object_meta \<Rightarrow> 'u event \<Rightarrow> 'u swatcher list \<Rightarrow> panic + 'u swatcher list" where
  "deliver [] m e heap = Inr heap"
| "deliver (None # ws) m e heap = Inl NilDereference"
| "deliver (Some a # ws) m e heap =
     (let w = heap ! a
      in if \<not> sw_selects w m then deliver ws m e heap
         else
           (case nonBlockingSend e (sw_ch w) of
              Inl p \<Rightarrow> Inl p
            | Inr ch \<Rightarrow> deliver ws m e (heap[a := w\<lparr>sw_ch := ch\<rparr>])))"

text \<open>\<open>handler\<close>; \<open>ws\<close> is the slice the caller read, before the lock was taken.\<close>

definition handler ::
  "('u \<Rightarrow> object_meta) \<Rightarrow> nat option list \<Rightarrow> event_type \<Rightarrow> 'u item \<Rightarrow> 'u registry \<Rightarrow>
   panic + 'u registry" where
  "handler u_meta ws et obj r =
     (case item_meta u_meta obj of
        None \<Rightarrow> Inr r
      | Some mo \<Rightarrow>
          (case deliver ws mo (et, obj) (reg_heap r) of
             Inl p \<Rightarrow> Inl p
           | Inr heap \<Rightarrow> Inr (r\<lparr>reg_heap := heap\<rparr>)))"

section \<open>ServiceExports\<close>

text \<open>The handlers of an export store; the informer's store is passed to \<open>List\<close>.\<close>

definition se_OnAdd :: "('u \<Rightarrow> object_meta) \<Rightarrow> 'u item \<Rightarrow> 'u registry \<Rightarrow> panic + 'u registry" where
  "se_OnAdd u_meta obj r = handler u_meta (reg_ws r) EventAdded obj r"

definition se_OnDelete :: "('u \<Rightarrow> object_meta) \<Rightarrow> 'u item \<Rightarrow> 'u registry \<Rightarrow> panic + 'u registry" where
  "se_OnDelete u_meta obj r = handler u_meta (reg_ws r) EventDeleted obj r"

definition se_OnUpdate :: "('u \<Rightarrow> object_meta) \<Rightarrow> 'u item \<Rightarrow> 'u registry \<Rightarrow> panic + 'u registry" where
  "se_OnUpdate u_meta obj r = handler u_meta (reg_ws r) EventModified obj r"

datatype 'a list_result = NotReady | Listed 'a | ListPanic panic

fun se_list_items ::
  "label_selector \<Rightarrow> field_selector \<Rightarrow> string \<Rightarrow> 'u item list \<Rightarrow> panic + service_export list" where
  "se_list_items ls fs ns [] = Inr []"
| "se_list_items ls fs ns (item # items) =
     (case item of
        ItemExport se \<Rightarrow>
          (case se_list_items ls fs ns items of
             Inl p \<Rightarrow> Inl p
           | Inr rest \<Rightarrow>
               Inr (if \<not> sel_Matches ls (om_Labels (se_meta se)) then rest
                    else if \<not> field_Matches fs (ObjectMetaFieldsSet (se_meta se) True) then rest
                    else if \<not> matchNamespace ns (se_meta se) then rest
                    else se # rest))
      | _ \<Rightarrow> Inl BadTypeAssertion)"

definition se_List ::
  "(requirement list \<Rightarrow> requirement list) \<Rightarrow> bool \<Rightarrow> 'u item list \<Rightarrow> string \<Rightarrow>
   internal_list_options option \<Rightarrow> service_export list list_result" where
  "se_List srt synced store ns options =
     (if \<not> synced then NotReady
      else
        (case se_list_items (mergeSelectors srt Everything options) (defaultFieldSelector options) ns store of
           Inl p \<Rightarrow> ListPanic p
         | Inr items \<Rightarrow> Listed items))"

definition st_Watch ::
  "(requirement list \<Rightarrow> requirement list) \<Rightarrow> string \<Rightarrow> internal_list_options option \<Rightarrow> 'u registry \<Rightarrow>
   nat \<times> 'u registry" where
  "st_Watch srt ns options r =
     addWatcher (mergeSelectors srt Everything options) (defaultFieldSelector options) ns r"

section \<open>EndpointSlices\<close>

text \<open>\<open>exports\<close> is the set of keys of the export informer's store.\<close>

definition hasExport :: "string set \<Rightarrow> endpoint_slice \<Rightarrow> bool" where
  "hasExport exports es =
     (let svcName = get0 (om_Labels (es_meta es)) LabelServiceName
      in if svcName = '''' then False
         else om_Namespace (es_meta es) @ ''/'' @ svcName \<in> exports)"

definition es_OnAdd ::
  "('u \<Rightarrow> object_meta) \<Rightarrow> string set \<Rightarrow> 'u item \<Rightarrow> 'u registry \<Rightarrow> panic + 'u registry" where
  "es_OnAdd u_meta exports obj r =
     (case obj of
        ItemSlice es \<Rightarrow>
          if \<not> hasExport exports es then Inr r else handler u_meta (reg_ws r) EventAdded obj r
      | _ \<Rightarrow> Inr r)"

definition es_OnDelete ::
  "('u \<Rightarrow> object_meta) \<Rightarrow> string set \<Rightarrow> 'u item \<Rightarrow> 'u registry \<Rightarrow> panic + 'u registry" where
  "es_OnDelete u_meta exports obj r =
     (let found = (case obj of
                     ItemSlice es \<Rightarrow> Some es
                   | ItemTombstone _ (ItemSlice es) \<Rightarrow> Some es
                   | _ \<Rightarrow> None)
      in (case found of
            None \<Rightarrow> Inr r
          | Some es \<Rightarrow>
              if \<not> hasExport exports es then Inr r else handler u_meta (reg_ws r) EventDeleted obj r))"

definition es_OnUpdate ::
  "('u \<Rightarrow> object_meta) \<Rightarrow> string set \<Rightarrow> 'u item \<Rightarrow> 'u registry \<Rightarrow> panic + 'u registry" where
  "es_OnUpdate u_meta exports obj r =
     (case obj of
        ItemSlice es \<Rightarrow>
          if \<not> hasExport exports es then Inr r else handler u_meta (reg_ws r) EventModified obj r
      | _ \<Rightarrow> Inr r)"

fun es_list_items ::
  "string set \<Rightarrow> label_selector \<Rightarrow> field_selector \<Rightarrow> string \<Rightarrow> 'u item list \<Rightarrow>
   panic + endpoint_slice list" where
  "es_list_items exports ls fs ns [] = Inr []"
| "es_list_items exports ls fs ns (item # items) =
     (case item of
        ItemSlice es \<Rightarrow>
          (case es_list_items exports ls fs ns items of
             Inl p \<Rightarrow> Inl p
           | Inr rest \<Rightarrow>
               Inr (if \<not> sel_Matches ls (om_Labels (es_meta es)) then rest
                    else if \<not> field_Matches fs (ObjectMetaFieldsSet (es_meta es) True) then rest
                    else if \<not> matchNamespace ns (es_meta es) then rest
                    else if \<not> hasExport exports es then rest
                    else es # rest))
      | _ \<Rightarrow> Inl BadTypeAssertion)"

definition es_List ::
  "(requirement list \<Rightarrow> requirement list) \<Rightarrow> bool \<Rightarrow> bool \<Rightarrow> string set \<Rightarrow> 'u item list \<Rightarrow> string \<Rightarrow>
   internal_list_options option \<Rightarrow> endpoint_slice list list_result" where
  "es_List srt slices_synced exports_synced exports store ns options =
     (if \<not> slices_synced \<or> \<not> exports_synced then NotReady
      else
        (case es_list_items exports (mergeSelectors srt Everything options)
                (defaultFieldSelector options) ns store of
           Inl p \<Rightarrow> ListPanic p
         | Inr items \<Rightarrow> Listed items))"

definition es_Watch ::
  "(requirement list \<Rightarrow> requirement list) \<Rightarrow> string \<Rightarrow> internal_list_options option \<Rightarrow> 'u registry \<Rightarrow>
   nat \<times> 'u registry" where
  "es_Watch srt ns options r =
     addWatcher (mergeSelectors srt Everything options) (defaultFieldSelector options) ns r"

section \<open>A bounded buffer\<close>

text \<open>What a watcher's channel promises the code that sends to it and the client that reads it.\<close>

locale bounded_buffer =
  fixes send :: "'e \<Rightarrow> 'b \<Rightarrow> panic + 'b" and recv :: "'b \<Rightarrow> 'e option \<times> 'b"
    and content :: "'b \<Rightarrow> 'e list" and is_open :: "'b \<Rightarrow> bool" and cap :: nat
  assumes send_open: "is_open b \<Longrightarrow> \<exists>b'. send e b = Inr b' \<and> is_open b' \<and>
      content b' = (if length (content b) < cap then content b @ [e] else content b)"
    and recv_content: "content (snd (recv b)) = tl (content b)"
    and recv_result: "fst (recv b) = (case content b of [] \<Rightarrow> None | e # _ \<Rightarrow> Some e)"
    and recv_open: "is_open (snd (recv b)) = is_open b"
begin

fun send_list :: "'e list \<Rightarrow> 'b \<Rightarrow> panic + 'b" where
  "send_list [] b = Inr b"
| "send_list (e # es) b = (case send e b of Inl p \<Rightarrow> Inl p | Inr b' \<Rightarrow> send_list es b')"

lemma send_bound:
  "is_open b \<Longrightarrow> length (content b) \<le> cap \<Longrightarrow> send e b = Inr b' \<Longrightarrow> length (content b') \<le> cap"
  using send_open [of b e] by (auto split: if_splits)

text \<open>A client that does not read gets the first events that fit and loses all later ones.\<close>

lemma send_list_content:
  assumes "is_open b" "length (content b) \<le> cap"
  shows "\<exists>b'. send_list es b = Inr b' \<and> is_open b' \<and> content b' = take cap (content b @ es)"
  using assms
proof (induction es arbitrary: b)
  case (Cons e es)
  obtain b1 where b1: "send e b = Inr b1" "is_open b1"
      "content b1 = (if length (content b) < cap then content b @ [e] else content b)"
    using send_open [OF Cons.prems(1)] by blast
  have "length (content b1) \<le> cap" using Cons.prems(2) b1(3) by auto
  moreover have "take cap (content b1 @ es) = take cap (content b @ e # es)"
  proof (cases "length (content b) < cap")
    case True
    then have "content b1 @ es = content b @ e # es" using b1(3) by simp
    then show ?thesis by (simp only:)
  qed (use b1(3) Cons.prems(2) in simp)
  ultimately show ?case using Cons.IH [OF b1(2)] b1(1) by (simp del: take_append)
qed simp

end

interpretation chan: bounded_buffer nonBlockingSend chan_recv ch_buf "\<lambda>ch. \<not> ch_closed ch" chan_cap
  by unfold_locales (auto simp: nonBlockingSend_def chan_recv_def split: list.split)

section \<open>Registered watchers\<close>

text \<open>The invariant of the registry while no watcher but the newest is stopped: each pointer is to
  an open watcher that knows its own index.\<close>

definition sw_live :: "'u registry \<Rightarrow> nat \<Rightarrow> nat \<Rightarrow> bool" where
  "sw_live r j a =
     (a < length (reg_heap r) \<and> sw_idx (reg_heap r ! a) = j \<and>
      \<not> ch_closed (sw_ch (reg_heap r ! a)) \<and> length (ch_buf (sw_ch (reg_heap r ! a))) \<le> chan_cap)"

definition reg_live :: "'u registry \<Rightarrow> bool" where
  "reg_live r = (\<forall>j < length (reg_ws r). \<exists>a. reg_ws r ! j = Some a \<and> sw_live r j a)"

definition push :: "'u event \<Rightarrow> 'u swatcher \<Rightarrow> 'u swatcher" where
  "push e w = (let ch = sw_ch w in w\<lparr>sw_ch := ch\<lparr>ch_buf :=
     (if length (ch_buf ch) < chan_cap then ch_buf ch @ [e] else ch_buf ch)\<rparr>\<rparr>)"

lemma push_sel [simp]:
  "sw_idx (push e w) = sw_idx w" "ch_closed (sw_ch (push e w)) = ch_closed (sw_ch w)"
  "sw_selects (push e w) m = sw_selects w m"
  "length (ch_buf (sw_ch w)) \<le> chan_cap \<Longrightarrow> length (ch_buf (sw_ch (push e w))) \<le> chan_cap"
  by (auto simp: push_def sw_selects_def Let_def)

lemma send_push:
  "\<not> ch_closed (sw_ch w) \<Longrightarrow>
   \<exists>ch. nonBlockingSend e (sw_ch w) = Inr ch \<and> w\<lparr>sw_ch := ch\<rparr> = push e w"
  by (auto simp: nonBlockingSend_def push_def Let_def)

lemma reg_live_distinct: "reg_live r \<Longrightarrow> distinct (reg_ws r)"
  unfolding reg_live_def sw_live_def distinct_conv_nth by (metis option.inject)

lemma reg_live_at:
  "reg_live r \<Longrightarrow> x \<in> set (reg_ws r) \<Longrightarrow>
   \<exists>a. x = Some a \<and> a < length (reg_heap r) \<and> \<not> ch_closed (sw_ch (reg_heap r ! a))"
  unfolding reg_live_def sw_live_def in_set_conv_nth by metis

text \<open>Delivery to open watchers, each once.\<close>

lemma deliver_ok:
  assumes "distinct ws"
    and "\<And>x. x \<in> set ws \<Longrightarrow> \<exists>a. x = Some a \<and> a < length heap \<and> \<not> ch_closed (sw_ch (heap ! a))"
  shows "\<exists>heap'. deliver ws m e heap = Inr heap' \<and> length heap' = length heap \<and>
    (\<forall>a < length heap. heap' ! a =
       (if Some a \<in> set ws \<and> sw_selects (heap ! a) m then push e (heap ! a) else heap ! a))"
  using assms
proof (induction ws arbitrary: heap)
  case (Cons x ws)
  obtain b where b: "x = Some b" "b < length heap" "\<not> ch_closed (sw_ch (heap ! b))"
    using Cons.prems(2) by auto
  obtain ch where ch: "nonBlockingSend e (sw_ch (heap ! b)) = Inr ch"
      "(heap ! b)\<lparr>sw_ch := ch\<rparr> = push e (heap ! b)" using send_push [OF b(3)] by blast
  let ?h = "if sw_selects (heap ! b) m then heap[b := push e (heap ! b)] else heap"
  have "\<exists>a. y = Some a \<and> a < length ?h \<and> \<not> ch_closed (sw_ch (?h ! a))" if "y \<in> set ws" for y
  proof -
    obtain a where "y = Some a" "a < length heap" "\<not> ch_closed (sw_ch (heap ! a))"
      using Cons.prems(2) \<open>y \<in> set ws\<close> by auto
    then show ?thesis using b(3) by (cases "a = b") auto
  qed
  then obtain heap' where h: "deliver ws m e ?h = Inr heap'" "length heap' = length ?h"
      "\<forall>a < length ?h. heap' ! a =
         (if Some a \<in> set ws \<and> sw_selects (?h ! a) m then push e (?h ! a) else ?h ! a)"
    using Cons.IH [of ?h] Cons.prems(1) by auto
  have "deliver (x # ws) m e heap = Inr heap'" using h(1) ch b(1) by (auto simp: Let_def split: if_splits)
  moreover have "heap' ! a = (if Some a \<in> set (x # ws) \<and> sw_selects (heap ! a) m
      then push e (heap ! a) else heap ! a)" if "a < length heap" for a
    using h(2,3) that b Cons.prems(1) by (auto simp: nth_list_update split: if_splits)
  ultimately show ?case using h(2) by auto
qed simp

lemma deliver_append_nil:
  assumes "deliver ws m e heap = Inr heap'"
  shows "deliver (ws @ None # rest) m e heap = Inl NilDereference"
  using assms by (induction ws m e heap rule: deliver.induct) (auto simp: Let_def split: if_splits sum.splits)

lemma handler_ok:
  assumes "reg_live r" "item_meta u_meta obj = Some m"
  shows "\<exists>r1. handler u_meta (reg_ws r) et obj r = Inr r1 \<and> reg_live r1 \<and> reg_ws r1 = reg_ws r \<and>
    length (reg_heap r1) = length (reg_heap r) \<and>
    (\<forall>a < length (reg_heap r). reg_heap r1 ! a =
       (if Some a \<in> set (reg_ws r) \<and> sw_selects (reg_heap r ! a) m
        then push (et, obj) (reg_heap r ! a) else reg_heap r ! a))"
proof -
  obtain heap' where h: "deliver (reg_ws r) m (et, obj) (reg_heap r) = Inr heap'"
      "length heap' = length (reg_heap r)"
      "\<forall>a < length (reg_heap r). heap' ! a =
         (if Some a \<in> set (reg_ws r) \<and> sw_selects (reg_heap r ! a) m
          then push (et, obj) (reg_heap r ! a) else reg_heap r ! a)"
    using deliver_ok [OF reg_live_distinct reg_live_at] assms(1) by blast
  have "sw_live (r\<lparr>reg_heap := heap'\<rparr>) j a" if "sw_live r j a" for j a
    using that h(2,3) by (simp add: sw_live_def)
  then have "reg_live (r\<lparr>reg_heap := heap'\<rparr>)" using assms(1) by (fastforce simp: reg_live_def)
  then show ?thesis using h assms(2) by (simp add: handler_def)
qed

lemma handler_other: "item_meta u_meta obj = None \<Longrightarrow> handler u_meta ws et obj r = Inr r"
  by (simp add: handler_def)

text \<open>A sequence of notifications of one informer, and the part of it that a watcher selects.\<close>

fun handle_all ::
  "('u \<Rightarrow> object_meta) \<Rightarrow> 'u event list \<Rightarrow> 'u registry \<Rightarrow> panic + 'u registry" where
  "handle_all u_meta [] r = Inr r"
| "handle_all u_meta ((et, obj) # evs) r =
     (case handler u_meta (reg_ws r) et obj r of
        Inl p \<Rightarrow> Inl p
      | Inr r1 \<Rightarrow> handle_all u_meta evs r1)"

definition selected_events :: "('u \<Rightarrow> object_meta) \<Rightarrow> 'u swatcher \<Rightarrow> 'u event list \<Rightarrow> 'u event list" where
  "selected_events u_meta w =
     filter (\<lambda>(et, obj). case item_meta u_meta obj of None \<Rightarrow> False | Some m \<Rightarrow> sw_selects w m)"

lemma selected_push [simp]: "selected_events u_meta (push e w) = selected_events u_meta w"
  unfolding selected_events_def push_sel ..

lemma push_buf: "ch_buf (sw_ch (push e w)) =
    (if length (ch_buf (sw_ch w)) < chan_cap then ch_buf (sw_ch w) @ [e] else ch_buf (sw_ch w))"
  by (simp add: push_def Let_def)

lemma take_push:
  "length xs \<le> n \<Longrightarrow> take n ((if length xs < n then xs @ [e] else xs) @ es) = take n (xs @ e # es)"
proof (cases "length xs < n")
  case True
  then have "(if length xs < n then xs @ [e] else xs) @ es = xs @ e # es" by simp
  then show ?thesis by (simp only:)
qed simp

lemma handle_all_content:
  assumes "reg_live r" "Some a \<in> set (reg_ws r)"
  shows "\<exists>r1. handle_all u_meta evs r = Inr r1 \<and> reg_live r1 \<and> reg_ws r1 = reg_ws r \<and>
    ch_buf (sw_ch (reg_heap r1 ! a)) =
      take chan_cap (ch_buf (sw_ch (reg_heap r ! a)) @ selected_events u_meta (reg_heap r ! a) evs)"
  using assms
proof (induction evs arbitrary: r)
  case Nil
  then have "length (ch_buf (sw_ch (reg_heap r ! a))) \<le> chan_cap"
    by (auto simp: reg_live_def sw_live_def in_set_conv_nth)
  then show ?case using Nil by (simp add: selected_events_def)
next
  case (Cons ev evs)
  obtain et obj where ev: "ev = (et, obj)" by (cases ev)
  have a: "a < length (reg_heap r)" "length (ch_buf (sw_ch (reg_heap r ! a))) \<le> chan_cap"
    using Cons.prems by (auto simp: reg_live_def sw_live_def in_set_conv_nth)
  show ?case
  proof (cases "item_meta u_meta obj")
    case None
    then show ?thesis using Cons.IH [OF Cons.prems] by (simp add: ev handler_other selected_events_def)
  next
    case (Some m)
    obtain r1 where r1: "handler u_meta (reg_ws r) et obj r = Inr r1" "reg_live r1" "reg_ws r1 = reg_ws r"
        "reg_heap r1 ! a = (if sw_selects (reg_heap r ! a) m then push (et, obj) (reg_heap r ! a)
           else reg_heap r ! a)"
      using handler_ok [OF Cons.prems(1) Some, of et] a(1) Cons.prems(2) by auto
    have sel: "selected_events u_meta (reg_heap r1 ! a) evs = selected_events u_meta (reg_heap r ! a) evs"
      using r1(4) by simp
    have "take chan_cap (ch_buf (sw_ch (reg_heap r1 ! a)) @ selected_events u_meta (reg_heap r ! a) evs) =
        take chan_cap (ch_buf (sw_ch (reg_heap r ! a)) @ selected_events u_meta (reg_heap r ! a) (ev # evs))"
      using r1(4) Some ev take_push [OF a(2), of "(et, obj)"]
      by (simp add: push_buf selected_events_def del: take_append)
    then show ?thesis using Cons.IH [OF r1(2)] r1(1,3) Cons.prems(2) by (simp add: ev sel del: take_append)
  qed
qed

lemma reg_live_empty [simp]: "reg_live empty_registry"
  by (simp add: reg_live_def empty_registry_def)

lemma reg_live_add:
  assumes "reg_live r"
  shows "reg_live (snd (addWatcher ls fs ns r))"
    "reg_ws (snd (addWatcher ls fs ns r)) = reg_ws r @ [Some (length (reg_heap r))]"
    "fst (addWatcher ls fs ns r) = length (reg_heap r)"
  using assms
  by (auto simp: addWatcher_def Let_def reg_live_def sw_live_def nth_append less_Suc_eq)

text \<open>Stopping the newest watcher only takes it off the slice and closes its channel.\<close>

lemma Stop_newest:
  assumes "reg_live r" "reg_ws r = ws @ [Some a]"
  shows "\<exists>r1. Stop a r = Inr r1 \<and> reg_live r1 \<and> reg_ws r1 = ws \<and>
    (\<forall>b < length (reg_heap r). b \<noteq> a \<longrightarrow> reg_heap r1 ! b = reg_heap r ! b)"
proof -
  have a: "sw_live r (length ws) a"
    using assms by (auto simp: reg_live_def dest!: spec [of _ "length ws"])
  have idx: "sw_live r j b" if "j < length ws" "ws ! j = Some b" for j b
    using assms that by (auto simp: reg_live_def nth_append dest!: spec [of _ j])
  have some: "\<exists>b. ws ! j = Some b \<and> b \<noteq> a" if "j < length ws" for j
    using assms that a by (auto simp: reg_live_def sw_live_def nth_append dest!: spec [of _ j])
  have st: "take (length ws) (stop_array (length ws) (ws @ [Some a])) = ws"
    by (simp add: stop_array_def)
  let ?w = "reg_heap r ! a"
  let ?r1 = "r\<lparr>reg_ws := ws, reg_heap := (reg_heap r)[a := ?w\<lparr>sw_ch := (sw_ch ?w)\<lparr>ch_closed := True\<rparr>\<rparr>]\<rparr>"
  have "Stop a r = Inr ?r1"
    using a st assms(2) by (simp add: Stop_def stop_watcher_def close_chan_def Let_def sw_live_def)
  moreover have "reg_live ?r1"
    using idx some by (fastforce simp: reg_live_def sw_live_def)
  ultimately show ?thesis by auto
qed

section \<open>Listing\<close>

definition typed_exports :: "'u item list \<Rightarrow> service_export list option" where
  "typed_exports items = those (map (\<lambda>it. case it of ItemExport se \<Rightarrow> Some se | _ \<Rightarrow> None) items)"

definition typed_slices :: "'u item list \<Rightarrow> endpoint_slice list option" where
  "typed_slices items = those (map (\<lambda>it. case it of ItemSlice es \<Rightarrow> Some es | _ \<Rightarrow> None) items)"

lemma typed_exports_items: "typed_exports (map ItemExport ses) = Some ses"
  by (induction ses) (simp_all add: typed_exports_def)

lemma se_list_items_typed:
  "se_list_items ls fs ns items =
     (case typed_exports items of
        None \<Rightarrow> Inl BadTypeAssertion
      | Some ses \<Rightarrow> Inr (filter (\<lambda>se. sel_Matches ls (om_Labels (se_meta se)) \<and>
          field_Matches fs (ObjectMetaFieldsSet (se_meta se) True) \<and> matchNamespace ns (se_meta se)) ses))"
  by (induction items) (auto simp: typed_exports_def split: item.splits option.splits)

lemma es_list_items_typed:
  "es_list_items exports ls fs ns items =
     (case typed_slices items of
        None \<Rightarrow> Inl BadTypeAssertion
      | Some ess \<Rightarrow> Inr (filter (\<lambda>es. sel_Matches ls (om_Labels (es_meta es)) \<and>
          field_Matches fs (ObjectMetaFieldsSet (es_meta es) True) \<and> matchNamespace ns (es_meta es) \<and>
          hasExport exports es) ess))"
  by (induction items) (auto simp: typed_slices_def split: item.splits option.splits)

section \<open>Properties\<close>

text \<open>C19. \<open>List\<close> is exact: with both informers synced, the export store lists exactly the exports of the
  informer's store that the request's label selector, field selector and namespace select, and the
  slice store exactly the slices they select whose Service has an export, each in the store's order;
  before the sync both return the error, and an item of another dynamic type is a panic.\<close>

theorem list_exact:
  assumes srt: "\<And>rs. set (srt rs) = set rs"
  shows "se_List srt synced store ns options =
      (if \<not> synced then NotReady
       else (case typed_exports store of
               None \<Rightarrow> ListPanic BadTypeAssertion
             | Some ses \<Rightarrow> Listed (filter (\<lambda>se. options_select options ns (se_meta se)) ses))) \<and>
    es_List srt synced esynced exports slices ns options =
      (if \<not> (synced \<and> esynced) then NotReady
       else (case typed_slices slices of
               None \<Rightarrow> ListPanic BadTypeAssertion
             | Some ess \<Rightarrow> Listed (filter (\<lambda>es. options_select options ns (es_meta es) \<and>
                 hasExport exports es) ess)))"
  using helpers_select [OF srt, of options, symmetric]
  by (auto simp: se_List_def es_List_def se_list_items_typed es_list_items_typed
      split: option.split)

theorem list_exact_witness:
  "se_List id True [ItemExport web_export :: unit item] ''shop'' None = Listed [web_export] \<and>
   se_List id True [ItemExport web_export :: unit item] ''other'' None = Listed []"
  using list_exact [of id True "[ItemExport web_export :: unit item]" _ None True "{}" "[] :: unit item list"]
  by (simp add: typed_exports_def options_select_def web_export_def web_meta_def)

text \<open>C20. Delivery: while the registry is live, every registered watcher open and with the right index (which
  holds as long as only newest watchers stop, and fails after \<open>stale_stop_breaks_delivery\<close>), an event of an
  informer does not panic; it is put once into the channel of every registered watcher that selects the
  object and has room, dropped where the channel is full (\<open>push\<close>), and no other watcher gets it.\<close>

theorem handler_delivers:
  assumes "reg_live r" "item_meta u_meta obj = Some m"
  shows "\<exists>r1. handler u_meta (reg_ws r) et obj r = Inr r1 \<and> reg_live r1 \<and> reg_ws r1 = reg_ws r \<and>
    (\<forall>a < length (reg_heap r). reg_heap r1 ! a =
       (if Some a \<in> set (reg_ws r) \<and> sw_selects (reg_heap r ! a) m
        then push (et, obj) (reg_heap r ! a) else reg_heap r ! a))"
  using handler_ok [OF assms, of et] by blast

theorem handler_delivers_witness:
  "case handler (\<lambda>u. u) [Some 0] EventAdded (ItemExport web_export)
      (snd (addWatcher Everything (AndTerm []) ''shop'' empty_registry)) of
     Inr r1 \<Rightarrow> ch_buf (sw_ch (reg_heap r1 ! 0)) = [(EventAdded, ItemExport web_export)]
   | Inl p \<Rightarrow> False"
proof -
  let ?r = "snd (addWatcher Everything (AndTerm []) ''shop'' empty_registry) :: object_meta registry"
  have ws: "reg_ws ?r = [Some 0]" by (simp add: addWatcher_def empty_registry_def Let_def)
  have "\<exists>r1. handler (\<lambda>u. u) (reg_ws ?r) EventAdded (ItemExport web_export) ?r = Inr r1 \<and>
      reg_live r1 \<and> reg_ws r1 = reg_ws ?r \<and>
      (\<forall>a < length (reg_heap ?r). reg_heap r1 ! a =
         (if Some a \<in> set (reg_ws ?r) \<and> sw_selects (reg_heap ?r ! a) (se_meta web_export)
          then push (EventAdded, ItemExport web_export) (reg_heap ?r ! a) else reg_heap ?r ! a))"
    by (rule handler_delivers [OF reg_live_add(1) [OF reg_live_empty]]) (simp add: item_meta_def)
  then show ?thesis
    by (auto simp: ws addWatcher_def empty_registry_def Let_def sw_selects_def matchNamespace_def
        web_export_def web_meta_def push_def chan_cap_def)
qed

text \<open>A watcher that is stopped while it is the newest leaves the registry as it was before it was
  added: the same watchers registered, each with the channel it had, and its own channel closed.\<close>

theorem stop_newest_undoes_add:
  assumes "reg_live r" "addWatcher ls fs ns r = (a, r1)"
  shows "\<exists>r2. Stop a r1 = Inr r2 \<and> reg_live r2 \<and> reg_ws r2 = reg_ws r \<and>
    (\<forall>b < length (reg_heap r). reg_heap r2 ! b = reg_heap r ! b)"
proof -
  have r1: "reg_live r1" "reg_ws r1 = reg_ws r @ [Some a]" "a = length (reg_heap r)"
    using reg_live_add [OF assms(1), of ls fs ns] assms(2) by simp_all
  have heap: "length (reg_heap r1) = Suc (length (reg_heap r))"
      "b < length (reg_heap r) \<Longrightarrow> reg_heap r1 ! b = reg_heap r ! b" for b
    using assms(2) by (auto simp: addWatcher_def Let_def nth_append)
  show ?thesis using Stop_newest [OF r1(1,2)] heap r1(3) by fastforce
qed

theorem stop_newest_undoes_add_witness:
  "case Stop (fst (addWatcher Everything (AndTerm []) [] (empty_registry :: unit registry)))
      (snd (addWatcher Everything (AndTerm []) [] (empty_registry :: unit registry))) of
     Inr r2 \<Rightarrow> reg_ws r2 = [] | Inl p \<Rightarrow> False"
  using stop_newest_undoes_add [OF reg_live_empty surjective_pairing, of Everything "AndTerm []" "[]",
      where 'a = unit]
  by (auto simp: empty_registry_def)

text \<open>The index \<open>stop\<close> captured is stale once an older watcher was stopped: with two watchers, stopping
  the first and then the second panics with an index out of range.\<close>

theorem stop_in_order_panics:
  assumes "addWatcher ls fs ns empty_registry = (a, r1)" "addWatcher ls' fs' ns' r1 = (b, r2)"
    and "Stop a r2 = Inr r3"
  shows "Stop b r3 = Inl IndexOutOfRange"
  using assms
  by (auto simp: addWatcher_def Let_def empty_registry_def Stop_def stop_watcher_def close_chan_def
      stop_array_def)

theorem stop_in_order_panics_witness:
  "case Stop 0 (snd (addWatcher Everything (AndTerm []) []
      (snd (addWatcher Everything (AndTerm []) [] (empty_registry :: unit registry))))) of
     Inr r3 \<Rightarrow> Stop 1 r3 = Inl IndexOutOfRange | Inl p \<Rightarrow> False"
proof -
  let ?r1 = "snd (addWatcher Everything (AndTerm []) [] (empty_registry :: unit registry))"
  let ?r2 = "snd (addWatcher Everything (AndTerm []) [] ?r1)"
  have a: "addWatcher Everything (AndTerm []) [] empty_registry = (0, ?r1)"
    "addWatcher Everything (AndTerm []) [] ?r1 = (1, ?r2)"
    by (simp_all add: addWatcher_def Let_def empty_registry_def)
  obtain r3 where "Stop 0 ?r2 = Inr r3"
    by (auto simp: Stop_def stop_watcher_def close_chan_def addWatcher_def Let_def empty_registry_def)
  then show ?thesis using stop_in_order_panics [OF a] by auto
qed

text \<open>With a stale index \<open>stop\<close> removes another watcher: add three watchers, stop the second, add a
  fourth and stop the third. Then the fourth, still in use, is no longer registered, the third is,
  and the next event that the remaining watchers select panics with a send on a closed channel.\<close>

theorem stale_stop_breaks_delivery:
  assumes sel: "sel_Matches ls (om_Labels m)" "field_Matches fs (ObjectMetaFieldsSet m True)"
      "matchNamespace ns m"
    and obj: "item_meta u_meta obj = Some m"
    and add: "r3 = snd (addWatcher ls fs ns (snd (addWatcher ls fs ns
        (snd (addWatcher ls fs ns empty_registry)))))"
      "Stop 1 r3 = Inr r4" "Stop 2 (snd (addWatcher ls fs ns r4)) = Inr r5"
  shows "reg_ws r5 = [Some 0, Some 2] \<and> handler u_meta (reg_ws r5) et obj r5 = Inl SendOnClosed"
proof -
  note defs = addWatcher_def Let_def empty_registry_def Stop_def stop_watcher_def close_chan_def
    stop_array_def
  show ?thesis
    using add obj sel
    by (auto simp: defs handler_def nonBlockingSend_def chan_cap_def sw_selects_def)
qed

theorem stale_stop_breaks_delivery_witness:
  "case Stop 1 (snd (addWatcher Everything (AndTerm []) [] (snd (addWatcher Everything (AndTerm []) []
        (snd (addWatcher Everything (AndTerm []) [] (empty_registry :: object_meta registry))))))) of
     Inl p \<Rightarrow> False
   | Inr r4 \<Rightarrow>
       (case Stop 2 (snd (addWatcher Everything (AndTerm []) [] r4)) of
          Inl p \<Rightarrow> False
        | Inr r5 \<Rightarrow> se_OnAdd (\<lambda>u. u) (ItemExport web_export) r5 = Inl SendOnClosed)"
proof -
  let ?r3 = "snd (addWatcher Everything (AndTerm []) [] (snd (addWatcher Everything (AndTerm []) []
        (snd (addWatcher Everything (AndTerm []) [] (empty_registry :: object_meta registry))))))"
  note defs = addWatcher_def Let_def empty_registry_def Stop_def stop_watcher_def close_chan_def
    stop_array_def
  obtain r4 where r4: "Stop 1 ?r3 = Inr r4" by (auto simp: defs)
  obtain r5 where r5: "Stop 2 (snd (addWatcher Everything (AndTerm []) [] r4)) = Inr r5"
    using r4 by (auto simp: defs)
  have "handler (\<lambda>u. u) (reg_ws r5) EventAdded (ItemExport web_export) r5 = Inl SendOnClosed"
    by (rule stale_stop_breaks_delivery [OF _ _ _ _ refl r4 r5, THEN conjunct2, of "se_meta web_export"])
       (simp_all add: matchNamespace_def item_meta_def)
  then show ?thesis unfolding se_OnAdd_def r4 by (simp add: r5)
qed

text \<open>C38. A client that does not read: after any sequence of events of the informer, no event panics,
  and the channel of a registered watcher holds the first hundred of what it held and the events it
  selects, in order; all later ones are lost without a trace.\<close>

theorem slow_client_loses_events:
  assumes "reg_live r" "Some a \<in> set (reg_ws r)"
  shows "\<exists>r1. handle_all u_meta evs r = Inr r1 \<and> reg_live r1 \<and>
    ch_buf (sw_ch (reg_heap r1 ! a)) =
      take chan_cap (ch_buf (sw_ch (reg_heap r ! a)) @ selected_events u_meta (reg_heap r ! a) evs)"
  using handle_all_content [OF assms] by blast

theorem slow_client_loses_events_witness:
  "case handle_all (\<lambda>u. u) (replicate 101 (EventModified, ItemExport web_export))
      (snd (addWatcher Everything (AndTerm []) [] empty_registry)) of
     Inl p \<Rightarrow> False
   | Inr r1 \<Rightarrow> ch_buf (sw_ch (reg_heap r1 ! 0)) = replicate 100 (EventModified, ItemExport web_export)"
proof -
  let ?r = "snd (addWatcher Everything (AndTerm []) [] empty_registry) :: object_meta registry"
  let ?e = "(EventModified, ItemExport web_export)"
  have r: "Some 0 \<in> set (reg_ws ?r)" "ch_buf (sw_ch (reg_heap ?r ! 0)) = []"
    by (simp_all add: addWatcher_def empty_registry_def Let_def)
  have "sw_selects (reg_heap ?r ! 0) (se_meta web_export)"
    by (simp add: addWatcher_def empty_registry_def Let_def sw_selects_def matchNamespace_def)
  then have "selected_events (\<lambda>u. u) (reg_heap ?r ! 0) (replicate n ?e) = replicate n ?e" for n
    by (induction n) (simp_all add: selected_events_def item_meta_def)
  then show ?thesis
    using slow_client_loses_events [OF reg_live_add(1) [OF reg_live_empty] r(1),
        of "\<lambda>u. u" "replicate 101 ?e"]
    by (auto simp: r(2) chan_cap_def)
qed

text \<open>Fed by a dynamic informer, as the binary does, the store holds unstructured objects. Then every
  event of a slice is dropped, and \<open>List\<close> panics for either kind as soon as the store is not empty.\<close>

theorem unstructured_items_break_emitter:
  "es_OnAdd u_meta exports (ItemUnstructured u) r = Inr r \<and>
   es_OnUpdate u_meta exports (ItemUnstructured u) r = Inr r \<and>
   es_OnDelete u_meta exports (ItemUnstructured u) r = Inr r \<and>
   se_List srt True (ItemUnstructured u # items) ns options = ListPanic BadTypeAssertion \<and>
   es_List srt True True exports (ItemUnstructured u # slices) ns options = ListPanic BadTypeAssertion"
  by (simp add: es_OnAdd_def es_OnUpdate_def es_OnDelete_def se_List_def es_List_def)

text \<open>Deletions that are lost: one learnt from a relist (a tombstone) is not sent to anybody, for
  exports and for slices, although the slice handler looks into the tombstone; and once the export
  of a Service is gone, the deletion of its slices is not sent either.\<close>

theorem deletions_lost:
  "se_OnDelete u_meta (ItemTombstone key it) r = Inr r \<and>
   es_OnDelete u_meta exports (ItemTombstone key it) r = Inr r \<and>
   es_OnDelete u_meta
     (exports - {om_Namespace (es_meta es) @ ''/'' @ get0 (om_Labels (es_meta es)) LabelServiceName})
     (ItemSlice es) r = Inr r"
  by (auto simp: se_OnDelete_def es_OnDelete_def handler_def item_meta_def hasExport_def Let_def
      split: item.split)

text \<open>The slice of watchers is read before the lock is taken: a handler that read it before the newest
  watcher was stopped, and runs its loop after, meets the nil pointer that \<open>stop\<close> wrote and panics.\<close>

theorem stale_slice_panics:
  assumes "reg_live r" "reg_ws r = ws @ [Some a]" "Stop a r = Inr r1"
    and "item_meta u_meta obj = Some m"
  shows "handler u_meta (stop_array (length ws) (reg_ws r)) et obj r1 = Inl NilDereference"
proof -
  have r1: "reg_live r1" "reg_ws r1 = ws" using Stop_newest [OF assms(1,2)] assms(3) by auto
  have arr: "stop_array (length ws) (reg_ws r) = ws @ [None]"
    by (simp add: assms(2) stop_array_def)
  obtain heap' where "deliver ws m (et, obj) (reg_heap r1) = Inr heap'"
    using deliver_ok [OF reg_live_distinct [OF r1(1)] reg_live_at [OF r1(1)]] r1(2) by metis
  from deliver_append_nil [OF this] show ?thesis
    using assms(4) by (simp add: handler_def arr)
qed

theorem stale_slice_panics_witness:
  "case Stop 0 (snd (addWatcher Everything (AndTerm []) [] (empty_registry :: object_meta registry))) of
     Inl p \<Rightarrow> False
   | Inr r1 \<Rightarrow> handler (\<lambda>u. u) (stop_array 0 [Some 0]) EventAdded (ItemExport web_export) r1 =
       Inl NilDereference"
proof -
  let ?r = "snd (addWatcher Everything (AndTerm []) [] (empty_registry :: object_meta registry))"
  have ws: "reg_ws ?r = [] @ [Some 0]" by (simp add: addWatcher_def empty_registry_def Let_def)
  obtain r1 where r1: "Stop 0 ?r = Inr r1"
    using Stop_newest [OF reg_live_add(1) [OF reg_live_empty] ws] by blast
  have "handler (\<lambda>u. u) (stop_array (length ([] :: nat option list)) (reg_ws ?r)) EventAdded (ItemExport web_export) r1 =
      Inl NilDereference"
    by (rule stale_slice_panics [OF reg_live_add(1) [OF reg_live_empty] ws r1])
       (simp add: item_meta_def)
  then show ?thesis using ws by (simp add: r1)
qed

end
