(* ===== verification/Apiserver.thy ===== *)
theory Apiserver
  imports Storage
begin

text \<open>
  \<open>pkg/apiserver/apiserver.go\<close>, with the constructors and the accessors of the two storages of
  \<open>pkg/storage/storage.go\<close>: the scheme the package builds when it is loaded, \<open>Complete\<close>, and \<open>New\<close>,
  which makes the generic server and one storage for each of the two resources, registers each
  storage with its informer, and installs the two API groups. Informers are values of a type \<open>'i\<close>.
\<close>

section \<open>The scheme\<close>

type_synonym gvk = "string \<times> string \<times> string"

definition with_kinds :: "string \<Rightarrow> string \<Rightarrow> string list \<Rightarrow> gvk set" where
  "with_kinds grp version kinds = (\<lambda>k. (grp, version, k)) ` set kinds"

definition metav1_AddToGroupVersion :: "string \<Rightarrow> string \<Rightarrow> gvk set \<Rightarrow> gvk set" where
  "metav1_AddToGroupVersion grp version scheme =
     scheme \<union> with_kinds grp version
       [''WatchEvent'', ''ListOptions'', ''GetOptions'', ''DeleteOptions'', ''CreateOptions'',
        ''UpdateOptions'', ''PatchOptions''] \<union>
     {(grp, ''__internal'', ''WatchEvent'')} \<union>
     with_kinds '''' ''v1'' [''Status'', ''APIVersions'', ''APIGroupList'', ''APIGroup'', ''APIResourceList'']"

definition mcs_Install :: "gvk set \<Rightarrow> gvk set" where
  "mcs_Install scheme =
     metav1_AddToGroupVersion ''multicluster.x-k8s.io'' ''v1beta1''
       (scheme \<union> with_kinds ''multicluster.x-k8s.io'' ''v1beta1''
          [''ServiceExport'', ''ServiceExportList'', ''ServiceImport'', ''ServiceImportList''])"

definition discovery_Install :: "gvk set \<Rightarrow> gvk set" where
  "discovery_Install scheme =
     metav1_AddToGroupVersion ''discovery.k8s.io'' ''v1''
       (scheme \<union> with_kinds ''discovery.k8s.io'' ''v1'' [''EndpointSlice'', ''EndpointSliceList''])"

text \<open>\<open>init\<close>; the two registrations return no error, so neither panic is taken.\<close>

definition apiserver_Scheme :: "gvk set" where
  "apiserver_Scheme =
     (let s1 = metav1_AddToGroupVersion '''' ''v1'' {};
          s2 = s1 \<union> with_kinds '''' ''v1''
            [''Status'', ''APIVersions'', ''APIGroupList'', ''APIGroup'', ''APIResourceList'']
      in discovery_Install (mcs_Install s2))"

section \<open>The storages\<close>

text \<open>A storage by its informers; the registry of its watchers is in \<open>Storage\<close>.\<close>

datatype 'i storage = ServiceExportStorage 'i | EndpointSliceStorage 'i 'i

definition NewServiceExportStorage :: "'i \<Rightarrow> 'i storage" where
  "NewServiceExportStorage informer = ServiceExportStorage informer"

definition NewEndpointSliceStorage :: "'i \<Rightarrow> 'i \<Rightarrow> 'i storage" where
  "NewEndpointSliceStorage sliceInformer exportInformer =
     EndpointSliceStorage sliceInformer exportInformer"

text \<open>\<open>New\<close> and \<open>NewList\<close> by the type of the object they make, \<open>Kind\<close>, \<open>NamespaceScoped\<close>, and the
  resource of the table convertor.\<close>

fun st_New :: "'i storage \<Rightarrow> gvk" where
  "st_New (ServiceExportStorage _) = (''multicluster.x-k8s.io'', ''v1beta1'', ''ServiceExport'')"
| "st_New (EndpointSliceStorage _ _) = (''discovery.k8s.io'', ''v1'', ''EndpointSlice'')"

fun st_NewList :: "'i storage \<Rightarrow> gvk" where
  "st_NewList (ServiceExportStorage _) = (''multicluster.x-k8s.io'', ''v1beta1'', ''ServiceExportList'')"
| "st_NewList (EndpointSliceStorage _ _) = (''discovery.k8s.io'', ''v1'', ''EndpointSliceList'')"

fun st_Kind :: "'i storage \<Rightarrow> string" where
  "st_Kind (ServiceExportStorage _) = ''ServiceExport''"
| "st_Kind (EndpointSliceStorage _ _) = ''EndpointSlice''"

fun st_NamespaceScoped :: "'i storage \<Rightarrow> bool" where
  "st_NamespaceScoped (ServiceExportStorage _) = True"
| "st_NamespaceScoped (EndpointSliceStorage _ _) = True"

fun st_Resource :: "'i storage \<Rightarrow> string \<times> string" where
  "st_Resource (ServiceExportStorage _) = (''multicluster.x-k8s.io'', ''serviceexports'')"
| "st_Resource (EndpointSliceStorage _ _) = (''discovery.k8s.io'', ''endpointslices'')"

section \<open>\<open>Complete\<close> and \<open>New\<close>\<close>

record 'i completed_config =
  cc_serviceExportInformer :: 'i
  cc_endpointSliceInformer :: 'i

definition cfg_Complete :: "'i \<Rightarrow> 'i \<Rightarrow> 'i completed_config" where
  "cfg_Complete serviceExportInformer endpointSliceInformer =
     \<lparr>cc_serviceExportInformer = serviceExportInformer,
      cc_endpointSliceInformer = endpointSliceInformer\<rparr>"

text \<open>An API group, by name and version, with the storages of its resources.\<close>

record 'i api_group =
  ag_group :: string
  ag_version :: string
  ag_storage :: "(string \<times> 'i storage) list"

record 'i server_env =
  sv_New :: "go_error option"
  sv_AddEventHandler :: "'i \<Rightarrow> go_error option"
  sv_Install :: "'i api_group \<Rightarrow> go_error option"

text \<open>What is wired so far: the handlers of each informer, and the groups served.\<close>

record 'i emitter =
  em_handlers :: "('i \<times> 'i storage) list"
  em_groups :: "'i api_group list"

definition mcsGroup :: "'i storage \<Rightarrow> 'i api_group" where
  "mcsGroup seStorage = \<lparr>ag_group = ''multicluster.x-k8s.io'', ag_version = ''v1beta1'',
     ag_storage = [(''serviceexports'', seStorage)]\<rparr>"

definition discoveryGroup :: "'i storage \<Rightarrow> 'i api_group" where
  "discoveryGroup esStorage = \<lparr>ag_group = ''discovery.k8s.io'', ag_version = ''v1'',
     ag_storage = [(''endpointslices'', esStorage)]\<rparr>"

definition emitter_New :: "'i server_env \<Rightarrow> 'i completed_config \<Rightarrow> go_error option \<times> 'i emitter" where
  "emitter_New env c =
     (let e0 = \<lparr>em_handlers = [], em_groups = []\<rparr>
      in (case sv_New env of
            Some err \<Rightarrow> (Some err, e0)
          | None \<Rightarrow>
              (let seStorage = NewServiceExportStorage (cc_serviceExportInformer c)
               in (case sv_AddEventHandler env (cc_serviceExportInformer c) of
                     Some err \<Rightarrow> (Some err, e0)
                   | None \<Rightarrow>
                       (let e1 = e0\<lparr>em_handlers := [(cc_serviceExportInformer c, seStorage)]\<rparr>
                        in (case sv_Install env (mcsGroup seStorage) of
                              Some err \<Rightarrow> (Some err, e1)
                            | None \<Rightarrow>
                                (let e2 = e1\<lparr>em_groups := [mcsGroup seStorage]\<rparr>;
                                     esStorage = NewEndpointSliceStorage
                                       (cc_endpointSliceInformer c) (cc_serviceExportInformer c)
                                 in (case sv_AddEventHandler env (cc_endpointSliceInformer c) of
                                       Some err \<Rightarrow> (Some err, e2)
                                     | None \<Rightarrow>
                                         (let e3 = e2\<lparr>em_handlers := em_handlers e2 @
                                                [(cc_endpointSliceInformer c, esStorage)]\<rparr>
                                          in (case sv_Install env (discoveryGroup esStorage) of
                                                Some err \<Rightarrow> (Some err, e3)
                                              | None \<Rightarrow>
                                                  (None, e3\<lparr>em_groups :=
                                                     em_groups e3 @ [discoveryGroup esStorage]\<rparr>)))))))))))"

section \<open>Properties\<close>

text \<open>What a served group needs of a storage: it is registered with an informer, it is in the group of
  its own resource, and its objects and lists are kinds of the scheme.\<close>

definition well_served :: "'i emitter \<Rightarrow> 'i api_group \<Rightarrow> bool" where
  "well_served e g =
     list_all (\<lambda>(resource, st).
        st \<in> snd ` set (em_handlers e) \<and> st_Resource st = (ag_group g, resource) \<and>
        st_New st \<in> apiserver_Scheme \<and> st_NewList st \<in> apiserver_Scheme \<and>
        fst (st_New st) = ag_group g \<and> fst (snd (st_New st)) = ag_version g \<and>
        st_Kind st = snd (snd (st_New st)) \<and> st_NamespaceScoped st)
     (ag_storage g)"

lemma scheme_kinds:
  "(''multicluster.x-k8s.io'', ''v1beta1'', ''ServiceExport'') \<in> apiserver_Scheme"
  "(''multicluster.x-k8s.io'', ''v1beta1'', ''ServiceExportList'') \<in> apiserver_Scheme"
  "(''discovery.k8s.io'', ''v1'', ''EndpointSlice'') \<in> apiserver_Scheme"
  "(''discovery.k8s.io'', ''v1'', ''EndpointSliceList'') \<in> apiserver_Scheme"
  by (simp_all add: apiserver_Scheme_def Let_def discovery_Install_def mcs_Install_def
      metav1_AddToGroupVersion_def with_kinds_def)

text \<open>\<open>New\<close> succeeds exactly when each of its five steps does; then the storage of exports is
  registered with the export informer and the storage of slices, which also reads the export
  informer, with the slice informer, and the two resources are served, one in each group. No group is
  ever served without its storage being registered before, under another resource than its own, or
  with a kind that the scheme of the package does not know.\<close>

theorem emitter_wiring:
  "(fst (emitter_New env (cfg_Complete se es)) = None) =
     (sv_New env = None \<and> sv_AddEventHandler env se = None \<and> sv_AddEventHandler env es = None \<and>
      sv_Install env (mcsGroup (ServiceExportStorage se)) = None \<and>
      sv_Install env (discoveryGroup (EndpointSliceStorage es se)) = None) \<and>
   (fst (emitter_New env (cfg_Complete se es)) = None \<longrightarrow>
      em_handlers (snd (emitter_New env (cfg_Complete se es))) =
        [(se, ServiceExportStorage se), (es, EndpointSliceStorage es se)] \<and>
      em_groups (snd (emitter_New env (cfg_Complete se es))) =
        [mcsGroup (ServiceExportStorage se), discoveryGroup (EndpointSliceStorage es se)]) \<and>
   list_all (well_served (snd (emitter_New env (cfg_Complete se es))))
     (em_groups (snd (emitter_New env (cfg_Complete se es))))"
  by (auto simp: cfg_Complete_def emitter_New_def Let_def mcsGroup_def discoveryGroup_def well_served_def
      scheme_kinds NewServiceExportStorage_def NewEndpointSliceStorage_def split: option.split)

definition good_server :: "'i server_env" where
  "good_server = \<lparr>sv_New = None, sv_AddEventHandler = (\<lambda>_. None), sv_Install = (\<lambda>_. None)\<rparr>"

theorem emitter_wiring_witness:
  "em_handlers (snd (emitter_New good_server (cfg_Complete ''exports'' ''slices''))) =
   [(''exports'', ServiceExportStorage ''exports''), (''slices'', EndpointSliceStorage ''slices'' ''exports'')]"
  using emitter_wiring [of good_server "''exports''" "''slices''"]
  by (simp add: good_server_def)

end
