(* ===== verification/Manager.thy ===== *)
theory Manager
  imports Watcher
begin

text \<open>
  \<open>pkg/controller/manager.go\<close>: \<open>Start\<close>, which installs the schemes, sets up the five controllers and
  one watcher per remote, and hands over to the manager. A controller for a kind that the scheme
  does not know cannot be built: controller-runtime's builder asks the scheme for the kind of the
  object given to \<open>For\<close>.
\<close>

section \<open>The environment\<close>

datatype api_kind_name = KService | KServiceExport | KServiceImport | KEndpointSlice

datatype controller_name =
  ServiceImportController | ServiceController | EndpointSliceController
| ValidatorController | ConflictController

text \<open>What the libraries answer; \<open>mg_NotRegistered\<close> is the scheme's error for a kind it does not know.\<close>

record manager_env =
  mg_Install :: "go_error option"
  mg_AddToScheme :: "go_error option"
  mg_NewManager :: "go_error option"
  mg_NotRegistered :: "controller_name \<Rightarrow> go_error"
  mg_Build :: "controller_name \<Rightarrow> go_error option"
  mg_Add :: "string \<Rightarrow> go_error option"
  mg_AddDetector :: "go_error option"
  mg_Start :: "go_error option"

record manager_options =
  mo_ClusterID :: string
  mo_Namespace :: string
  mo_Remotes :: "string list"
  mo_Selector :: string

text \<open>What \<open>Start\<close> has built when it returns or hands over.\<close>

record started =
  sd_namespaces :: "string list option"
  sd_controllers :: "controller_name list"
  sd_watchers :: "watcher list"
  sd_running :: bool

text \<open>\<open>mo_Remotes\<close> lists the remote IDs in the order in which Go ranges over the map.\<close>

section \<open>The steps\<close>

definition v1beta1_Install :: "api_kind_name set \<Rightarrow> api_kind_name set" where
  "v1beta1_Install scheme = scheme \<union> {KServiceExport, KServiceImport}"

definition discovery_AddToScheme :: "api_kind_name set \<Rightarrow> api_kind_name set" where
  "discovery_AddToScheme scheme = scheme \<union> {KEndpointSlice}"

definition controller_kind :: "controller_name \<Rightarrow> api_kind_name" where
  "controller_kind n =
     (case n of
        ServiceImportController \<Rightarrow> KServiceImport
      | ServiceController \<Rightarrow> KService
      | EndpointSliceController \<Rightarrow> KEndpointSlice
      | ValidatorController \<Rightarrow> KServiceExport
      | ConflictController \<Rightarrow> KServiceExport)"

definition build_controller ::
  "manager_env \<Rightarrow> api_kind_name set \<Rightarrow> controller_name \<Rightarrow> go_error option" where
  "build_controller env scheme n =
     (if controller_kind n \<notin> scheme then Some (mg_NotRegistered env n) else mg_Build env n)"

definition setup_message :: "controller_name \<Rightarrow> string" where
  "setup_message n = ''setting up '' @
     (case n of
        ServiceImportController \<Rightarrow> ''ServiceImportReconciler''
      | ServiceController \<Rightarrow> ''ServiceReconciler''
      | EndpointSliceController \<Rightarrow> ''EndpointSliceReconciler''
      | ValidatorController \<Rightarrow> ''ServiceExportValidator''
      | ConflictController \<Rightarrow> ''ConflictDetector'')"

text \<open>The five \<open>SetupWithManager\<close> calls, each returned from when it fails; that of the detector also
  adds the detector as a runnable.\<close>

definition setup_one ::
  "manager_env \<Rightarrow> api_kind_name set \<Rightarrow> controller_name \<Rightarrow> go_error option" where
  "setup_one env scheme n =
     (case build_controller env scheme n of
        Some err \<Rightarrow> Some err
      | None \<Rightarrow> if n = ConflictController then mg_AddDetector env else None)"

fun setup_controllers ::
  "manager_env \<Rightarrow> api_kind_name set \<Rightarrow> controller_name list \<Rightarrow> started \<Rightarrow> go_error option \<times> started" where
  "setup_controllers env scheme [] st = (None, st)"
| "setup_controllers env scheme (n # ns) st =
     (case setup_one env scheme n of
        Some err \<Rightarrow> (Some (Wrapf (setup_message n) err), st)
      | None \<Rightarrow> setup_controllers env scheme ns (st\<lparr>sd_controllers := sd_controllers st @ [n]\<rparr>))"

fun add_watchers ::
  "manager_env \<Rightarrow> manager_options \<Rightarrow> string list \<Rightarrow> started \<Rightarrow> go_error option \<times> started" where
  "add_watchers env opts [] st = (None, st)"
| "add_watchers env opts (remoteID # rest) st =
     (let w = NewWatcher (mo_ClusterID opts) remoteID (mo_Namespace opts) (mo_Selector opts)
      in (case mg_Add env remoteID of
            Some err \<Rightarrow> (Some (Wrapf (''adding watcher for '' @ remoteID) err), st)
          | None \<Rightarrow> add_watchers env opts rest (st\<lparr>sd_watchers := sd_watchers st @ [w]\<rparr>)))"

definition all_controllers :: "controller_name list" where
  "all_controllers = [ServiceImportController, ServiceController, EndpointSliceController,
     ValidatorController, ConflictController]"

definition not_started :: started where
  "not_started = \<lparr>sd_namespaces = None, sd_controllers = [], sd_watchers = [], sd_running = False\<rparr>"

text \<open>From the manager on, for any scheme.\<close>

definition run_manager ::
  "manager_env \<Rightarrow> api_kind_name set \<Rightarrow> manager_options \<Rightarrow> go_error option \<times> started" where
  "run_manager env scheme opts =
     (let st0 = not_started\<lparr>sd_namespaces :=
            if mo_Namespace opts \<noteq> '''' then Some [mo_Namespace opts] else None\<rparr>
      in (case mg_NewManager env of
            Some err \<Rightarrow> (Some (Wrapf ''creating manager'' err), not_started)
          | None \<Rightarrow>
              (case setup_controllers env scheme all_controllers st0 of
                 (Some err, st1) \<Rightarrow> (Some err, st1)
               | (None, st1) \<Rightarrow>
                   (case add_watchers env opts (mo_Remotes opts) st1 of
                      (Some err, st2) \<Rightarrow> (Some err, st2)
                    | (None, st2) \<Rightarrow> (mg_Start env, st2\<lparr>sd_running := True\<rparr>)))))"

definition manager_Start :: "manager_env \<Rightarrow> manager_options \<Rightarrow> go_error option \<times> started" where
  "manager_Start env opts =
     (case mg_Install env of
        Some err \<Rightarrow> (Some (Wrapf ''installing mcs-api scheme'' err), not_started)
      | None \<Rightarrow>
          (case mg_AddToScheme env of
             Some err \<Rightarrow> (Some (Wrapf ''installing discovery scheme'' err), not_started)
           | None \<Rightarrow> run_manager env (discovery_AddToScheme (v1beta1_Install {})) opts))"

section \<open>Lemmas\<close>

lemma setup_controllers_ok:
  "\<forall>n \<in> set ns. setup_one env scheme n = None \<Longrightarrow>
   setup_controllers env scheme ns st = (None, st\<lparr>sd_controllers := sd_controllers st @ ns\<rparr>)"
  by (induction ns arbitrary: st) simp_all

lemma add_watchers_ok:
  "\<forall>r \<in> set rs. mg_Add env r = None \<Longrightarrow>
   add_watchers env opts rs st = (None, st\<lparr>sd_watchers := sd_watchers st @
     map (\<lambda>r. NewWatcher (mo_ClusterID opts) r (mo_Namespace opts) (mo_Selector opts)) rs\<rparr>)"
  by (induction rs arbitrary: st) (simp_all add: Let_def)

lemma setup_controllers_keeps:
  "setup_controllers env scheme ns st = (r, st1) \<Longrightarrow>
   sd_watchers st1 = sd_watchers st \<and> sd_running st1 = sd_running st"
  by (induction ns arbitrary: st) (fastforce split: option.splits)+

lemma setup_missing_kind:
  "controller_kind n \<notin> scheme \<Longrightarrow> n \<in> set ns \<Longrightarrow> fst (setup_controllers env scheme ns st) \<noteq> None"
  by (induction ns arbitrary: st) (auto simp: setup_one_def build_controller_def split: option.split)

text \<open>The scheme of \<open>Start\<close> lacks Services.\<close>

lemma start_fails:
  "fst (manager_Start env opts) \<noteq> None \<and> sd_watchers (snd (manager_Start env opts)) = [] \<and>
   \<not> sd_running (snd (manager_Start env opts))"
proof -
  let ?s = "discovery_AddToScheme (v1beta1_Install {})"
  have k: "controller_kind ServiceController \<notin> ?s"
    by (simp add: discovery_AddToScheme_def v1beta1_Install_def controller_kind_def)
  have r: "fst (run_manager env ?s opts) \<noteq> None \<and> sd_watchers (snd (run_manager env ?s opts)) = [] \<and>
      \<not> sd_running (snd (run_manager env ?s opts))"
  proof (cases "mg_NewManager env")
    case None
    let ?st = "not_started\<lparr>sd_namespaces :=
            if mo_Namespace opts \<noteq> '''' then Some [mo_Namespace opts] else None\<rparr>"
    obtain err st1 where e: "setup_controllers env ?s all_controllers ?st = (Some err, st1)"
      using setup_missing_kind [OF k, of all_controllers env ?st]
      by (cases "setup_controllers env ?s all_controllers ?st") (auto simp: all_controllers_def)
    then show ?thesis
      using None setup_controllers_keeps [OF e] unfolding run_manager_def Let_def e
      by (simp add: not_started_def)
  qed (simp add: run_manager_def Let_def not_started_def)
  then show ?thesis
    by (auto simp: manager_Start_def not_started_def split: option.split)
qed

section \<open>Properties\<close>

text \<open>With a scheme that knows the four kinds and an environment in which each step succeeds, the
  manager is started with the five controllers in the order of the code, one watcher for each
  remote, each with its remote's ID, the local cluster ID, the namespace and the selector, and a
  cache restricted to the namespace if one is given.\<close>

theorem run_manager_builds_all:
  assumes "mg_NewManager env = None" "\<And>n. mg_Build env n = None" "mg_AddDetector env = None"
    and "\<And>r. mg_Add env r = None" "scheme = UNIV"
  shows "run_manager env scheme opts =
    (mg_Start env,
     \<lparr>sd_namespaces = (if mo_Namespace opts = '''' then None else Some [mo_Namespace opts]),
      sd_controllers = [ServiceImportController, ServiceController, EndpointSliceController,
        ValidatorController, ConflictController],
      sd_watchers = map (\<lambda>r. \<lparr>w_clusterID = mo_ClusterID opts, w_remoteID = r,
        w_namespace = mo_Namespace opts, w_selector = mo_Selector opts\<rparr>) (mo_Remotes opts),
      sd_running = True\<rparr>)"
  using assms
  by (simp add: run_manager_def Let_def setup_controllers_ok add_watchers_ok setup_one_def
      build_controller_def not_started_def all_controllers_def NewWatcher_def)

definition good_manager_env :: manager_env where
  "good_manager_env = \<lparr>mg_Install = None, mg_AddToScheme = None, mg_NewManager = None,
     mg_NotRegistered = (\<lambda>_. Errorf ''no kind is registered''), mg_Build = (\<lambda>_. None), mg_Add = (\<lambda>_. None), mg_AddDetector = None, mg_Start = None\<rparr>"

theorem run_manager_builds_all_witness:
  "map w_remoteID (sd_watchers (snd (run_manager good_manager_env UNIV
     \<lparr>mo_ClusterID = ''a'', mo_Namespace = [], mo_Remotes = [''r1'', ''r2''], mo_Selector = []\<rparr>))) =
   [''r1'', ''r2'']"
  by (subst run_manager_builds_all) (simp_all add: good_manager_env_def)

text \<open>With the scheme that \<open>Start\<close> builds, which lacks the core group, the controller for Services
  cannot be built, so that \<open>Start\<close> always returns an error: no watcher is ever added and the manager
  is never started, whatever the environment does. When the steps before go well, the error is the
  one of setting up the ServiceReconciler.\<close>

theorem start_always_fails:
  "fst (manager_Start env opts) \<noteq> None \<and> sd_watchers (snd (manager_Start env opts)) = [] \<and>
   \<not> sd_running (snd (manager_Start env opts)) \<and>
   (mg_Install env = None \<and> mg_AddToScheme env = None \<and> mg_NewManager env = None \<and>
      mg_Build env ServiceImportController = None \<longrightarrow>
    manager_Start env opts =
      (Some (Wrapf ''setting up ServiceReconciler'' (mg_NotRegistered env ServiceController)),
       \<lparr>sd_namespaces = (if mo_Namespace opts = '''' then None else Some [mo_Namespace opts]),
        sd_controllers = [ServiceImportController], sd_watchers = [], sd_running = False\<rparr>))"
proof -
  have "manager_Start env opts =
      (Some (Wrapf ''setting up ServiceReconciler'' (mg_NotRegistered env ServiceController)),
       \<lparr>sd_namespaces = (if mo_Namespace opts = '''' then None else Some [mo_Namespace opts]),
        sd_controllers = [ServiceImportController], sd_watchers = [], sd_running = False\<rparr>)"
    if "mg_Install env = None" "mg_AddToScheme env = None" "mg_NewManager env = None"
      "mg_Build env ServiceImportController = None"
    using that
    by (simp add: manager_Start_def run_manager_def Let_def all_controllers_def setup_one_def
        build_controller_def discovery_AddToScheme_def v1beta1_Install_def
        controller_kind_def not_started_def setup_message_def)
  then show ?thesis using start_fails [of env opts] by blast
qed

theorem start_always_fails_witness:
  "fst (manager_Start good_manager_env
     \<lparr>mo_ClusterID = ''a'', mo_Namespace = [], mo_Remotes = [''r1''], mo_Selector = []\<rparr>) =
   Some (Wrapf ''setting up ServiceReconciler'' (Errorf ''no kind is registered''))"
  using start_always_fails [of good_manager_env
      "\<lparr>mo_ClusterID = ''a'', mo_Namespace = [], mo_Remotes = [''r1''], mo_Selector = []\<rparr>"]
  by (simp add: good_manager_env_def)

end
