(* ===== verification/Flags.thy ===== *)
theory Flags
  imports Go_Strings
begin

text \<open>
  The command line of \<open>cmd/service-reflector/main.go\<close>: the flag value \<open>urls\<close>, \<open>newOptions\<close>, \<open>flagSet\<close>
  and the parsing of arguments by \<open>vendor/github.com/spf13/pflag\<close>. Parsing of URLs and the flags that
  the API server's \<open>SecureServingOptions\<close> add are arguments.
\<close>

section \<open>\<open>strings.TrimSpace\<close>\<close>

text \<open>The white space of \<open>unicode.IsSpace\<close>, as UTF-8 sequences.\<close>

definition space_seqs :: "string list" where
  "space_seqs =
     [[CHR 0x09], [CHR 0x0A], [CHR 0x0B], [CHR 0x0C], [CHR 0x0D], [CHR 0x20],
      [CHR 0xC2, CHR 0x85], [CHR 0xC2, CHR 0xA0], [CHR 0xE1, CHR 0x9A, CHR 0x80],
      [CHR 0xE2, CHR 0x80, CHR 0x80], [CHR 0xE2, CHR 0x80, CHR 0x81], [CHR 0xE2, CHR 0x80, CHR 0x82],
      [CHR 0xE2, CHR 0x80, CHR 0x83], [CHR 0xE2, CHR 0x80, CHR 0x84], [CHR 0xE2, CHR 0x80, CHR 0x85],
      [CHR 0xE2, CHR 0x80, CHR 0x86], [CHR 0xE2, CHR 0x80, CHR 0x87], [CHR 0xE2, CHR 0x80, CHR 0x88],
      [CHR 0xE2, CHR 0x80, CHR 0x89], [CHR 0xE2, CHR 0x80, CHR 0x8A], [CHR 0xE2, CHR 0x80, CHR 0xA8],
      [CHR 0xE2, CHR 0x80, CHR 0xA9], [CHR 0xE2, CHR 0x80, CHR 0xAF], [CHR 0xE2, CHR 0x81, CHR 0x9F],
      [CHR 0xE3, CHR 0x80, CHR 0x80]]"

definition is_head :: "string \<Rightarrow> string \<Rightarrow> bool" where
  "is_head q s = (take (length q) s = q)"

text \<open>Strip sequences of a list from the front of a text, longest run first.\<close>

function strip_front :: "string list \<Rightarrow> string \<Rightarrow> string" where
  "strip_front qs s =
     (case find (\<lambda>q. q \<noteq> [] \<and> is_head q s) qs of
        None \<Rightarrow> s
      | Some q \<Rightarrow> strip_front qs (drop (length q) s))"
  by pat_completeness auto
termination
proof (relation "measure (\<lambda>(qs, s). length s)")
  fix qs s q
  assume "find (\<lambda>q. q \<noteq> [] \<and> is_head q s) qs = Some q"
  then have "q \<noteq> []" "take (length q) s = q" by (auto simp: find_Some_iff is_head_def)
  then have "s \<noteq> []" "0 < length q" by auto
  then show "((qs, drop (length q) s), qs, s) \<in> measure (\<lambda>(qs, s). length s)" by simp
qed simp

declare strip_front.simps [simp del]

definition TrimSpace :: "string \<Rightarrow> string" where
  "TrimSpace s = rev (strip_front (map rev space_seqs) (rev (strip_front space_seqs s)))"

definition no_space_ends :: "string \<Rightarrow> bool" where
  "no_space_ends s =
     (\<not> list_ex (\<lambda>q. is_head q s) space_seqs \<and> \<not> list_ex (\<lambda>q. is_head (rev q) (rev s)) space_seqs)"

lemma strip_none:
  "\<not> list_ex (\<lambda>q. is_head q s) qs \<Longrightarrow> strip_front qs s = s"
  by (subst strip_front.simps) (auto simp: list_ex_iff find_Some_iff split: option.split)

lemma TrimSpace_none: "no_space_ends s \<Longrightarrow> TrimSpace s = s"
  by (simp add: TrimSpace_def no_space_ends_def strip_none list_ex_iff)

lemma strip_blank: "strip_front space_seqs (CHR '' '' # s) = strip_front space_seqs s"
  by (subst strip_front.simps) (simp add: space_seqs_def is_head_def)

lemma TrimSpace_blank: "TrimSpace (CHR '' '' # s) = TrimSpace s"
  by (simp add: TrimSpace_def strip_blank)

section \<open>The flag value \<open>urls\<close>\<close>

definition urls_String :: "('url \<Rightarrow> string) \<Rightarrow> 'url list \<Rightarrow> string" where
  "urls_String url_String u = strings_Join (map url_String u) '', ''"

text \<open>The loop of \<open>Set\<close>; URLs before the one that fails have been appended.\<close>

fun urls_add :: "(string \<Rightarrow> go_error + 'url) \<Rightarrow> string list \<Rightarrow> 'url list \<Rightarrow> go_error option \<times> 'url list" where
  "urls_add url_Parse [] u = (None, u)"
| "urls_add url_Parse (raw # raws) u =
     (let trimmed = TrimSpace raw
      in if trimmed = '''' then urls_add url_Parse raws u
         else
           (case url_Parse trimmed of
              Inl err \<Rightarrow> (Some err, u)
            | Inr uu \<Rightarrow> urls_add url_Parse raws (u @ [uu])))"

definition urls_Set :: "(string \<Rightarrow> go_error + 'url) \<Rightarrow> string \<Rightarrow> 'url list \<Rightarrow> go_error option \<times> 'url list" where
  "urls_Set url_Parse v u = urls_add url_Parse (split_on (CHR '','') v) u"

section \<open>The options\<close>

text \<open>The part of \<open>SecureServingOptions\<close> that \<open>newOptions\<close> sets.\<close>

record secure_serving =
  ss_BindAddress :: string
  ss_BindPort :: int
  ss_PairName :: string
  ss_CertDirectory :: string

record 'url options =
  o_kubeconfig :: string
  o_clusterID :: string
  o_listen :: string
  o_logLevel :: string
  o_namespace :: string
  o_printVersion :: bool
  o_runEmitter :: bool
  o_runReflector :: bool
  o_secure :: secure_serving
  o_emitterSelector :: string
  o_reflectorSelector :: string
  o_sourceAPIs :: "'url list"
  o_sourceKubeconfigs :: "string list"

definition emitter_serving :: secure_serving where
  "emitter_serving = \<lparr>ss_BindAddress = ''0.0.0.0'', ss_BindPort = 6443, ss_PairName = ''emitter'',
     ss_CertDirectory = ''emitter.local.config/certificates''\<rparr>"

definition newOptions :: "'url options" where
  "newOptions =
     \<lparr>o_kubeconfig = '''', o_clusterID = '''', o_listen = '''', o_logLevel = '''', o_namespace = '''',
      o_printVersion = False, o_runEmitter = False, o_runReflector = False,
      o_secure = emitter_serving,
      o_emitterSelector = '''', o_reflectorSelector = '''', o_sourceAPIs = [],
      o_sourceKubeconfigs = []\<rparr>"

section \<open>Flag sets\<close>

text \<open>A flag: the value it has without one, empty if it needs one, and \<open>Value.Set\<close>. Flags of a program
  write into a state \<open>'st\<close>. A set keeps them in the order of their definition.\<close>

record 'st flag =
  fl_NoOptDefVal :: string
  fl_Set :: "string \<Rightarrow> 'st \<Rightarrow> go_error option \<times> 'st"

type_synonym 'st flag_set = "(string \<times> 'st flag) list"

text \<open>Defining a flag twice is a panic; adding another set skips what is there already.\<close>

definition AddFlag :: "string \<Rightarrow> 'st flag \<Rightarrow> 'st flag_set \<Rightarrow> 'st flag_set option" where
  "AddFlag name fl f = (if map_of f name \<noteq> None then None else Some (f @ [(name, fl)]))"

fun AddFlags :: "(string \<times> 'st flag) list \<Rightarrow> 'st flag_set \<Rightarrow> 'st flag_set option" where
  "AddFlags [] f = Some f"
| "AddFlags ((name, fl) # fls) f =
     (case AddFlag name fl f of None \<Rightarrow> None | Some f1 \<Rightarrow> AddFlags fls f1)"

fun AddFlagSet :: "'st flag_set \<Rightarrow> 'st flag_set \<Rightarrow> 'st flag_set" where
  "AddFlagSet [] f = f"
| "AddFlagSet ((name, fl) # fls) f =
     AddFlagSet fls (if map_of f name \<noteq> None then f else f @ [(name, fl)])"

text \<open>\<open>strconv.ParseBool\<close>, and the \<open>Set\<close> of the kinds of flags used; a boolean that cannot be parsed
  is set to false.\<close>

definition ParseBool :: "string \<Rightarrow> bool option" where
  "ParseBool s =
     (if s \<in> {''1'', ''t'', ''T'', ''true'', ''TRUE'', ''True''} then Some True
      else if s \<in> {''0'', ''f'', ''F'', ''false'', ''FALSE'', ''False''} then Some False
      else None)"

definition string_flag :: "(string \<Rightarrow> 'st \<Rightarrow> 'st) \<Rightarrow> 'st flag" where
  "string_flag put = \<lparr>fl_NoOptDefVal = '''', fl_Set = (\<lambda>v st. (None, put v st))\<rparr>"

definition bool_flag :: "(bool \<Rightarrow> 'st \<Rightarrow> 'st) \<Rightarrow> 'st flag" where
  "bool_flag put =
     \<lparr>fl_NoOptDefVal = ''true'',
      fl_Set = (\<lambda>v st. case ParseBool v of
                  None \<Rightarrow> (Some (Errorf (''strconv.ParseBool: parsing '' @ v @ '': invalid syntax'')), put False st)
                | Some b \<Rightarrow> (None, put b st))\<rparr>"

text \<open>A string array is replaced at its first \<open>Set\<close>, when it is still the nil default, and grows after.\<close>

definition string_array_flag :: "(string list \<Rightarrow> 'st \<Rightarrow> 'st) \<Rightarrow> ('st \<Rightarrow> string list) \<Rightarrow> 'st flag" where
  "string_array_flag put get =
     \<lparr>fl_NoOptDefVal = '''', fl_Set = (\<lambda>v st. (None, put (get st @ [v]) st))\<rparr>"

section \<open>\<open>flagSet\<close>\<close>

definition with_prefix :: "string \<Rightarrow> (string \<times> 'st flag) list \<Rightarrow> (string \<times> 'st flag) list" where
  "with_prefix p fls = map (\<lambda>(name, fl). (p @ name, fl)) fls"

text \<open>Registration writes the defaults into the options.\<close>

definition flag_defaults :: "'url options \<Rightarrow> 'url options" where
  "flag_defaults opt =
     opt\<lparr>o_kubeconfig := '''', o_clusterID := '''', o_listen := '':9090'', o_logLevel := ''info'',
       o_namespace := '''', o_printVersion := False, o_runEmitter := True, o_runReflector := True,
       o_emitterSelector := '''', o_reflectorSelector := '''', o_sourceKubeconfigs := []\<rparr>"

definition main_flags :: "(string \<times> 'url options flag) list" where
  "main_flags =
     [(''kubeconfig'', string_flag (\<lambda>v. o_kubeconfig_update (\<lambda>_. v))),
      (''cluster-id'', string_flag (\<lambda>v. o_clusterID_update (\<lambda>_. v))),
      (''listen'', string_flag (\<lambda>v. o_listen_update (\<lambda>_. v))),
      (''log-level'', string_flag (\<lambda>v. o_logLevel_update (\<lambda>_. v))),
      (''namespace'', string_flag (\<lambda>v. o_namespace_update (\<lambda>_. v))),
      (''version'', bool_flag (\<lambda>b. o_printVersion_update (\<lambda>_. b))),
      (''emitter'', bool_flag (\<lambda>b. o_runEmitter_update (\<lambda>_. b))),
      (''reflector'', bool_flag (\<lambda>b. o_runReflector_update (\<lambda>_. b)))]"

definition emitter_flags ::
  "(string \<times> secure_serving flag) list \<Rightarrow> (string \<times> 'url options flag) list" where
  "emitter_flags secure_flags =
     (''selector'', string_flag (\<lambda>v. o_emitterSelector_update (\<lambda>_. v))) #
     map (\<lambda>(name, fl). (name,
        \<lparr>fl_NoOptDefVal = fl_NoOptDefVal fl,
         fl_Set = (\<lambda>v opt. case fl_Set fl v (o_secure opt) of (err, s) \<Rightarrow> (err, opt\<lparr>o_secure := s\<rparr>))\<rparr>))
       secure_flags"

definition reflector_flags :: "(string \<Rightarrow> go_error + 'url) \<Rightarrow> (string \<times> 'url options flag) list" where
  "reflector_flags url_Parse =
     [(''selector'', string_flag (\<lambda>v. o_reflectorSelector_update (\<lambda>_. v))),
      (''source-api'', \<lparr>fl_NoOptDefVal = '''',
         fl_Set = (\<lambda>v opt. case urls_Set url_Parse v (o_sourceAPIs opt) of
                     (err, u) \<Rightarrow> (err, opt\<lparr>o_sourceAPIs := u\<rparr>))\<rparr>),
      (''source-kubeconfig'',
         string_array_flag (\<lambda>v. o_sourceKubeconfigs_update (\<lambda>_. v)) o_sourceKubeconfigs)]"

text \<open>\<open>None\<close> when a flag is defined twice.\<close>

definition flagSet ::
  "(string \<times> secure_serving flag) list \<Rightarrow> (string \<Rightarrow> go_error + 'url) \<Rightarrow> 'url options flag_set option" where
  "flagSet secure_flags url_Parse =
     (case AddFlags main_flags [] of
        None \<Rightarrow> None
      | Some f \<Rightarrow>
          (case AddFlags (with_prefix ''emitter.'' (emitter_flags secure_flags)) [] of
             None \<Rightarrow> None
           | Some em \<Rightarrow>
               (case AddFlags (with_prefix ''reflector.'' (reflector_flags url_Parse)) [] of
                  None \<Rightarrow> None
                | Some re \<Rightarrow> Some (AddFlagSet re (AddFlagSet em f)))))"

section \<open>\<open>FlagSet.Parse\<close>\<close>

datatype parse_error =
  ErrHelp | InvalidSyntax string | NotExist string | ValueRequired string | InvalidValue string go_error

text \<open>The set of the program has no shorthands, so that a short argument is help, a flag of \<open>go test\<close>,
  which is skipped, or an error.\<close>

definition parseShortArg :: "string \<Rightarrow> parse_error option" where
  "parseShortArg shorthands =
     (if take 5 shorthands = ''test.'' then None
      else if take 1 shorthands = ''h'' then Some ErrHelp
      else Some (NotExist shorthands))"

text \<open>\<open>parseArgs\<close>, with \<open>parseLongArg\<close>: the error, the state and the positional arguments.\<close>

definition set_flag :: "string \<Rightarrow> 'st flag \<Rightarrow> string \<Rightarrow> 'st \<Rightarrow> parse_error option \<times> 'st" where
  "set_flag name fl v st =
     (case fl_Set fl v st of
        (None, st1) \<Rightarrow> (None, st1)
      | (Some err, st1) \<Rightarrow> (Some (InvalidValue name err), st1))"

definition long_name :: "string \<Rightarrow> string" where
  "long_name s = takeWhile (\<lambda>x. x \<noteq> CHR ''='') (drop 2 s)"

definition long_value :: "string \<Rightarrow> string option" where
  "long_value s =
     (case dropWhile (\<lambda>x. x \<noteq> CHR ''='') (drop 2 s) of [] \<Rightarrow> None | _ # v \<Rightarrow> Some v)"

fun parseArgs ::
  "'st flag_set \<Rightarrow> string list \<Rightarrow> 'st \<times> string list \<Rightarrow> parse_error option \<times> 'st \<times> string list" where
  "parseArgs f [] (st, pos) = (None, st, pos)"
| "parseArgs f (s # args) (st, pos) =
     (if s = '''' \<or> hd s \<noteq> CHR ''-'' \<or> length s = 1 then parseArgs f args (st, pos @ [s])
      else if s ! 1 \<noteq> CHR ''-''
      then (case parseShortArg (drop 1 s) of
              Some err \<Rightarrow> (Some err, st, pos)
            | None \<Rightarrow> parseArgs f args (st, pos))
      else if length s = 2 then (None, st, pos @ args)
      else if s ! 2 = CHR ''-'' \<or> s ! 2 = CHR ''='' then (Some (InvalidSyntax s), st, pos)
      else
        (case map_of f (long_name s) of
           None \<Rightarrow>
             (Some (if long_name s = ''help'' then ErrHelp else NotExist (long_name s)), st, pos)
         | Some fl \<Rightarrow>
             (case long_value s of
                Some v \<Rightarrow>
                  (case set_flag (long_name s) fl v st of
                     (Some err, st1) \<Rightarrow> (Some err, st1, pos)
                   | (None, st1) \<Rightarrow> parseArgs f args (st1, pos))
              | None \<Rightarrow>
                  if fl_NoOptDefVal fl \<noteq> ''''
                  then (case set_flag (long_name s) fl (fl_NoOptDefVal fl) st of
                          (Some err, st1) \<Rightarrow> (Some err, st1, pos)
                        | (None, st1) \<Rightarrow> parseArgs f args (st1, pos))
                  else
                    (case args of
                       [] \<Rightarrow> (Some (ValueRequired (long_name s)), st, pos)
                     | v # args1 \<Rightarrow>
                         (case set_flag (long_name s) fl v st of
                            (Some err, st1) \<Rightarrow> (Some err, st1, pos)
                          | (None, st1) \<Rightarrow> parseArgs f args1 (st1, pos))))))"

text \<open>The set exits the process on an error: with status 0 after help, with 2 otherwise.\<close>

datatype 'st parsed = Parsed 'st "string list" | ExitHelp | ExitUsage parse_error

definition flags_Parse :: "'st flag_set \<Rightarrow> string list \<Rightarrow> 'st \<Rightarrow> 'st parsed" where
  "flags_Parse f args st =
     (case parseArgs f args (st, []) of
        (None, st1, pos) \<Rightarrow> Parsed st1 pos
      | (Some err, _) \<Rightarrow> if err = ErrHelp then ExitHelp else ExitUsage err)"

section \<open>Lemmas\<close>

lemma urls_add_append:
  "urls_add p (raws @ raws') u =
     (case urls_add p raws u of (Some err, u1) \<Rightarrow> (Some err, u1) | (None, u1) \<Rightarrow> urls_add p raws' u1)"
  by (induction p raws u rule: urls_add.induct) (auto simp: Let_def split: sum.split)

text \<open>A URL that can be listed: it parses back, and its text has no comma and no outer blanks.\<close>

definition listable :: "(string \<Rightarrow> go_error + 'url) \<Rightarrow> ('url \<Rightarrow> string) \<Rightarrow> 'url \<Rightarrow> bool" where
  "listable p str u = (p (str u) = Inr u \<and> str u \<noteq> '''' \<and> CHR '','' \<notin> set (str u) \<and> no_space_ends (str u))"

lemma TrimSpace_listable [simp]:
  "listable p str u \<Longrightarrow> TrimSpace (str u) = str u"
  "listable p str u \<Longrightarrow> TrimSpace (CHR '' '' # str u) = str u"
  by (simp_all add: listable_def TrimSpace_none TrimSpace_blank)

lemma urls_add_blank:
  "list_all (listable p str) us \<Longrightarrow>
   urls_add p (map (\<lambda>u. CHR '' '' # str u) us) v = (None, v @ us)"
  by (induction us arbitrary: v) (auto simp: Let_def, simp_all add: listable_def)

lemma split_urls_String:
  "list_all (listable p str) (u # us) \<Longrightarrow>
   split_on (CHR '','') (strings_Join (map str (u # us)) '', '') =
     str u # map (\<lambda>w. CHR '' '' # str w) us"
proof (induction us arbitrary: u)
  case Nil
  then show ?case by (simp add: split_on_single listable_def)
next
  case (Cons w ws)
  have "split_on (CHR '','') (CHR '' '' # strings_Join (map str (w # ws)) '', '') =
      (CHR '' '' # str w) # map (\<lambda>w. CHR '' '' # str w) ws"
    using Cons by simp
  then show ?case using Cons.prems by (simp add: split_on_append listable_def)
qed

lemma AddFlags_append: "AddFlags fls f = Some f1 \<Longrightarrow> f1 = f @ fls"
  by (induction fls f rule: AddFlags.induct) (auto simp: AddFlag_def split: if_splits option.splits)

lemma map_of_AddFlagSet:
  "map_of (AddFlagSet g f) name = (case map_of f name of None \<Rightarrow> map_of g name | Some fl \<Rightarrow> Some fl)"
  by (induction g f rule: AddFlagSet.induct) (auto split: option.splits)

lemma map_of_prefix:
  "map_of (with_prefix p fls) (p @ name) = map_of fls name"
  "take (length p) name \<noteq> p \<Longrightarrow> map_of (with_prefix p fls) name = None"
  by (induction fls) (auto simp: with_prefix_def)

lemma map_of_flagSet:
  assumes "flagSet secure_flags p = Some f"
  shows "map_of f name =
    (case map_of main_flags name of
       None \<Rightarrow>
         (case map_of (with_prefix ''emitter.'' (emitter_flags secure_flags)) name of
            None \<Rightarrow> map_of (with_prefix ''reflector.'' (reflector_flags p)) name
          | Some fl \<Rightarrow> Some fl)
     | Some fl \<Rightarrow> Some fl)"
proof -
  obtain f1 em re where "AddFlags main_flags [] = Some f1"
      "AddFlags (with_prefix ''emitter.'' (emitter_flags secure_flags)) [] = Some em"
      "AddFlags (with_prefix ''reflector.'' (reflector_flags p)) [] = Some re"
      "f = AddFlagSet re (AddFlagSet em f1)"
    using assms by (auto simp: flagSet_def split: option.splits)
  then show ?thesis by (auto dest!: AddFlags_append simp: map_of_AddFlagSet split: option.split)
qed

lemma main_flag: "flagSet secure_flags p = Some f \<Longrightarrow> map_of main_flags name = Some fl \<Longrightarrow> map_of f name = Some fl"
  by (simp add: map_of_flagSet)

lemma reflector_flag:
  fixes p :: "string \<Rightarrow> go_error + 'url"
  assumes "flagSet secure_flags p = Some f" "map_of (reflector_flags p) name = Some fl"
  shows "map_of f (''reflector.'' @ name) = Some fl"
  using map_of_prefix(1) [of "''reflector.''" "reflector_flags p" name]
    map_of_prefix(2) [of "''emitter.''" "''reflector.'' @ name"
      "emitter_flags secure_flags :: (string \<times> 'url options flag) list"] assms
  by (simp add: map_of_flagSet main_flags_def)

lemma emitter_selector_flag:
  fixes p :: "string \<Rightarrow> go_error + 'url"
  assumes "flagSet secure_flags p = Some f"
  shows "map_of f ''emitter.selector'' = Some (string_flag (\<lambda>v. o_emitterSelector_update (\<lambda>_. v)))"
  using map_of_prefix(1) [of "''emitter.''" "emitter_flags secure_flags :: (string \<times> 'url options flag) list"
      "''selector''"]
  by (simp add: map_of_flagSet [OF assms] main_flags_def emitter_flags_def)

text \<open>An argument with a value.\<close>

definition arg :: "string \<Rightarrow> string \<Rightarrow> string" where
  "arg name v = ''--'' @ name @ ''='' @ v"

lemma parse_arg:
  assumes "name \<noteq> ''''" "hd name \<noteq> CHR ''-''" "CHR ''='' \<notin> set name"
    and "map_of f name = Some fl" "fl_Set fl v st = (None, st1)"
  shows "parseArgs f (arg name v # args) (st, pos) = parseArgs f args (st1, pos)"
proof -
  have n: "takeWhile (\<lambda>x. x \<noteq> CHR ''='') (name @ CHR ''='' # v) = name"
      "dropWhile (\<lambda>x. x \<noteq> CHR ''='') (name @ CHR ''='' # v) = CHR ''='' # v"
    using assms(3) by (induction name) auto
  obtain c rest where c: "name = c # rest" "c \<noteq> CHR ''-''" "c \<noteq> CHR ''=''"
    using assms(1-3) by (cases name) auto
  have "long_name (arg name v) = name" "long_value (arg name v) = Some v"
    by (simp_all add: long_name_def long_value_def arg_def n del: takeWhile.simps dropWhile.simps)
  with assms(4,5) c show ?thesis by (simp add: set_flag_def) (simp add: arg_def)
qed

lemma parse_string_arg:
  "name \<noteq> '''' \<Longrightarrow> hd name \<noteq> CHR ''-'' \<Longrightarrow> CHR ''='' \<notin> set name \<Longrightarrow>
   map_of f name = Some (string_flag put) \<Longrightarrow>
   parseArgs f (arg name v # args) (st, pos) = parseArgs f args (put v st, pos)"
  by (rule parse_arg, assumption+) (simp add: string_flag_def)

definition FormatBool :: "bool \<Rightarrow> string" where
  "FormatBool b = (if b then ''true'' else ''false'')"

lemma parse_bool_arg:
  "name \<noteq> '''' \<Longrightarrow> hd name \<noteq> CHR ''-'' \<Longrightarrow> CHR ''='' \<notin> set name \<Longrightarrow>
   map_of f name = Some (bool_flag put) \<Longrightarrow>
   parseArgs f (arg name (FormatBool b) # args) (st, pos) = parseArgs f args (put b st, pos)"
  by (rule parse_arg, assumption+) (simp add: bool_flag_def FormatBool_def ParseBool_def)

text \<open>The arguments that ask for given options.\<close>

definition render_args :: "('url \<Rightarrow> string) \<Rightarrow> 'url options \<Rightarrow> string list" where
  "render_args url_String opt =
     [arg ''kubeconfig'' (o_kubeconfig opt), arg ''cluster-id'' (o_clusterID opt),
      arg ''listen'' (o_listen opt), arg ''log-level'' (o_logLevel opt),
      arg ''namespace'' (o_namespace opt), arg ''version'' (FormatBool (o_printVersion opt)),
      arg ''emitter'' (FormatBool (o_runEmitter opt)),
      arg ''reflector'' (FormatBool (o_runReflector opt)),
      arg ''emitter.selector'' (o_emitterSelector opt),
      arg ''reflector.selector'' (o_reflectorSelector opt)] @
     map (\<lambda>u. arg ''reflector.source-api'' (url_String u)) (o_sourceAPIs opt) @
     map (arg ''reflector.source-kubeconfig'') (o_sourceKubeconfigs opt)"

lemma urls_Set_one: "listable p str u \<Longrightarrow> urls_Set p (str u) us = (None, us @ [u])"
proof -
  assume u: "listable p str u"
  then have "split_on (CHR '','') (str u) = [str u]" by (simp add: split_on_single listable_def)
  with u show ?thesis by (simp add: urls_Set_def Let_def) (simp add: listable_def)
qed

lemma parse_source_apis:
  assumes "flagSet secure_flags p = Some f"
  shows "list_all (listable p str) us \<Longrightarrow>
    parseArgs f (map (\<lambda>u. arg ''reflector.source-api'' (str u)) us @ args) (st, pos) =
    parseArgs f args (st\<lparr>o_sourceAPIs := o_sourceAPIs st @ us\<rparr>, pos)"
proof (induction us arbitrary: st)
  case (Cons u us)
  obtain fl where fl: "map_of f ''reflector.source-api'' = Some fl"
      "fl_Set fl (str u) st = (None, st\<lparr>o_sourceAPIs := o_sourceAPIs st @ [u]\<rparr>)"
    using reflector_flag [OF assms, of "''source-api''"] Cons.prems
    by (simp add: reflector_flags_def urls_Set_one)
  show ?case using parse_arg [OF _ _ _ fl, of "map (\<lambda>u. arg ''reflector.source-api'' (str u)) us @ args" pos]
      Cons by simp
qed simp

lemma parse_source_kubeconfigs:
  assumes "flagSet secure_flags p = Some f"
  shows "parseArgs f (map (arg ''reflector.source-kubeconfig'') ks) (st, pos) =
    (None, st\<lparr>o_sourceKubeconfigs := o_sourceKubeconfigs st @ ks\<rparr>, pos)"
proof (induction ks arbitrary: st)
  case (Cons k ks)
  obtain fl where fl: "map_of f ''reflector.source-kubeconfig'' = Some fl"
      "fl_Set fl k st = (None, st\<lparr>o_sourceKubeconfigs := o_sourceKubeconfigs st @ [k]\<rparr>)"
    using reflector_flag [OF assms, of "''source-kubeconfig''"]
    by (simp add: reflector_flags_def string_array_flag_def)
  show ?case using parse_arg [OF _ _ _ fl, of "map (arg ''reflector.source-kubeconfig'') ks" pos]
      Cons by simp
qed simp

lemma parse_render:
  assumes "flagSet secure_flags p = Some f" "list_all (listable p str) (o_sourceAPIs opt)"
  shows "flags_Parse f (render_args str opt) (flag_defaults newOptions) =
      Parsed (opt\<lparr>o_secure := emitter_serving\<rparr>) []"
proof -
  have m: "map_of f ''kubeconfig'' = Some (string_flag (\<lambda>v. o_kubeconfig_update (\<lambda>_. v)))"
    "map_of f ''cluster-id'' = Some (string_flag (\<lambda>v. o_clusterID_update (\<lambda>_. v)))"
    "map_of f ''listen'' = Some (string_flag (\<lambda>v. o_listen_update (\<lambda>_. v)))"
    "map_of f ''log-level'' = Some (string_flag (\<lambda>v. o_logLevel_update (\<lambda>_. v)))"
    "map_of f ''namespace'' = Some (string_flag (\<lambda>v. o_namespace_update (\<lambda>_. v)))"
    by (rule main_flag [OF assms(1)], simp add: main_flags_def)+
  have b: "map_of f ''version'' = Some (bool_flag (\<lambda>b. o_printVersion_update (\<lambda>_. b)))"
    "map_of f ''emitter'' = Some (bool_flag (\<lambda>b. o_runEmitter_update (\<lambda>_. b)))"
    "map_of f ''reflector'' = Some (bool_flag (\<lambda>b. o_runReflector_update (\<lambda>_. b)))"
    by (rule main_flag [OF assms(1)], simp add: main_flags_def)+
  have sel: "map_of f ''reflector.selector'' = Some (string_flag (\<lambda>v. o_reflectorSelector_update (\<lambda>_. v)))"
    using reflector_flag [OF assms(1), of "''selector''"] by (simp add: reflector_flags_def)
  note steps = m [THEN parse_string_arg [rotated 3]] b [THEN parse_bool_arg [rotated 3]]
    sel [THEN parse_string_arg [rotated 3]] emitter_selector_flag [OF assms(1), THEN parse_string_arg [rotated 3]]
  have "parseArgs f (render_args str opt) (flag_defaults newOptions, []) =
      (None, opt\<lparr>o_secure := emitter_serving\<rparr>, [])"
    by (simp add: render_args_def steps parse_source_apis [OF assms] parse_source_kubeconfigs [OF assms(1)]
        flag_defaults_def newOptions_def del: parseArgs.simps(2))
  then show ?thesis by (simp add: flags_Parse_def del: parseArgs.simps(2))
qed

section \<open>Properties\<close>

text \<open>Round trip of the flag: \<open>Set\<close> applied to the text that \<open>String\<close> gives for a list of URLs
  appends exactly those URLs, in order and without an error, provided each parses back from its
  text and that text has no comma and no white space at its ends.\<close>

theorem urls_roundtrip:
  assumes "list_all (listable p str) us"
  shows "urls_Set p (urls_String str us) v = (None, v @ us)"
proof (cases us)
  case Nil
  have "TrimSpace [] = []"
    by (rule TrimSpace_none) (simp add: no_space_ends_def space_seqs_def is_head_def)
  then show ?thesis using Nil by (simp add: urls_Set_def urls_String_def)
next
  case (Cons u rest)
  have "urls_Set p (urls_String str us) v = urls_add p (str u # map (\<lambda>w. CHR '' '' # str w) rest) v"
    using split_urls_String [of p str u rest] assms Cons by (simp add: urls_Set_def urls_String_def)
  also have "\<dots> = urls_add p (map (\<lambda>w. CHR '' '' # str w) rest) (v @ [u])"
    using assms Cons by (simp add: Let_def) (simp add: listable_def)
  also have "\<dots> = (None, v @ us)"
    using urls_add_blank [of p str rest] assms Cons by simp
  finally show ?thesis .
qed

theorem urls_roundtrip_witness:
  "urls_Set Inr (urls_String (\<lambda>u. u) [''https://a'', ''https://b'']) [] = (None, [''https://a'', ''https://b''])"
  by (rule urls_roundtrip [of Inr "\<lambda>u. u" "[''https://a'', ''https://b'']" "[]", simplified])
     (simp add: listable_def no_space_ends_def space_seqs_def is_head_def)

text \<open>C27. The command line is a codec for the options: parsing the arguments that give each option its
  value, the URLs and the kubeconfigs one by one, over the defaults, yields exactly those options,
  with the secure serving options as \<open>newOptions\<close> made them and no positional arguments, provided
  each URL can be listed; and without arguments the options are the defaults.\<close>

theorem flags_roundtrip:
  assumes "flagSet secure_flags p = Some f" "list_all (listable p str) (o_sourceAPIs opt)"
  shows "flags_Parse f (render_args str opt) (flag_defaults newOptions) =
      Parsed (opt\<lparr>o_secure := emitter_serving\<rparr>) [] \<and>
    flags_Parse f [] (flag_defaults newOptions) = Parsed (flag_defaults newOptions) []"
  using parse_render [OF assms] by (simp add: flags_Parse_def)

definition two_remotes :: "string options" where
  "two_remotes = (flag_defaults newOptions)\<lparr>o_clusterID := ''a'', o_sourceAPIs := [''https://b'', ''https://c'']\<rparr>"

theorem flags_roundtrip_witness:
  "case flagSet [(''bind-address'', string_flag (\<lambda>v. ss_BindAddress_update (\<lambda>_. v)))] Inr of
     None \<Rightarrow> False
   | Some f \<Rightarrow> flags_Parse f (render_args (\<lambda>u. u) two_remotes) (flag_defaults newOptions) = Parsed two_remotes []"
proof -
  let ?s = "[(''bind-address'', string_flag (\<lambda>v. ss_BindAddress_update (\<lambda>_. v)))]"
  have "flagSet ?s (Inr :: string \<Rightarrow> go_error + string) \<noteq> None"
    by (simp add: flagSet_def main_flags_def emitter_flags_def reflector_flags_def with_prefix_def AddFlag_def)
  then obtain f where f: "flagSet ?s (Inr :: string \<Rightarrow> go_error + string) = Some f" by blast
  have "list_all (listable Inr (\<lambda>u. u)) (o_sourceAPIs two_remotes)"
    by (simp add: two_remotes_def listable_def no_space_ends_def space_seqs_def is_head_def)
  from flags_roundtrip [OF f this] have "flags_Parse f (render_args (\<lambda>u. u) two_remotes) (flag_defaults newOptions) =
      Parsed (two_remotes\<lparr>o_secure := emitter_serving\<rparr>) []" by blast
  moreover have "two_remotes\<lparr>o_secure := emitter_serving\<rparr> = two_remotes"
    by (simp add: two_remotes_def flag_defaults_def newOptions_def)
  ultimately show ?thesis using f by simp
qed

end
