(* ===== verification/Run_Group.thy ===== *)
theory Run_Group
  imports Prelude
begin

text \<open>
  \<open>run.Group.Run\<close> of \<open>vendor/github.com/oklog/run/group.go\<close>, which \<open>Main\<close> ends in, as a step
  relation: the goroutines of the actors, the buffered channel they send their errors to, and the
  main goroutine, which waits for the first, interrupts all in order, and waits for the rest.
  What an actor does is an argument: \<open>may i k e\<close> says that actor \<open>i\<close> may return \<open>e\<close> once the first
  \<open>k\<close> interrupts were called, since the interrupts of a program may reach other actors too.
\<close>

section \<open>The group\<close>

text \<open>The main goroutine: before the first error, in the loop of interrupts, in the loop that collects
  the others (\<open>k\<close> errors received), and after it returned.\<close>

datatype group_phase =
  WaitFirst
| Interrupting "go_error option"
| Collecting "go_error option" nat
| Returned "go_error option"

record group_state =
  gs_running :: "nat set"
  gs_errors :: "go_error option list"
  gs_interrupted :: nat
  gs_phase :: group_phase

datatype group_label = Exit nat "go_error option" | Internal

definition group_start :: "nat \<Rightarrow> group_state" where
  "group_start n = \<lparr>gs_running = {..<n}, gs_errors = [], gs_interrupted = 0,
     gs_phase = (if n = 0 then Returned None else WaitFirst)\<rparr>"

inductive group_step ::
  "nat \<Rightarrow> (nat \<Rightarrow> nat \<Rightarrow> go_error option \<Rightarrow> bool) \<Rightarrow> group_state \<Rightarrow> group_label \<Rightarrow> group_state \<Rightarrow> bool"
  for n may where
  actor_returns: "i \<in> gs_running g \<Longrightarrow> may i (gs_interrupted g) e \<Longrightarrow>
    group_step n may g (Exit i e)
      (g\<lparr>gs_running := gs_running g - {i}, gs_errors := gs_errors g @ [e]\<rparr>)"
| first_error: "gs_phase g = WaitFirst \<Longrightarrow> gs_errors g = e # es \<Longrightarrow>
    group_step n may g Internal (g\<lparr>gs_errors := es, gs_phase := Interrupting e\<rparr>)"
| interrupt_next: "gs_phase g = Interrupting e \<Longrightarrow> gs_interrupted g < n \<Longrightarrow>
    group_step n may g Internal (g\<lparr>gs_interrupted := Suc (gs_interrupted g)\<rparr>)"
| all_interrupted: "gs_phase g = Interrupting e \<Longrightarrow> \<not> gs_interrupted g < n \<Longrightarrow>
    group_step n may g Internal (g\<lparr>gs_phase := Collecting e 1\<rparr>)"
| collect_next: "gs_phase g = Collecting e k \<Longrightarrow> k < n \<Longrightarrow> gs_errors g = e' # es \<Longrightarrow>
    group_step n may g Internal (g\<lparr>gs_errors := es, gs_phase := Collecting e (Suc k)\<rparr>)"
| run_returns: "gs_phase g = Collecting e k \<Longrightarrow> \<not> k < n \<Longrightarrow>
    group_step n may g Internal (g\<lparr>gs_phase := Returned e\<rparr>)"

inductive_cases group_stepE: "group_step n may g l g'"

text \<open>Runs from the start, with the labels of their steps.\<close>

inductive group_run ::
  "nat \<Rightarrow> (nat \<Rightarrow> nat \<Rightarrow> go_error option \<Rightarrow> bool) \<Rightarrow> group_label list \<Rightarrow> group_state \<Rightarrow> bool"
  for n may where
  run_start: "group_run n may [] (group_start n)"
| run_step: "group_run n may ls g \<Longrightarrow> group_step n may g l g' \<Longrightarrow> group_run n may (ls @ [l]) g'"

fun exits :: "group_label list \<Rightarrow> (nat \<times> go_error option) list" where
  "exits [] = []"
| "exits (Exit i e # ls) = (i, e) # exits ls"
| "exits (Internal # ls) = exits ls"

lemma exits_snoc [simp]:
  "exits (ls @ [Exit i e]) = exits ls @ [(i, e)]" "exits (ls @ [Internal]) = exits ls"
  by (induction ls rule: exits.induct) simp_all

section \<open>The invariant\<close>

text \<open>Errors received so far.\<close>

fun received :: "nat \<Rightarrow> group_phase \<Rightarrow> nat" where
  "received n WaitFirst = 0"
| "received n (Interrupting e) = 1"
| "received n (Collecting e k) = k"
| "received n (Returned e) = n"

text \<open>What the main goroutine knows: how many interrupts were called, and the first error.\<close>

fun phase_ok :: "nat \<Rightarrow> (nat \<times> go_error option) list \<Rightarrow> nat \<Rightarrow> group_phase \<Rightarrow> bool" where
  "phase_ok n ex k WaitFirst = (k = 0)"
| "phase_ok n ex k (Interrupting e) = (k \<le> n \<and> ex \<noteq> [] \<and> e = snd (hd ex))"
| "phase_ok n ex k (Collecting e j) = (k = n \<and> ex \<noteq> [] \<and> e = snd (hd ex) \<and> 1 \<le> j \<and> j \<le> n)"
| "phase_ok n ex k (Returned e) = (k = n \<and> (n = 0 \<and> e = None \<or> ex \<noteq> [] \<and> e = snd (hd ex)))"

definition group_inv :: "nat \<Rightarrow> group_label list \<Rightarrow> group_state \<Rightarrow> bool" where
  "group_inv n ls g =
     (distinct (map fst (exits ls)) \<and> gs_running g = {..<n} - fst ` set (exits ls) \<and>
      fst ` set (exits ls) \<subseteq> {..<n} \<and>
      gs_errors g = drop (received n (gs_phase g)) (map snd (exits ls)) \<and>
      received n (gs_phase g) \<le> length (exits ls) \<and>
      phase_ok n (exits ls) (gs_interrupted g) (gs_phase g))"

lemma drop_step: "drop k xs = x # ys \<Longrightarrow> drop (Suc k) xs = ys \<and> Suc k \<le> length xs"
  by (metis Suc_leI drop_Suc drop_all list.distinct(1) list.sel(3) not_less_eq_eq tl_drop)

lemma phase_ok_snoc: "phase_ok n ex k p \<Longrightarrow> phase_ok n (ex @ [x]) k p"
  by (cases p) (auto simp: hd_append)

lemma group_inv_step:
  assumes inv: "group_inv n ls g" and step: "group_step n may g l g'"
  shows "group_inv n (ls @ [l]) g'"
  using step
proof cases
  case (actor_returns i e)
  then show ?thesis using inv phase_ok_snoc [of n "exits ls" "gs_interrupted g" "gs_phase g"]
    by (auto simp: group_inv_def)
next
  case (first_error e es)
  have "exits ls \<noteq> []" "e = snd (hd (exits ls))" "es = drop 1 (map snd (exits ls))"
    using inv first_error by (auto simp: group_inv_def)
  with first_error inv show ?thesis by (auto simp: group_inv_def Suc_le_eq)
next
  case (collect_next e k e' es)
  have "drop k (map snd (exits ls)) = e' # es" using inv collect_next by (simp add: group_inv_def)
  from drop_step [OF this] show ?thesis using inv collect_next by (auto simp: group_inv_def)
next
  case (all_interrupted e)
  then obtain x xs where "exits ls = x # xs" using inv by (cases "exits ls") (auto simp: group_inv_def)
  then show ?thesis using inv all_interrupted by (auto simp: group_inv_def)
qed (use inv in \<open>auto simp: group_inv_def\<close>)

lemma group_run_inv: "group_run n may ls g \<Longrightarrow> group_inv n ls g"
proof (induction rule: group_run.induct)
  case run_start
  then show ?case by (simp add: group_inv_def group_start_def)
next
  case (run_step ls g l g')
  show ?case by (rule group_inv_step [OF run_step.IH run_step.hyps(2)])
qed

text \<open>The first actor to return did so by itself, before any interrupt.\<close>

lemma first_exit:
  assumes "group_run n may ls g" "exits ls \<noteq> []"
  shows "may (fst (hd (exits ls))) 0 (snd (hd (exits ls)))"
  using assms
proof (induction rule: group_run.induct)
  case (run_step ls g l g')
  show ?case
  proof (cases "exits ls = []")
    case True
    then obtain i e where l: "l = Exit i e" using run_step.prems by (cases l) auto
    from run_step.hyps(2) have "i \<in> gs_running g" "may i (gs_interrupted g) e"
      unfolding l by (auto elim: group_stepE)
    moreover have "gs_interrupted g = 0"
      using group_run_inv [OF run_step.hyps(1)] True calculation(1)
      by (cases "gs_phase g") (auto simp: group_inv_def)
    ultimately show ?thesis using True l by simp
  next
    case False
    then show ?thesis using run_step.IH by (cases l) (simp_all add: hd_append)
  qed
qed simp

section \<open>The measure\<close>

fun phase_rank :: "group_phase \<Rightarrow> nat" where
  "phase_rank WaitFirst = 3" | "phase_rank (Interrupting e) = 2"
| "phase_rank (Collecting e k) = 1" | "phase_rank (Returned e) = 0"

definition group_rank :: "nat \<Rightarrow> group_state \<Rightarrow> nat" where
  "group_rank n g = 2 * card (gs_running g) + length (gs_errors g) + (n - gs_interrupted g) +
     phase_rank (gs_phase g)"

lemma group_step_rank:
  assumes "group_step n may g l g'" "finite (gs_running g)"
  shows "group_rank n g' < group_rank n g"
  using assms
proof cases
  case (actor_returns i e)
  then have "card (gs_running g - {i}) < card (gs_running g)" using assms(2) by (intro card_Diff1_less)
  then show ?thesis using actor_returns by (simp add: group_rank_def)
qed (auto simp: group_rank_def)

lemma group_run_length: "group_run n may ls g \<Longrightarrow> length ls + group_rank n g \<le> 3 * n + 3"
proof (induction rule: group_run.induct)
  case run_start
  then show ?case by (simp add: group_rank_def group_start_def)
next
  case (run_step ls g l g')
  have "finite (gs_running g)" using group_run_inv [OF run_step.hyps(1)] by (simp add: group_inv_def)
  from group_step_rank [OF run_step.hyps(2) this] run_step.IH show ?case by simp
qed

lemma group_progress:
  assumes run: "group_run n may ls g"
    and obey: "\<And>i. i < n \<Longrightarrow> \<exists>e. may i n e" and one: "n = 0 \<or> (\<exists>i < n. \<exists>e. may i 0 e)"
  shows "(\<exists>e. gs_phase g = Returned e) \<or> (\<exists>l g'. group_step n may g l g')"
proof -
  note inv = group_run_inv [OF run, unfolded group_inv_def]
  show ?thesis
  proof (cases "gs_phase g")
    case WaitFirst
    show ?thesis
    proof (cases "gs_errors g")
      case Nil
      then have "exits ls = []" "gs_interrupted g = 0" using inv WaitFirst by auto
      then have "gs_running g = {..<n}" using inv by simp
      show ?thesis
      proof (cases "n = 0")
        case True
        have "\<not> gs_phase g = WaitFirst" using run True
        proof (induction rule: group_run.induct)
          case (run_step ls g l g')
          from run_step.hyps(2) show ?case by cases (use run_step in auto)
        qed (simp add: group_start_def)
        with WaitFirst show ?thesis by simp
      next
        case False
        then obtain i e where "i < n" "may i 0 e" using one by blast
        then show ?thesis
          using \<open>gs_interrupted g = 0\<close> \<open>gs_running g = {..<n}\<close> group_step.actor_returns [of i g may e n] by auto
      qed
    qed (use WaitFirst group_step.first_error in blast)
  next
    case (Interrupting e)
    then show ?thesis using group_step.interrupt_next group_step.all_interrupted by blast
  next
    case (Collecting e k)
    show ?thesis
    proof (cases "k < n \<and> gs_errors g = []")
      case True
      then have "length (exits ls) < n" using inv Collecting by auto
      moreover have "card (fst ` set (exits ls)) = length (exits ls)"
        using inv distinct_card [of "map fst (exits ls)"] by simp
      ultimately have "gs_running g \<noteq> {}" using inv card_mono [of "fst ` set (exits ls)" "{..<n}"] by auto
      then obtain i where "i \<in> gs_running g" by blast
      moreover have "i < n" using calculation inv by simp
      ultimately show ?thesis
        using obey [of i] inv Collecting group_step.actor_returns [of i g may _ n] by auto
    next
      case False
      then show ?thesis
        using Collecting group_step.run_returns [of g e k n may]
          group_step.collect_next [of g e k n _ _ may] by (cases "gs_errors g") auto
    qed
  qed blast
qed

lemma group_result:
  assumes run: "group_run n may ls g" and n: "0 < n" and r: "gs_phase g = Returned e"
  shows "gs_interrupted g = n" "gs_running g = {}" "distinct (map fst (exits ls))"
    "fst ` set (exits ls) = {..<n}" "e = snd (hd (exits ls))" "may (fst (hd (exits ls))) 0 e"
proof -
  note inv = group_run_inv [OF run, unfolded group_inv_def]
  have all: "fst ` set (exits ls) = {..<n}"
  proof (rule card_subset_eq)
    have "card (fst ` set (exits ls)) = length (exits ls)"
      using inv distinct_card [of "map fst (exits ls)"] by simp
    moreover have "length (exits ls) \<le> n"
      using inv card_mono [of "{..<n}" "fst ` set (exits ls)"] calculation by simp
    ultimately show "card (fst ` set (exits ls)) = card {..<n}" using inv r by simp
  qed (use inv in simp_all)
  have first: "exits ls \<noteq> []" "e = snd (hd (exits ls))" using inv n r by auto
  show "gs_interrupted g = n" "gs_running g = {}" "distinct (map fst (exits ls))"
    "fst ` set (exits ls) = {..<n}" "e = snd (hd (exits ls))"
    using inv r all first by simp_all
  show "may (fst (hd (exits ls))) 0 e" using first_exit [OF run first(1)] first(2) by simp
qed

section \<open>Properties\<close>

text \<open>C28. A group shuts down: if some actor returns by itself, and every actor returns once all were
  interrupted, then no run takes more than three steps for each actor and three more, and none stops
  before \<open>Run\<close> has returned. When it has, every actor was interrupted and has returned, once, and the
  result is the error of the one that returned first, by itself; the errors of the others are lost.\<close>

theorem group_returns:
  assumes run: "group_run n may ls g" and n: "0 < n"
    and obey: "\<And>i. i < n \<Longrightarrow> \<exists>e. may i n e" and one: "\<exists>i < n. \<exists>e. may i 0 e"
  shows "length ls \<le> 3 * n + 3 \<and>
    ((\<exists>e. gs_phase g = Returned e) \<or> (\<exists>l g'. group_step n may g l g')) \<and>
    (\<forall>e. gs_phase g = Returned e \<longrightarrow>
       gs_interrupted g = n \<and> gs_running g = {} \<and> distinct (map fst (exits ls)) \<and>
       fst ` set (exits ls) = {..<n} \<and> e = snd (hd (exits ls)) \<and> may (fst (hd (exits ls))) 0 e)"
  using group_run_length [OF run] group_progress [OF run obey] one group_result [OF run n] by auto

text \<open>Two actors: the first fails, the second obeys its interrupt.\<close>

definition two_actors :: "nat \<Rightarrow> nat \<Rightarrow> go_error option \<Rightarrow> bool" where
  "two_actors i k e = (if i = 0 then e = Some JsonError else e = None \<and> i < k)"

lemma two_actors_run:
  "group_run 2 two_actors
     [Exit 0 (Some JsonError), Internal, Internal, Internal, Internal, Exit 1 None, Internal, Internal]
     \<lparr>gs_running = {}, gs_errors = [], gs_interrupted = 2, gs_phase = Returned (Some JsonError)\<rparr>"
proof -
  let ?e = "Some JsonError"
  let ?g = "\<lambda>r es k p. \<lparr>gs_running = r, gs_errors = es, gs_interrupted = k, gs_phase = p\<rparr>"
  have s: "group_start 2 = ?g {0, 1} [] 0 WaitFirst" by (auto simp: group_start_def)
  note next_step = group_run.run_step [where n = 2 and may = two_actors]
  have "group_run 2 two_actors [Exit 0 ?e] (?g {1} [?e] 0 WaitFirst)"
    using next_step [OF group_run.run_start group_step.actor_returns, of 0 ?e]
    by (simp add: s two_actors_def insert_Diff_if)
  from next_step [OF this group_step.first_error]
  have "group_run 2 two_actors [Exit 0 ?e, Internal] (?g {1} [] 0 (Interrupting ?e))" by simp
  from next_step [OF this group_step.interrupt_next]
  have "group_run 2 two_actors [Exit 0 ?e, Internal, Internal] (?g {1} [] 1 (Interrupting ?e))" by simp
  from next_step [OF this group_step.interrupt_next]
  have "group_run 2 two_actors [Exit 0 ?e, Internal, Internal, Internal] (?g {1} [] 2 (Interrupting ?e))"
    by (simp add: numeral_2_eq_2)
  from next_step [OF this group_step.all_interrupted]
  have "group_run 2 two_actors [Exit 0 ?e, Internal, Internal, Internal, Internal]
      (?g {1} [] 2 (Collecting ?e 1))" by simp
  from next_step [OF this group_step.actor_returns, of 1 None]
  have "group_run 2 two_actors [Exit 0 ?e, Internal, Internal, Internal, Internal, Exit 1 None]
      (?g {} [None] 2 (Collecting ?e 1))" by (simp add: two_actors_def)
  from next_step [OF this group_step.collect_next]
  have "group_run 2 two_actors [Exit 0 ?e, Internal, Internal, Internal, Internal, Exit 1 None, Internal]
      (?g {} [] 2 (Collecting ?e 2))" by (simp add: numeral_2_eq_2)
  from next_step [OF this group_step.run_returns] show ?thesis by simp
qed

theorem group_returns_witness:
  "\<exists>ls g. group_run 2 two_actors ls g \<and> gs_phase g = Returned (Some JsonError) \<and>
     gs_interrupted g = 2 \<and> fst ` set (exits ls) = {..<2} \<and> length ls \<le> 9"
proof -
  have "\<exists>e. two_actors i 2 e" if "i < 2" for i using that by (auto simp: two_actors_def)
  moreover have "\<exists>i < 2. \<exists>e. two_actors i 0 e" by (rule exI [of _ 0]) (simp add: two_actors_def)
  ultimately show ?thesis
    using group_returns [OF two_actors_run] two_actors_run by fastforce
qed

end
