(* ===== verification/Options.thy ===== *)
theory Options
  imports Flags Run_Group Manager Mirror Apiserver
begin

text \<open>
  \<open>cmd/service-reflector/main.go\<close>: the completion of the options, the informers of the emitter, the
  map of remote configurations, \<open>multiError\<close>, and \<open>Main\<close> with the actors it runs, over the parsed
  command line of \<open>Flags\<close>, the server of \<open>Apiserver\<close>, the manager of \<open>Manager\<close> and the group of
  \<open>Run_Group\<close>.
  What belongs to libraries is an argument: parsing and printing of label selectors, building of REST
  configurations, the certificates and listeners.
\<close>

section \<open>Completion\<close>

text \<open>The libraries \<open>complete\<close> calls: \<open>e_Config masterURL kubeconfig\<close> is \<open>BuildConfigFromFlags\<close>.
  A REST configuration is a value of a type \<open>'cfg\<close>.\<close>

record 'cfg environment =
  e_Validate :: "go_error list"
  e_Parse :: "string \<Rightarrow> go_error + label_selector"
  e_String :: "label_selector \<Rightarrow> string"
  e_Config :: "string \<Rightarrow> string \<Rightarrow> go_error + 'cfg"
  e_SelfSigned :: "go_error option"
  e_ApplyTo :: "go_error option"
  e_Dynamic :: "go_error option"

datatype log_level = LevelDebug | LevelInfo | LevelWarn | LevelError

text \<open>A dynamic informer: what it lists and watches in the local cluster.\<close>

record dyn_informer =
  di_resource :: gvr
  di_namespace :: string
  di_selector :: string

record 'cfg completed =
  k_emitterSelector :: label_selector
  k_reflectorSelector :: label_selector
  k_localConfig :: "'cfg option"
  k_logger :: "log_level option"
  k_apiserver :: "dyn_informer completed_config option"

definition parse_selector ::
  "(string \<Rightarrow> go_error + label_selector) \<Rightarrow> string \<Rightarrow> string \<Rightarrow> go_error list \<times> label_selector" where
  "parse_selector p flag sel =
     (if sel = '''' then ([], Everything)
      else
        (case p sel of
           Inl err \<Rightarrow> ([Wrapf (''invalid '' @ flag @ '' '' @ fmt_q sel) err], Everything)
         | Inr s \<Rightarrow> ([], s)))"

definition availableLogLevels :: string where
  "availableLogLevels = strings_Join [''debug'', ''info'', ''warn'', ''error''] '', ''"

definition choose_logger :: "string \<Rightarrow> go_error list \<times> log_level" where
  "choose_logger l =
     (if l = ''debug'' then ([], LevelDebug)
      else if l = ''warn'' then ([], LevelWarn)
      else if l = ''error'' then ([], LevelError)
      else (if l \<noteq> ''info'' then [Errorf (''unknown log level '' @ fmt_q l @ ''; possible values: '' @ availableLogLevels)] else [], LevelInfo))"

text \<open>The tweak of the factory applies to both informers.\<close>

definition completeEmitter ::
  "'cfg environment \<Rightarrow> 'url options \<Rightarrow> label_selector \<Rightarrow> go_error + dyn_informer completed_config" where
  "completeEmitter e opt emitterSelectorParsed =
     (case e_SelfSigned e of
        Some err \<Rightarrow> Inl (Wrapf ''error creating self-signed certs'' err)
      | None \<Rightarrow>
          (case e_ApplyTo e of
             Some err \<Rightarrow> Inl err
           | None \<Rightarrow>
               (case e_Dynamic e of
                  Some err \<Rightarrow> Inl (Wrapf ''creating dynamic client for emitter'' err)
                | None \<Rightarrow>
                    (let ForResource = (\<lambda>r. \<lparr>di_resource = r, di_namespace = o_namespace opt,
                           di_selector = e_String e emitterSelectorParsed\<rparr>)
                     in Inr (cfg_Complete (ForResource SeGVR) (ForResource EsGVR))))))"

definition o_complete :: "'cfg environment \<Rightarrow> 'url options \<Rightarrow> go_error list \<times> 'cfg completed" where
  "o_complete e opt =
     (let errs1 = e_Validate e;
          errs2 = errs1 @ (if o_clusterID opt = '''' then [Errorf ''--cluster-id is required''] else []);
          errs3 = errs2 @ (if \<not> o_runEmitter opt \<and> \<not> o_runReflector opt
                    then [Errorf ''at least one of --emitter or --reflector must be enabled''] else []);
          (pe, es) = parse_selector (e_Parse e) ''--emitter.selector'' (o_emitterSelector opt);
          (pr, rs) = parse_selector (e_Parse e) ''--reflector.selector'' (o_reflectorSelector opt);
          errs5 = errs3 @ pe @ pr;
          k = \<lparr>k_emitterSelector = es, k_reflectorSelector = rs, k_localConfig = None,
               k_logger = None, k_apiserver = None\<rparr>
      in (case e_Config e '''' (o_kubeconfig opt) of
            Inl err \<Rightarrow> (errs5 @ [Wrapf ''failed to create Kubernetes config'' err], k)
          | Inr cfg \<Rightarrow>
              (let (pl, logger) = choose_logger (o_logLevel opt);
                   errs6 = errs5 @ pl;
                   k1 = k\<lparr>k_localConfig := Some cfg, k_logger := Some logger\<rparr>
               in if errs6 \<noteq> [] then (errs6, k1)
                  else if o_runEmitter opt
                  then (case completeEmitter e opt es of
                          Inl err \<Rightarrow> (errs6 @ [err], k1)
                        | Inr c \<Rightarrow> (errs6, k1\<lparr>k_apiserver := Some c\<rparr>))
                  else (errs6, k1))))"

definition multiError :: "(go_error \<Rightarrow> string) \<Rightarrow> go_error list \<Rightarrow> string" where
  "multiError error_String m = strings_Join (map error_String m) ''; ''"

section \<open>Remote configurations\<close>

fun add_apis ::
  "(string \<Rightarrow> string \<Rightarrow> go_error + 'cfg) \<Rightarrow> ('url \<Rightarrow> string) \<Rightarrow> ('url \<Rightarrow> string) \<Rightarrow> 'url list \<Rightarrow>
   (string \<rightharpoonup> 'cfg) \<Rightarrow> go_error + (string \<rightharpoonup> 'cfg)" where
  "add_apis build url_String url_Host [] m = Inr m"
| "add_apis build url_String url_Host (u # us) m =
     (case build (url_String u) '''' of
        Inl err \<Rightarrow> Inl (Wrapf (''building config for remote API '' @ url_String u) err)
      | Inr cfg \<Rightarrow> add_apis build url_String url_Host us (m(url_Host u \<mapsto> cfg)))"

fun add_kubeconfigs ::
  "(string \<Rightarrow> string \<Rightarrow> go_error + 'cfg) \<Rightarrow> ('cfg \<Rightarrow> string) \<Rightarrow> string list \<Rightarrow> (string \<rightharpoonup> 'cfg) \<Rightarrow>
   go_error + (string \<rightharpoonup> 'cfg)" where
  "add_kubeconfigs build cfg_Host [] m = Inr m"
| "add_kubeconfigs build cfg_Host (kc # kcs) m =
     (case build '''' kc of
        Inl err \<Rightarrow> Inl (Wrapf (''building config from kubeconfig '' @ kc) err)
      | Inr cfg \<Rightarrow> add_kubeconfigs build cfg_Host kcs (m(cfg_Host cfg \<mapsto> cfg)))"

definition buildRemoteConfigs ::
  "(string \<Rightarrow> string \<Rightarrow> go_error + 'cfg) \<Rightarrow> ('url \<Rightarrow> string) \<Rightarrow> ('url \<Rightarrow> string) \<Rightarrow> ('cfg \<Rightarrow> string) \<Rightarrow>
   'url options \<Rightarrow> go_error + (string \<rightharpoonup> 'cfg)" where
  "buildRemoteConfigs build url_String url_Host cfg_Host opt =
     (case add_apis build url_String url_Host (o_sourceAPIs opt) Map.empty of
        Inl err \<Rightarrow> Inl err
      | Inr m \<Rightarrow> add_kubeconfigs build cfg_Host (o_sourceKubeconfigs opt) m)"

section \<open>\<open>Main\<close>\<close>

datatype main_actor =
  RunInformer dyn_informer
| RunServer "dyn_informer emitter"
| RunManager manager_options
| ServeMetrics string
| WaitSignals

text \<open>What else \<open>Main\<close> calls: the API server, the listener, and the order in which Go ranges over the
  remote configurations.\<close>

record 'cfg main_env =
  me_server :: "dyn_informer server_env"
  me_Listen :: "string \<Rightarrow> go_error option"
  me_order :: "(string \<rightharpoonup> 'cfg) \<Rightarrow> string list"
  me_String :: "'cfg \<Rightarrow> string"

text \<open>How URLs are read.\<close>

record 'url url_lib =
  url_Parse :: "string \<Rightarrow> go_error + 'url"
  url_String :: "'url \<Rightarrow> string"
  url_Host :: "'url \<Rightarrow> string"

datatype main_result =
  PrintedVersion
| CompleteFailed "go_error list"
| SetupFailed go_error
| Grouped "main_actor list"
| Exited nat
| FlagPanic

definition emitter_actors :: "dyn_informer completed_config \<Rightarrow> dyn_informer emitter \<Rightarrow> main_actor list" where
  "emitter_actors c emitter =
     [RunInformer (cc_serviceExportInformer c), RunInformer (cc_endpointSliceInformer c), RunServer emitter]"

text \<open>\<open>Main\<close> after the flags were parsed, up to \<open>g.Run\<close>. The completed configuration is set whenever the
  emitter runs.\<close>

definition main_emitter ::
  "dyn_informer server_env \<Rightarrow> 'url options \<Rightarrow> 'cfg completed \<Rightarrow> go_error + main_actor list" where
  "main_emitter sv opt k =
     (if \<not> o_runEmitter opt then Inr []
      else
        (case k_apiserver k of
           None \<Rightarrow> Inr []
         | Some c \<Rightarrow>
             (case emitter_New sv c of
                (Some err, _) \<Rightarrow> Inl err
              | (None, emitter) \<Rightarrow> Inr (emitter_actors c emitter))))"

definition main_reflector ::
  "'cfg environment \<Rightarrow> 'cfg main_env \<Rightarrow> 'url url_lib \<Rightarrow> 'url options \<Rightarrow> 'cfg completed \<Rightarrow>
   go_error + main_actor list" where
  "main_reflector e me ul opt k =
     (if \<not> o_runReflector opt then Inr []
      else
        (case buildRemoteConfigs (e_Config e) (url_String ul) (url_Host ul) (me_String me) opt of
           Inl err \<Rightarrow> Inl err
         | Inr remoteConfigs \<Rightarrow>
             Inr [RunManager \<lparr>mo_ClusterID = o_clusterID opt, mo_Namespace = o_namespace opt,
               mo_Remotes = me_order me remoteConfigs,
               mo_Selector = e_String e (k_reflectorSelector k)\<rparr>]))"

definition main_setup ::
  "'cfg environment \<Rightarrow> 'cfg main_env \<Rightarrow> 'url url_lib \<Rightarrow> 'url options \<Rightarrow> main_result" where
  "main_setup e me ul opt =
     (if o_printVersion opt then PrintedVersion
      else
        (let (errs, k) = o_complete e opt
         in if errs \<noteq> [] then CompleteFailed errs
            else
              (case main_emitter (me_server me) opt k of
                 Inl err \<Rightarrow> SetupFailed err
               | Inr ea \<Rightarrow>
                   (case main_reflector e me ul opt k of
                      Inl err \<Rightarrow> SetupFailed err
                    | Inr ra \<Rightarrow>
                        (case me_Listen me (o_listen opt) of
                           Some err \<Rightarrow>
                             SetupFailed (Wrapf (''failed to listen on '' @ o_listen opt) err)
                         | None \<Rightarrow> Grouped (ea @ ra @ [ServeMetrics (o_listen opt), WaitSignals]))))))"

definition o_Main ::
  "'cfg environment \<Rightarrow> 'cfg main_env \<Rightarrow> 'url url_lib \<Rightarrow> (string \<times> secure_serving flag) list \<Rightarrow>
   string list \<Rightarrow> main_result" where
  "o_Main e me ul secure_flags args =
     (case flagSet secure_flags (url_Parse ul) of
        None \<Rightarrow> FlagPanic
      | Some f \<Rightarrow>
          (case flags_Parse f args (flag_defaults newOptions) of
             ExitHelp \<Rightarrow> Exited 0
           | ExitUsage _ \<Rightarrow> Exited 2
           | Parsed opt _ \<Rightarrow> main_setup e me ul opt))"

section \<open>What the actors do\<close>

text \<open>The surroundings of the running actors: the manager's libraries, the errors with which the servers
  may fail by themselves, the error of a closed listener, and whether a signal arrives.\<close>

record actor_env =
  ae_manager :: manager_env
  ae_serverFails :: "go_error list"
  ae_metricsFails :: "go_error list"
  ae_closed :: go_error
  ae_signal :: bool

text \<open>The interrupt of the metrics server closes its listener, every other cancels the context.\<close>

definition is_metrics :: "main_actor \<Rightarrow> bool" where
  "is_metrics a = (case a of ServeMetrics _ \<Rightarrow> True | _ \<Rightarrow> False)"

definition ctx_done :: "main_actor list \<Rightarrow> bool" where
  "ctx_done interrupted = list_ex (\<lambda>a. \<not> is_metrics a) interrupted"

definition listener_closed :: "main_actor list \<Rightarrow> bool" where
  "listener_closed interrupted = list_ex is_metrics interrupted"

definition actor_returns :: "actor_env \<Rightarrow> main_actor list \<Rightarrow> main_actor \<Rightarrow> go_error option \<Rightarrow> bool" where
  "actor_returns ae interrupted a r =
     (case a of
        RunInformer _ \<Rightarrow> r = None \<and> ctx_done interrupted
      | RunServer _ \<Rightarrow> (r = None \<and> ctx_done interrupted) \<or> (\<exists>err \<in> set (ae_serverFails ae). r = Some err)
      | RunManager opts \<Rightarrow>
          r = fst (manager_Start (ae_manager ae) opts) \<and>
          (\<not> sd_running (snd (manager_Start (ae_manager ae) opts)) \<or> ctx_done interrupted)
      | ServeMetrics _ \<Rightarrow>
          (r = Some (Wrapf ''metrics server error'' (ae_closed ae)) \<and> listener_closed interrupted) \<or>
          (\<exists>err \<in> set (ae_metricsFails ae). r = Some (Wrapf ''metrics server error'' err))
      | WaitSignals \<Rightarrow> r = None \<and> (ae_signal ae \<or> ctx_done interrupted))"

definition actor_may :: "actor_env \<Rightarrow> main_actor list \<Rightarrow> nat \<Rightarrow> nat \<Rightarrow> go_error option \<Rightarrow> bool" where
  "actor_may ae actors i k r = actor_returns ae (take k actors) (actors ! i) r"

text \<open>\<open>main\<close>: the status of the process, for the error, if any, that \<open>g.Run\<close> returned.\<close>

fun exit_status :: "main_result \<Rightarrow> go_error option \<Rightarrow> nat" where
  "exit_status PrintedVersion r = 0"
| "exit_status (CompleteFailed errs) r = 1"
| "exit_status (SetupFailed err) r = 1"
| "exit_status (Grouped actors) r = (case r of None \<Rightarrow> 0 | Some err \<Rightarrow> 1)"
| "exit_status (Exited n) r = n"
| "exit_status FlagPanic r = 2"

section \<open>Lemmas\<close>

lemma add_apis_dom:
  "add_apis build str host us m = Inr m1 \<Longrightarrow> dom m1 = dom m \<union> host ` set us"
  by (induction us arbitrary: m) (auto split: sum.splits)

lemma add_apis_last:
  "add_apis build str host (us @ [u]) m = Inr m1 \<Longrightarrow>
   \<exists>cfg. build (str u) [] = Inr cfg \<and> m1 (host u) = Some cfg"
  by (induction us arbitrary: m) (auto split: sum.splits)

lemma parse_selector_ok:
  "parse_selector p flag sel = ([], s) \<Longrightarrow> if sel = [] then s = Everything else p sel = Inr s"
  by (auto simp: parse_selector_def split: if_splits sum.splits)

lemma choose_logger_ok:
  "choose_logger l = ([], lv) \<Longrightarrow> l \<in> {''debug'', ''info'', ''warn'', ''error''}"
  by (auto simp: choose_logger_def split: if_splits)

text \<open>The actors of a group that \<open>Main\<close> runs.\<close>

lemma emitter_New_groups:
  "emitter_New sv c = (None, em) \<Longrightarrow>
   em_handlers em = [(cc_serviceExportInformer c, ServiceExportStorage (cc_serviceExportInformer c)),
     (cc_endpointSliceInformer c,
      EndpointSliceStorage (cc_endpointSliceInformer c) (cc_serviceExportInformer c))]"
  by (auto simp: emitter_New_def Let_def NewServiceExportStorage_def NewEndpointSliceStorage_def
      split: option.splits)

lemma main_setup_Grouped:
  assumes "main_setup e me ul opt = Grouped actors"
  shows "\<exists>k ea ra. o_complete e opt = ([], k) \<and> main_emitter (me_server me) opt k = Inr ea \<and>
    main_reflector e me ul opt k = Inr ra \<and> actors = ea @ ra @ [ServeMetrics (o_listen opt), WaitSignals]"
  using assms
  by (cases "o_complete e opt") (auto simp: main_setup_def split: if_splits sum.splits option.splits)

text \<open>\<open>Main\<close> on the arguments that ask for given options.\<close>

lemma o_Main_render:
  assumes "flagSet secure_flags (url_Parse ul) = Some f"
    and "list_all (listable (url_Parse ul) (url_String ul)) (o_sourceAPIs opt)"
  shows "o_Main e me ul secure_flags (render_args (url_String ul) opt) =
    main_setup e me ul (opt\<lparr>o_secure := emitter_serving\<rparr>)"
  by (simp add: o_Main_def assms(1) parse_render [OF assms])

lemma all_actors_obey: "\<exists>r. actor_returns ae (interrupted @ [ServeMetrics l, WaitSignals]) a r"
  by (cases a) (auto simp: actor_returns_def ctx_done_def listener_closed_def is_metrics_def)

text \<open>The manager of the repository returns by itself, with an error: \<open>Start\<close> cannot set up the
  controller for Services.\<close>

lemma manager_not_running:
  "fst (manager_Start env opts) \<noteq> None \<and> \<not> sd_running (snd (manager_Start env opts))"
  using start_fails [of env opts] by blast

lemma manager_returns: "\<exists>err. actor_returns ae [] (RunManager opts) (Some err)"
  using manager_not_running [of "ae_manager ae" opts] by (auto simp: actor_returns_def)

lemma no_signal_error:
  "\<not> ae_signal ae \<Longrightarrow> actor_returns ae [] a r \<Longrightarrow> r \<noteq> None"
  using manager_not_running
  by (cases a) (auto simp: actor_returns_def ctx_done_def)

lemma complete_emitter:
  "o_complete e opt = ([], k) \<Longrightarrow> o_runEmitter opt \<Longrightarrow>
   \<exists>c. k_apiserver k = Some c \<and> completeEmitter e opt (k_emitterSelector k) = Inr c"
  by (auto simp: o_complete_def Let_def split: prod.splits sum.splits if_splits)

section \<open>Properties\<close>

text \<open>Completion without errors means usable options: there is a cluster id, the emitter or the
  reflector is on, the log level is one of the four, the local configuration and the logger are
  set, a selector that was given was parsed and one that was not selects everything, and the
  emitter is completed when it is on. Otherwise the errors list each problem found.\<close>

theorem complete_ok:
  assumes "o_complete e opt = ([], k)"
  shows "e_Validate e = [] \<and> o_clusterID opt \<noteq> '''' \<and> (o_runEmitter opt \<or> o_runReflector opt) \<and>
    o_logLevel opt \<in> {''debug'', ''info'', ''warn'', ''error''} \<and>
    (\<exists>cfg. k_localConfig k = Some cfg \<and> e_Config e '''' (o_kubeconfig opt) = Inr cfg) \<and>
    k_logger k = Some (snd (choose_logger (o_logLevel opt))) \<and>
    (if o_emitterSelector opt = '''' then k_emitterSelector k = Everything
     else e_Parse e (o_emitterSelector opt) = Inr (k_emitterSelector k)) \<and>
    (if o_reflectorSelector opt = '''' then k_reflectorSelector k = Everything
     else e_Parse e (o_reflectorSelector opt) = Inr (k_reflectorSelector k)) \<and>
    (if o_runEmitter opt
     then \<exists>c. k_apiserver k = Some c \<and> completeEmitter e opt (k_emitterSelector k) = Inr c
     else k_apiserver k = None)"
proof -
  obtain pe es where pe: "parse_selector (e_Parse e) ''--emitter.selector'' (o_emitterSelector opt) = (pe, es)"
    by fastforce
  obtain pr rs where pr: "parse_selector (e_Parse e) ''--reflector.selector'' (o_reflectorSelector opt) = (pr, rs)"
    by fastforce
  obtain pl lv where pl: "choose_logger (o_logLevel opt) = (pl, lv)" by fastforce
  have r: "e_Validate e = [] \<and> o_clusterID opt \<noteq> [] \<and> (o_runEmitter opt \<or> o_runReflector opt) \<and>
      pe = [] \<and> pr = [] \<and> pl = [] \<and> k_emitterSelector k = es \<and> k_reflectorSelector k = rs \<and>
      (\<exists>cfg. k_localConfig k = Some cfg \<and> e_Config e [] (o_kubeconfig opt) = Inr cfg) \<and>
      k_logger k = Some lv \<and> (if o_runEmitter opt
       then \<exists>c. k_apiserver k = Some c \<and> completeEmitter e opt es = Inr c
       else k_apiserver k = None)"
    using assms unfolding o_complete_def Let_def pe pr pl prod.case
    by (simp split: sum.splits if_splits option.splits) auto
  then have "parse_selector (e_Parse e) ''--emitter.selector'' (o_emitterSelector opt) =
        ([], k_emitterSelector k)"
      "parse_selector (e_Parse e) ''--reflector.selector'' (o_reflectorSelector opt) =
        ([], k_reflectorSelector k)"
      "choose_logger (o_logLevel opt) = ([], lv)"
      "k_logger k = Some (snd (choose_logger (o_logLevel opt)))"
    using pe pr pl by simp_all
  note this(4) parse_selector_ok [OF this(1)] parse_selector_ok [OF this(2)] choose_logger_ok [OF this(3)]
  with r show ?thesis by blast
qed

definition good_options :: "'url options" where
  "good_options = \<lparr>o_kubeconfig = '''', o_clusterID = ''a'', o_listen = '':9090'',
     o_logLevel = ''info'', o_namespace = '''', o_printVersion = False, o_runEmitter = True,
     o_runReflector = True, o_secure = emitter_serving, o_emitterSelector = '''', o_reflectorSelector = '''',
     o_sourceAPIs = [], o_sourceKubeconfigs = []\<rparr>"

definition good_environment :: "unit environment" where
  "good_environment = \<lparr>e_Validate = [], e_Parse = (\<lambda>_. Inr Everything), e_String = (\<lambda>_. []), e_Config = (\<lambda>_ _. Inr ()),
     e_SelfSigned = None, e_ApplyTo = None, e_Dynamic = None\<rparr>"

lemma good_options_sel [simp]:
  "o_logLevel good_options = ''info''" "o_sourceKubeconfigs good_options = []"
  "o_printVersion good_options = False" "o_runReflector good_options"
  "o_runEmitter good_options"
  by (simp_all add: good_options_def)

theorem complete_ok_witness:
  "k_logger (snd (o_complete good_environment good_options)) = Some LevelInfo"
proof -
  have "o_complete good_environment good_options =
      ([], snd (o_complete good_environment good_options))"
    by (simp add: o_complete_def good_environment_def good_options_def parse_selector_def
        choose_logger_def completeEmitter_def)
  from complete_ok [OF this]
  have "k_logger (snd (o_complete good_environment good_options)) =
      Some (snd (choose_logger (o_logLevel good_options)))" by blast
  then show ?thesis by (simp only: good_options_sel) (simp add: choose_logger_def)
qed

text \<open>The remote configurations are keyed by host alone: when all of them can be built there is one
  for each host named and no other, and of two remotes with the same host only the later is kept,
  so that the first is never watched.\<close>

theorem remotes_keyed_by_host:
  assumes "buildRemoteConfigs build str host cfg_Host opt = Inr m" "o_sourceKubeconfigs opt = []"
  shows "dom m = host ` set (o_sourceAPIs opt) \<and>
    (\<forall>us u. o_sourceAPIs opt = us @ [u] \<longrightarrow> Inr (the (m (host u))) = build (str u) [])"
proof -
  have m: "add_apis build str host (o_sourceAPIs opt) Map.empty = Inr m"
    using assms by (simp add: buildRemoteConfigs_def split: sum.splits)
  have "Inr (the (m (host u))) = build (str u) []" if "o_sourceAPIs opt = us @ [u]" for us u
    using add_apis_last [of build str host us u Map.empty m] m that by auto
  with add_apis_dom [OF m] show ?thesis by simp
qed

theorem remotes_keyed_by_host_witness:
  "case buildRemoteConfigs (\<lambda>u k. Inr u) (\<lambda>u. u) (takeWhile (\<lambda>c. c \<noteq> CHR ''/'')) (\<lambda>c. c)
      (good_options\<lparr>o_sourceAPIs := [''h/1'', ''h/2'']\<rparr> :: string options) of
     Inl e \<Rightarrow> False | Inr m \<Rightarrow> dom m = {''h''} \<and> m ''h'' = Some ''h/2''"
proof -
  let ?o = "good_options\<lparr>o_sourceAPIs := [''h/1'', ''h/2'']\<rparr> :: string options"
  obtain m where m: "buildRemoteConfigs (\<lambda>u k. Inr u) (\<lambda>u. u) (takeWhile (\<lambda>c. c \<noteq> CHR ''/''))
      (\<lambda>c. c) ?o = Inr m"
    by (simp add: buildRemoteConfigs_def)
  note c = remotes_keyed_by_host [OF m]
  have d: "dom m = {''h''}" using c [THEN conjunct1] by simp
  then obtain v where v: "m ''h'' = Some v" using domD [of "''h''" m] by blast
  have "v = ''h/2''"
    using c [THEN conjunct2, rule_format, of "[''h/1'']" "''h/2''"] v by simp
  then show ?thesis unfolding m sum.case using d v by blast
qed

definition good_url_lib :: "string url_lib" where
  "good_url_lib = \<lparr>url_Parse = Inr, url_String = (\<lambda>u. u), url_Host = (\<lambda>u. u)\<rparr>"

definition good_main_env :: "unit main_env" where
  "good_main_env = \<lparr>me_server = good_server, me_Listen = (\<lambda>_. None), me_order = (\<lambda>_. []),
     me_String = (\<lambda>_. [])\<rparr>"

definition quiet_actor_env :: actor_env where
  "quiet_actor_env = \<lparr>ae_manager = good_manager_env, ae_serverFails = [], ae_metricsFails = [],
     ae_closed = Errorf ''use of closed network connection'', ae_signal = False\<rparr>"

lemma good_main_setup:
  "\<exists>actors. main_setup good_environment good_main_env good_url_lib good_options = Grouped actors \<and>
     length actors = 6"
  by (simp add: main_setup_def o_complete_def good_environment_def good_options_def parse_selector_def
      choose_logger_def completeEmitter_def main_emitter_def main_reflector_def good_main_env_def
      good_url_lib_def good_server_def buildRemoteConfigs_def emitter_New_def Let_def emitter_actors_def)

text \<open>The actors of the emitter, over the informers of the completed options, and that of the
  reflector.\<close>

definition emitter_part ::
  "'cfg environment \<Rightarrow> 'url options \<Rightarrow> 'cfg completed \<Rightarrow> main_actor list \<Rightarrow> bool" where
  "emitter_part e opt k ea =
     (if o_runEmitter opt
      then \<exists>se es em. ea = [RunInformer se, RunInformer es, RunServer em] \<and>
        se = \<lparr>di_resource = SeGVR, di_namespace = o_namespace opt, di_selector = e_String e (k_emitterSelector k)\<rparr> \<and>
        es = \<lparr>di_resource = EsGVR, di_namespace = o_namespace opt, di_selector = e_String e (k_emitterSelector k)\<rparr> \<and>
        em_handlers em = [(se, ServiceExportStorage se), (es, EndpointSliceStorage es se)]
      else ea = [])"

definition reflector_part ::
  "'cfg environment \<Rightarrow> 'cfg main_env \<Rightarrow> 'url url_lib \<Rightarrow> 'url options \<Rightarrow> 'cfg completed \<Rightarrow> main_actor list \<Rightarrow> bool" where
  "reflector_part e me ul opt k ra =
     (if o_runReflector opt
      then \<exists>m mo. buildRemoteConfigs (e_Config e) (url_String ul) (url_Host ul) (me_String me) opt = Inr m \<and>
        ra = [RunManager mo] \<and> mo_ClusterID mo = o_clusterID opt \<and> mo_Namespace mo = o_namespace opt \<and>
        mo_Remotes mo = me_order me m \<and> mo_Selector mo = e_String e (k_reflectorSelector k)
      else ra = [])"

lemma main_emitter_part:
  assumes "o_complete e opt = ([], k)" "main_emitter sv opt k = Inr ea"
  shows "emitter_part e opt k ea"
proof (cases "o_runEmitter opt")
  case True
  then obtain c where c: "k_apiserver k = Some c" "completeEmitter e opt (k_emitterSelector k) = Inr c"
    using complete_emitter [OF assms(1)] by blast
  then obtain em where em: "emitter_New sv c = (None, em)" "ea = emitter_actors c em"
    using assms(2) True by (auto simp: main_emitter_def split: option.splits prod.splits)
  show ?thesis
    using c(2) emitter_New_groups [OF em(1)] True
    by (auto simp: emitter_part_def em(2) emitter_actors_def completeEmitter_def cfg_Complete_def Let_def
        split: option.splits)
qed (use assms(2) in \<open>simp add: emitter_part_def main_emitter_def\<close>)

lemma main_reflector_part:
  "main_reflector e me ul opt k = Inr ra \<Longrightarrow> reflector_part e me ul opt k ra"
  by (auto simp: main_reflector_def reflector_part_def split: sum.splits if_splits)

text \<open>\<open>Main\<close>: when it gets to run its actors, the options were complete; with the emitter on these
  are the informers of exports and of slices, both restricted to the namespace and to the selector of
  the emitter, and the server of the two storages; with the reflector on the manager, with the
  cluster ID, the namespace and the remotes of the command line; and always the metrics server and
  the signal handler. \<open>--version\<close> wins over all of it.\<close>

theorem main_runs_actors:
  "(o_printVersion opt \<longrightarrow> main_setup e me ul opt = PrintedVersion) \<and>
   (\<forall>actors. main_setup e me ul opt = Grouped actors \<longrightarrow>
      (\<exists>k ea ra. o_complete e opt = ([], k) \<and> actors = ea @ ra @ [ServeMetrics (o_listen opt), WaitSignals] \<and>
        emitter_part e opt k ea \<and> reflector_part e me ul opt k ra))"
proof -
  have "\<exists>k ea ra. o_complete e opt = ([], k) \<and> actors = ea @ ra @ [ServeMetrics (o_listen opt), WaitSignals] \<and>
      emitter_part e opt k ea \<and> reflector_part e me ul opt k ra"
    if "main_setup e me ul opt = Grouped actors" for actors
    using main_setup_Grouped [OF that] main_emitter_part main_reflector_part by metis
  then show ?thesis by (simp add: main_setup_def)
qed


theorem main_runs_actors_witness:
  "\<exists>actors. main_setup good_environment good_main_env good_url_lib good_options = Grouped actors \<and>
     RunInformer \<lparr>di_resource = EsGVR, di_namespace = [], di_selector = []\<rparr> \<in> set actors"
proof -
  obtain actors where g: "main_setup good_environment good_main_env good_url_lib good_options = Grouped actors"
    using good_main_setup by blast
  have "o_runEmitter (good_options :: string options)" by (simp add: good_options_def)
  with main_runs_actors [THEN conjunct2, rule_format, OF g] obtain k where
    "RunInformer \<lparr>di_resource = EsGVR, di_namespace = o_namespace (good_options :: string options),
       di_selector = e_String good_environment (k_emitterSelector (k :: unit completed))\<rparr> \<in> set actors"
    unfolding emitter_part_def by (metis UnCI list.set_intros set_append)
  then show ?thesis using g by (simp add: good_options_def good_environment_def)
qed

text \<open>C32. With the reflector on the process never keeps running: whatever the surroundings do, the group of
  actors that \<open>Main\<close> runs comes to its end within three steps for each actor and three more, because
  \<open>Start\<close> returns by itself; all actors have returned then, and unless a signal came the process
  fails, with status 1.\<close>

theorem main_reflector_exits:
  assumes g: "main_setup e me ul opt = Grouped actors" and refl: "o_runReflector opt"
    and run: "group_run (length actors) (actor_may ae actors) ls st"
  shows "length ls \<le> 3 * length actors + 3 \<and>
    ((\<exists>r. gs_phase st = Returned r) \<or>
     (\<exists>l st'. group_step (length actors) (actor_may ae actors) st l st')) \<and>
    (\<forall>r. gs_phase st = Returned r \<longrightarrow>
       gs_running st = {} \<and> (\<not> ae_signal ae \<longrightarrow> exit_status (Grouped actors) r = 1))"
proof -
  obtain k ea ra where r: "main_reflector e me ul opt k = Inr ra"
      "actors = ea @ ra @ [ServeMetrics (o_listen opt), WaitSignals]"
    using main_setup_Grouped [OF g] by blast
  obtain mo where mo: "ra = [RunManager mo]"
    using r(1) refl by (auto simp: main_reflector_def split: sum.splits)
  have n: "0 < length actors" by (simp add: r(2))
  have obey: "\<exists>e. actor_may ae actors i (length actors) e" for i
    using all_actors_obey [of ae "ea @ ra" "o_listen opt"] by (simp add: actor_may_def r(2))
  have "actors ! length ea = RunManager mo" by (simp add: r(2) mo nth_append)
  then have "\<exists>e. actor_may ae actors (length ea) 0 e"
    using manager_returns [of ae mo] by (auto simp: actor_may_def)
  moreover have "length ea < length actors" by (simp add: r(2))
  ultimately have one: "\<exists>i < length actors. \<exists>e. actor_may ae actors i 0 e" by blast
  have "exit_status (Grouped actors) e = 1" if "gs_phase st = Returned e" "\<not> ae_signal ae" for e
    using group_result(6) [OF run n that(1)] no_signal_error [OF that(2)]
    by (cases e) (auto simp: actor_may_def)
  then show ?thesis
    using group_run_length [OF run] group_progress [OF run obey] one group_result(2) [OF run n] by auto
qed

theorem main_reflector_exits_witness:
  "\<exists>actors. main_setup good_environment good_main_env good_url_lib good_options = Grouped actors \<and>
     (\<forall>ls st. group_run (length actors) (actor_may quiet_actor_env actors) ls st \<longrightarrow> length ls \<le> 21 \<and>
        ((\<exists>r. gs_phase st = Returned r) \<or>
         (\<exists>l st'. group_step (length actors) (actor_may quiet_actor_env actors) st l st')) \<and>
        (\<forall>r. gs_phase st = Returned r \<longrightarrow> exit_status (Grouped actors) r = 1))"
proof -
  obtain actors where g: "main_setup good_environment good_main_env good_url_lib good_options = Grouped actors"
    and n: "length actors = 6"
    using good_main_setup by blast
  have "\<not> ae_signal quiet_actor_env" by (simp add: quiet_actor_env_def)
  then show ?thesis
    using main_reflector_exits [OF g good_options_sel(4)] g n by fastforce
qed

end
