(* ===== verification/Api_Names.thy ===== *)
theory Api_Names
  imports Go_Strings
begin

text \<open>
  The names the API server admits, after
  \<open>vendor/k8s.io/apimachinery/pkg/api/validate/content\<close> (\<open>kube.go\<close>, \<open>dns.go\<close>): label keys, label values and
  DNS subdomains. A regular expression of the source is the predicate on the bytes it describes; a
  validation that returns a list of messages is true when the list is empty.
\<close>

section \<open>Character classes\<close>

definition is_lower :: "char \<Rightarrow> bool" where
  "is_lower c = (97 \<le> byte c \<and> byte c \<le> 122)"

definition is_upper :: "char \<Rightarrow> bool" where
  "is_upper c = (65 \<le> byte c \<and> byte c \<le> 90)"

definition labelKeyChar :: "char \<Rightarrow> bool" where
  "labelKeyChar c = (is_upper c \<or> is_lower c \<or> is_digit c)"

definition labelKeyExtChar :: "char \<Rightarrow> bool" where
  "labelKeyExtChar c = (labelKeyChar c \<or> c \<in> {CHR ''-'', CHR ''_'', CHR ''.''})"

definition dnsChar :: "char \<Rightarrow> bool" where
  "dnsChar c = (is_lower c \<or> is_digit c)"

definition dnsExtChar :: "char \<Rightarrow> bool" where
  "dnsExtChar c = (dnsChar c \<or> c = CHR ''-'')"

section \<open>Formats\<close>

text \<open>A word whose first and last byte are of the class \<open>P\<close> and whose other bytes are of the class
  \<open>Q\<close>: both expressions have this form, \<open>(P Q*)?P\<close> and \<open>P(Q*P)?\<close>.\<close>

definition bounded_word :: "(char \<Rightarrow> bool) \<Rightarrow> (char \<Rightarrow> bool) \<Rightarrow> string \<Rightarrow> bool" where
  "bounded_word P Q s = (s \<noteq> [] \<and> P (hd s) \<and> P (last s) \<and> list_all Q s)"

definition labelKeyFmt :: "string \<Rightarrow> bool" where
  "labelKeyFmt = bounded_word labelKeyChar labelKeyExtChar"

definition labelValueFmt :: "string \<Rightarrow> bool" where
  "labelValueFmt v = (v = '''' \<or> labelKeyFmt v)"

definition dns1123LabelFmt :: "string \<Rightarrow> bool" where
  "dns1123LabelFmt = bounded_word dnsChar dnsExtChar"

text \<open>Labels joined by dots.\<close>

definition dns1123SubdomainFmt :: "string \<Rightarrow> bool" where
  "dns1123SubdomainFmt s = list_all dns1123LabelFmt (split_on CHR ''.'' s)"

section \<open>Validation\<close>

definition IsDNS1123Subdomain :: "string \<Rightarrow> bool" where
  "IsDNS1123Subdomain s = (length s \<le> 253 \<and> dns1123SubdomainFmt s)"

definition IsLabelKey :: "string \<Rightarrow> bool" where
  "IsLabelKey k =
     (case split_on CHR ''/'' k of
        [name] \<Rightarrow> name \<noteq> '''' \<and> length name \<le> 63 \<and> labelKeyFmt name
      | [prefix, name] \<Rightarrow>
          prefix \<noteq> '''' \<and> IsDNS1123Subdomain prefix \<and> name \<noteq> '''' \<and> length name \<le> 63 \<and> labelKeyFmt name
      | _ \<Rightarrow> False)"

definition IsLabelValue :: "string \<Rightarrow> bool" where
  "IsLabelValue v = (length v \<le> 63 \<and> labelValueFmt v)"

section \<open>Which bytes they hold\<close>

lemma bounded_word_all: "bounded_word P Q s \<Longrightarrow> c \<in> set s \<Longrightarrow> Q c"
  by (auto simp: bounded_word_def list_all_iff)

lemma labelKeyFmt_chars: "labelKeyFmt s \<Longrightarrow> c \<in> set s \<Longrightarrow> labelKeyExtChar c"
  unfolding labelKeyFmt_def by (rule bounded_word_all)

lemma IsLabelValue_chars: "IsLabelValue v \<Longrightarrow> c \<in> set v \<Longrightarrow> labelKeyExtChar c"
  by (auto simp: IsLabelValue_def labelValueFmt_def labelKeyFmt_chars)

lemma split_on_chars:
  assumes "c \<in> set s" "c \<noteq> sep"
  shows "\<exists>p \<in> set (split_on sep s). c \<in> set p"
  using assms
proof (induction s)
  case (Cons a s)
  obtain p ps where "split_on sep s = p # ps" by (cases "split_on sep s") auto
  with Cons show ?case by fastforce
qed simp

lemma dns_label_key_char: "dnsExtChar c \<Longrightarrow> labelKeyExtChar c"
  by (auto simp: dnsExtChar_def dnsChar_def labelKeyExtChar_def labelKeyChar_def)

lemma subdomain_chars:
  assumes "IsDNS1123Subdomain s" "c \<in> set s"
  shows "dnsExtChar c \<or> c = CHR ''.''"
proof (cases "c = CHR ''.''")
  case False
  from split_on_chars [OF assms(2) this] assms(1) show ?thesis
    using bounded_word_all unfolding IsDNS1123Subdomain_def dns1123SubdomainFmt_def dns1123LabelFmt_def list_all_iff
    by blast
qed simp

lemma subdomain_key_chars: "IsDNS1123Subdomain s \<Longrightarrow> c \<in> set s \<Longrightarrow> labelKeyExtChar c"
  using subdomain_chars [of s c] dns_label_key_char [of c] by (auto simp: labelKeyExtChar_def)

lemma IsLabelKey_chars:
  assumes "IsLabelKey k" "c \<in> set k"
  shows "labelKeyExtChar c \<or> c = CHR ''/''"
proof (cases "c = CHR ''/''")
  case False
  from split_on_chars [OF assms(2) this] obtain p where
    p: "p \<in> set (split_on CHR ''/'' k)" "c \<in> set p" by blast
  with assms(1) have "labelKeyFmt p \<or> IsDNS1123Subdomain p"
    by (auto simp: IsLabelKey_def split: list.splits)
  then show ?thesis
    using labelKeyFmt_chars [OF _ p(2)] subdomain_key_chars [OF _ p(2)] by blast
qed simp

lemma IsLabelKey_not_empty: "IsLabelKey k \<Longrightarrow> k \<noteq> ''''"
  by (auto simp: IsLabelKey_def labelKeyFmt_def)

section \<open>Joining and cutting subdomains\<close>

lemma split_on_concat:
  "split_on sep (a @ b) = butlast (split_on sep a) @ [last (split_on sep a) @ hd (split_on sep b)] @ tl (split_on sep b)"
proof (induction a)
  case Nil
  show ?case by (cases "split_on sep b") simp_all
next
  case (Cons c a)
  obtain p ps where "split_on sep a = p # ps" by (cases "split_on sep a") auto
  with Cons show ?case by (cases ps) auto
qed

lemma dns_label_no_dot: "dns1123LabelFmt s \<Longrightarrow> CHR ''.'' \<notin> set s"
  using bounded_word_all [of dnsChar dnsExtChar s "CHR ''.''"]
  by (auto simp: dns1123LabelFmt_def dnsExtChar_def dnsChar_def is_lower_def is_digit_def byte_def)

lemma subdomain_label: "dns1123LabelFmt s \<Longrightarrow> dns1123SubdomainFmt s"
  by (simp add: dns1123SubdomainFmt_def split_on_single dns_label_no_dot)

lemma subdomain_not_empty: "dns1123SubdomainFmt s \<Longrightarrow> s \<noteq> ''''"
  by (auto simp: dns1123SubdomainFmt_def dns1123LabelFmt_def bounded_word_def)

text \<open>Two subdomains joined by a dash are one.\<close>

lemma dash_not_dot [simp]: "split_on (CHR ''.'') ''-'' = [''-'']" "dnsExtChar (CHR ''-'')"
  by (simp_all add: dnsExtChar_def)

lemma labels_dash: "dns1123LabelFmt a \<Longrightarrow> dns1123LabelFmt b \<Longrightarrow> dns1123LabelFmt (a @ ''-'' @ b)"
  by (auto simp: dns1123LabelFmt_def bounded_word_def)

lemma list_all_ends:
  "xs \<noteq> [] \<Longrightarrow> list_all P xs \<longleftrightarrow> list_all P (butlast xs) \<and> P (last xs)"
  "xs \<noteq> [] \<Longrightarrow> list_all P xs \<longleftrightarrow> P (hd xs) \<and> list_all P (tl xs)"
  by (cases xs rule: rev_cases; simp) (cases xs; simp)

lemma subdomain_dash:
  assumes "dns1123SubdomainFmt a" "dns1123SubdomainFmt b"
  shows "dns1123SubdomainFmt (a @ ''-'' @ b)"
proof -
  have "split_on (CHR ''.'') (''-'' @ b) = (CHR ''-'' # hd (split_on (CHR ''.'') b)) # tl (split_on (CHR ''.'') b)"
    by (simp only: split_on_concat [of _ "''-''"]) simp
  then show ?thesis
    using assms list_all_ends(1) [OF split_on_not_empty, of dns1123LabelFmt "CHR ''.''" a]
      list_all_ends(2) [OF split_on_not_empty, of dns1123LabelFmt "CHR ''.''" b] labels_dash
    by (simp add: dns1123SubdomainFmt_def split_on_concat)
qed

text \<open>What is cut off a subdomain is one exactly when it ends in a letter or a digit.\<close>

lemma subdomain_last:
  assumes "dns1123SubdomainFmt s"
  shows "dnsChar (last s)"
proof -
  obtain t c where s: "s = t @ [c]" using subdomain_not_empty [OF assms] by (cases s rule: rev_cases) auto
  have "dns1123LabelFmt (last (split_on (CHR ''.'') t) @ [c])" if "c \<noteq> CHR ''.''"
    using assms that by (simp add: dns1123SubdomainFmt_def s split_on_concat)
  moreover have "\<not> dns1123LabelFmt []" by (simp add: dns1123LabelFmt_def bounded_word_def)
  then have "c \<noteq> CHR ''.''" using assms by (auto simp: dns1123SubdomainFmt_def s split_on_concat)
  ultimately show ?thesis by (simp add: dns1123LabelFmt_def bounded_word_def s)
qed

lemma subdomain_prefix:
  assumes "dns1123SubdomainFmt (p @ q)" "p \<noteq> ''''" "dnsChar (last p)"
  shows "dns1123SubdomainFmt p"
proof -
  let ?P = "split_on (CHR ''.'') p" and ?Q = "split_on (CHR ''.'') q"
  have all: "list_all dns1123LabelFmt (butlast ?P)" "dns1123LabelFmt (last ?P @ hd ?Q)"
    using assms(1) by (simp_all add: dns1123SubdomainFmt_def split_on_concat)
  obtain t c where p: "p = t @ [c]" using assms(2) by (cases p rule: rev_cases) auto
  have c: "c \<noteq> CHR ''.''" using assms(3) by (auto simp: p dnsChar_def is_lower_def is_digit_def byte_def)
  then have "last ?P = last (split_on (CHR ''.'') t) @ [c]" by (simp add: p split_on_concat)
  then have "dns1123LabelFmt (last ?P)"
    using all(2) assms(3) p by (auto simp: dns1123LabelFmt_def bounded_word_def hd_append split: if_splits)
  then show ?thesis
    using all(1) list_all_ends(1) [OF split_on_not_empty] by (simp add: dns1123SubdomainFmt_def)
qed

lemma subdomain_take:
  assumes "dns1123SubdomainFmt s" "0 < n"
  shows "dns1123SubdomainFmt (take n s) \<longleftrightarrow> dnsChar (last (take n s))"
  using subdomain_last [of "take n s"] subdomain_prefix [of "take n s" "drop n s"] subdomain_not_empty [OF assms(1)] assms
  by auto

text \<open>A subdomain of at most 63 bytes is a label value.\<close>

lemma subdomain_hd: "dns1123SubdomainFmt s \<Longrightarrow> dnsChar (hd s)"
proof -
  assume s: "dns1123SubdomainFmt s"
  then obtain c t where c: "s = c # t" using subdomain_not_empty by (cases s) auto
  obtain p ps where "split_on (CHR ''.'') t = p # ps" by (cases "split_on (CHR ''.'') t") auto
  then show ?thesis using s by (auto simp: dns1123SubdomainFmt_def c dns1123LabelFmt_def bounded_word_def split: if_splits)
qed

lemma subdomain_label_value: "IsDNS1123Subdomain s \<Longrightarrow> length s \<le> 63 \<Longrightarrow> IsLabelValue s"
  using subdomain_hd [of s] subdomain_last [of s] subdomain_not_empty [of s] subdomain_key_chars [of s]
  by (auto simp: IsLabelValue_def labelValueFmt_def labelKeyFmt_def bounded_word_def IsDNS1123Subdomain_def
      list_all_iff labelKeyChar_def dnsChar_def)

end
