(* ===== verification/Selector_Syntax.thy ===== *)
theory Selector_Syntax
  imports Selectors Api_Names "HOL-Library.Char_ord" "HOL-Library.List_Lexorder"
begin

text \<open>
  The text of a label selector, after \<open>vendor/k8s.io/apimachinery/pkg/labels/selector.go\<close>: the lexer
  and the recursive descent parser behind \<open>labels.Parse\<close>, \<open>NewRequirement\<close>, and \<open>String\<close>.
  The reflector parses its flag, prints the result into every request, and the emitter parses it
  again, so what matters is that printing loses nothing.
  The lexer holds the rest of its input, the parser the rest of the scanned items. Reading an item
  beyond the last would panic; the model has that outcome (\<open>SelPanic\<close>) and it is proved not to occur.
\<close>

section \<open>Lexer\<close>

datatype token =
  ErrorToken | EndOfStringToken | ClosedParToken | CommaToken | DoesNotExistToken | DoubleEqualsToken
| EqualsToken | GreaterThanToken | IdentifierToken | InToken | LessThanToken | NotEqualsToken
| NotInToken | OpenParToken

definition string2token :: "string \<rightharpoonup> token" where
  "string2token =
     ['')'' \<mapsto> ClosedParToken, '','' \<mapsto> CommaToken, ''!'' \<mapsto> DoesNotExistToken, ''=='' \<mapsto> DoubleEqualsToken,
      ''='' \<mapsto> EqualsToken, ''>'' \<mapsto> GreaterThanToken, ''in'' \<mapsto> InToken, ''<'' \<mapsto> LessThanToken,
      ''!='' \<mapsto> NotEqualsToken, ''notin'' \<mapsto> NotInToken, ''('' \<mapsto> OpenParToken]"

type_synonym scanned_item = "token \<times> string"

definition isWhitespace :: "char \<Rightarrow> bool" where
  "isWhitespace c = (c = CHR '' '' \<or> c = CHR 0x09 \<or> c = CHR 0x0D \<or> c = CHR 0x0A)"

definition isSpecialSymbol :: "char \<Rightarrow> bool" where
  "isSpecialSymbol c =
     (c = CHR ''='' \<or> c = CHR ''!'' \<or> c = CHR ''('' \<or> c = CHR '')'' \<or> c = CHR '','' \<or> c = CHR ''>'' \<or>
      c = CHR ''<'')"

text \<open>\<open>read\<close> gives the byte 0 at the end of the input, so a byte 0 in the input reads as its end, but
  the lexer goes on behind it. The buffer is the first component, the rest of the input the last.\<close>

definition quoted :: "string \<Rightarrow> string" where
  "quoted s = CHR 0x27 # s @ [CHR 0x27]"

abbreviation nul :: char where "nul \<equiv> CHR 0x00"

fun scan_word :: "string \<Rightarrow> string \<Rightarrow> string \<times> string" where
  "scan_word buf [] = (buf, [])"
| "scan_word buf (c # cs) =
     (if c = nul then (buf, cs)
      else if isSpecialSymbol c \<or> isWhitespace c then (buf, c # cs)
      else scan_word (buf @ [c]) cs)"

definition scanIDOrKeyword :: "string \<Rightarrow> scanned_item \<times> string" where
  "scanIDOrKeyword l =
     (case scan_word [] l of
        (s, l1) \<Rightarrow>
          (case string2token s of Some t \<Rightarrow> ((t, s), l1) | None \<Rightarrow> ((IdentifierToken, s), l1)))"

fun scan_symbols :: "scanned_item \<Rightarrow> string \<Rightarrow> string \<Rightarrow> scanned_item \<times> string \<times> string" where
  "scan_symbols item buf [] = (item, buf, [])"
| "scan_symbols item buf (c # cs) =
     (if c = nul then (item, buf, cs)
      else if isSpecialSymbol c
      then (case string2token (buf @ [c]) of
              Some t \<Rightarrow> scan_symbols (t, buf @ [c]) (buf @ [c]) cs
            | None \<Rightarrow>
                if fst item \<noteq> ErrorToken then (item, buf @ [c], c # cs)
                else scan_symbols item (buf @ [c]) cs)
      else (item, buf, c # cs))"

definition scanSpecialSymbol :: "string \<Rightarrow> scanned_item \<times> string" where
  "scanSpecialSymbol l =
     (case scan_symbols (ErrorToken, '''') [] l of
        (item, buf, l1) \<Rightarrow>
          if fst item = ErrorToken
          then ((ErrorToken, ''error expected: keyword found '' @ quoted buf), l1)
          else (item, l1))"

definition Lex :: "string \<Rightarrow> scanned_item \<times> string" where
  "Lex l =
     (case dropWhile isWhitespace l of
        [] \<Rightarrow> ((EndOfStringToken, ''''), [])
      | c # cs \<Rightarrow>
          if c = nul then ((EndOfStringToken, ''''), cs)
          else if isSpecialSymbol c then scanSpecialSymbol (c # cs)
          else scanIDOrKeyword (c # cs))"

text \<open>Every item but the last takes at least one byte, so \<open>scan\<close> ends.\<close>

lemma scan_word_length: "scan_word buf l = (s, l1) \<Longrightarrow> length l1 \<le> length l"
  by (induction buf l rule: scan_word.induct) (auto split: if_splits)

lemma scan_symbols_length: "scan_symbols item buf l = (i, b, l1) \<Longrightarrow> length l1 \<le> length l"
  by (induction item buf l rule: scan_symbols.induct) (auto split: if_splits option.splits)

lemma scanIDOrKeyword_length:
  "scanIDOrKeyword (c # cs) = (item, l1) \<Longrightarrow> \<not> isSpecialSymbol c \<Longrightarrow> \<not> isWhitespace c \<Longrightarrow> c \<noteq> nul \<Longrightarrow>
   length l1 \<le> length cs"
  by (auto simp: scanIDOrKeyword_def split: prod.splits option.splits dest!: scan_word_length)

lemma special_token: "isSpecialSymbol c \<Longrightarrow> \<exists>t. string2token [c] = Some t \<and> t \<noteq> ErrorToken \<and> t \<noteq> EndOfStringToken"
  by (auto simp: isSpecialSymbol_def string2token_def)

lemma special_not_nul [simp]: "isSpecialSymbol c \<Longrightarrow> c \<noteq> nul"
  by (auto simp: isSpecialSymbol_def)

lemma scanSpecialSymbol_length:
  assumes "scanSpecialSymbol (c # cs) = (item, l1)" "isSpecialSymbol c"
  shows "length l1 \<le> length cs"
proof -
  obtain t where t: "string2token [c] = Some t" using special_token [OF assms(2)] by blast
  show ?thesis
    using assms t by (auto simp: scanSpecialSymbol_def split: prod.splits if_splits dest!: scan_symbols_length)
qed

lemma Lex_length:
  assumes "Lex l = ((tok, lit), l1)" "tok \<noteq> EndOfStringToken"
  shows "length l1 < length l"
proof -
  obtain c cs where d: "dropWhile isWhitespace l = c # cs"
    using assms by (cases "dropWhile isWhitespace l") (auto simp: Lex_def)
  then have "\<not> isWhitespace c" using hd_dropWhile [of isWhitespace l] by simp
  with assms d have "length l1 \<le> length cs"
    by (auto simp: Lex_def split: if_splits dest: scanSpecialSymbol_length scanIDOrKeyword_length)
  also have "length cs < length l"
    using length_dropWhile_le [of isWhitespace l] d by simp
  finally show ?thesis .
qed

function scan :: "string \<Rightarrow> scanned_item list" where
  "scan l =
     (case Lex l of
        ((tok, lit), l1) \<Rightarrow> (tok, lit) # (if tok = EndOfStringToken then [] else scan l1))"
  by pat_completeness auto
termination by (relation "measure length") (auto simp: Lex_length dest!: sym [of _ "Lex _"])

declare scan.simps [simp del]

section \<open>Parser\<close>

datatype sel_error =
  SelFound string string
| SelBadKey string
| SelBadRequirement string sel_operator "string list"
| SelUnparsable sel_error

datatype 'a parsed = SelPanic | SelErr sel_error | SelOk 'a "scanned_item list"

definition then_parse :: "'a parsed \<Rightarrow> ('a \<Rightarrow> scanned_item list \<Rightarrow> 'b parsed) \<Rightarrow> 'b parsed" where
  "then_parse p f = (case p of SelPanic \<Rightarrow> SelPanic | SelErr e \<Rightarrow> SelErr e | SelOk x items \<Rightarrow> f x items)"

lemma then_parse_simps [simp]:
  "then_parse SelPanic f = SelPanic" "then_parse (SelErr e) f = SelErr e" "then_parse (SelOk x is) f = f x is"
  by (simp_all add: then_parse_def)

datatype parser_context = KeyAndOperator | Values

definition in_context :: "parser_context \<Rightarrow> token \<Rightarrow> token" where
  "in_context ctx tok =
     (if ctx = Values \<and> (tok = InToken \<or> tok = NotInToken) then IdentifierToken else tok)"

fun lookahead :: "parser_context \<Rightarrow> scanned_item list \<Rightarrow> scanned_item parsed" where
  "lookahead ctx [] = SelPanic"
| "lookahead ctx ((tok, lit) # items) = SelOk (in_context ctx tok, lit) ((tok, lit) # items)"

fun consume :: "parser_context \<Rightarrow> scanned_item list \<Rightarrow> scanned_item parsed" where
  "consume ctx [] = SelPanic"
| "consume ctx ((tok, lit) # items) = SelOk (in_context ctx tok, lit) items"

text \<open>A \<open>sets.String\<close> as the list of its elements; \<open>List\<close> sorts them bytewise.\<close>

definition sets_List :: "string list \<Rightarrow> string list" where
  "sets_List s = sorted_list_of_set (set s)"

definition value_count_ok :: "sel_operator \<Rightarrow> string list \<Rightarrow> bool" where
  "value_count_ok op vals =
     (case op of
        OpIn \<Rightarrow> vals \<noteq> [] | OpNotIn \<Rightarrow> vals \<noteq> []
      | OpEquals \<Rightarrow> length vals = 1 | OpDoubleEquals \<Rightarrow> length vals = 1 | OpNotEquals \<Rightarrow> length vals = 1
      | OpExists \<Rightarrow> vals = [] | OpDoesNotExist \<Rightarrow> vals = []
      | OpGreaterThan \<Rightarrow> length vals = 1 \<and> list_all (\<lambda>v. ParseInt v \<noteq> None) vals
      | OpLessThan \<Rightarrow> length vals = 1 \<and> list_all (\<lambda>v. ParseInt v \<noteq> None) vals
      | OpOther _ \<Rightarrow> False)"

definition NewRequirement :: "string \<Rightarrow> sel_operator \<Rightarrow> string list \<Rightarrow> sel_error + requirement" where
  "NewRequirement key op vals =
     (if IsLabelKey key \<and> value_count_ok op vals \<and> list_all IsLabelValue vals
      then Inr \<lparr>r_key = key, r_operator = op, r_strValues = vals\<rparr>
      else Inl (SelBadRequirement key op vals))"

definition lift_requirement :: "sel_error + requirement \<Rightarrow> scanned_item list \<Rightarrow> requirement parsed" where
  "lift_requirement r items = (case r of Inl e \<Rightarrow> SelErr e | Inr r \<Rightarrow> SelOk r items)"

text \<open>The operator is \<open>None\<close> where the source has the empty string.\<close>

definition parseKeyAndInferOperator :: "scanned_item list \<Rightarrow> (string \<times> sel_operator option) parsed" where
  "parseKeyAndInferOperator items =
     then_parse (consume Values items) (\<lambda>(tok, lit) items1.
       then_parse
         (if tok = DoesNotExistToken
          then then_parse (consume Values items1) (\<lambda>(tok2, lit2). SelOk (Some OpDoesNotExist, tok2, lit2))
          else SelOk (None, tok, lit) items1)
         (\<lambda>(operator, tok, lit) items2.
            if tok \<noteq> IdentifierToken then SelErr (SelFound lit ''identifier'')
            else if \<not> IsLabelKey lit then SelErr (SelBadKey lit)
            else then_parse (lookahead Values items2) (\<lambda>(t, _).
              SelOk (lit,
                if (t = EndOfStringToken \<or> t = CommaToken) \<and> operator \<noteq> Some OpDoesNotExist
                then Some OpExists else operator))))"

definition binaryOperators :: string where
  "binaryOperators = strings_Join [''in'', ''notin'', ''='', ''=='', ''!='', ''gt'', ''lt''] '', ''"

definition parseOperator :: "scanned_item list \<Rightarrow> sel_operator parsed" where
  "parseOperator items =
     then_parse (consume KeyAndOperator items) (\<lambda>(tok, lit) items1.
       (case tok of
          InToken \<Rightarrow> SelOk OpIn items1
        | EqualsToken \<Rightarrow> SelOk OpEquals items1
        | DoubleEqualsToken \<Rightarrow> SelOk OpDoubleEquals items1
        | GreaterThanToken \<Rightarrow> SelOk OpGreaterThan items1
        | LessThanToken \<Rightarrow> SelOk OpLessThan items1
        | NotInToken \<Rightarrow> SelOk OpNotIn items1
        | NotEqualsToken \<Rightarrow> SelOk OpNotEquals items1
        | _ \<Rightarrow> SelErr (SelFound lit binaryOperators)))"

fun parseIdentifiersList :: "string list \<Rightarrow> scanned_item list \<Rightarrow> string list parsed" where
  "parseIdentifiersList s [] = SelPanic"
| "parseIdentifiersList s ((tok, lit) # items) =
     (case in_context Values tok of
        IdentifierToken \<Rightarrow>
          then_parse (lookahead Values items) (\<lambda>(tok2, lit2) _.
            if tok2 = CommaToken then parseIdentifiersList (List.insert lit s) items
            else if tok2 = ClosedParToken then SelOk (List.insert lit s) items
            else SelErr (SelFound lit2 (quoted '','' @ '' or '' @ quoted '')'')))
      | CommaToken \<Rightarrow>
          (let s1 = (if s = [] then List.insert '''' s else s)
           in then_parse (lookahead Values items) (\<lambda>(tok2, _) _.
                if tok2 = ClosedParToken then SelOk (List.insert '''' s1) items
                else parseIdentifiersList (if tok2 = CommaToken then List.insert '''' s1 else s1) items))
      | _ \<Rightarrow> SelErr (SelFound lit (quoted '','' @ '', or identifier'')))"

definition parseValues :: "scanned_item list \<Rightarrow> string list parsed" where
  "parseValues items =
     then_parse (consume Values items) (\<lambda>(tok, lit) items1.
       if tok \<noteq> OpenParToken then SelErr (SelFound lit (quoted ''(''))
       else then_parse (lookahead Values items1) (\<lambda>(tok, lit) _.
         if tok = IdentifierToken \<or> tok = CommaToken
         then then_parse (parseIdentifiersList [] items1) (\<lambda>s items2.
                then_parse (consume Values items2) (\<lambda>(tok3, _) items3.
                  if tok3 \<noteq> ClosedParToken then SelErr (SelFound lit (quoted '')'')) else SelOk s items3))
         else if tok = ClosedParToken
         then then_parse (consume Values items1) (\<lambda>_. SelOk [''''])
         else SelErr (SelFound lit (quoted '','' @ '', '' @ quoted '')'' @ '' or identifier''))))"

definition parseExactValue :: "scanned_item list \<Rightarrow> string list parsed" where
  "parseExactValue items =
     then_parse (lookahead Values items) (\<lambda>(tok, _) _.
       if tok = EndOfStringToken \<or> tok = CommaToken then SelOk [''''] items
       else then_parse (consume Values items) (\<lambda>(tok, lit) items1.
         if tok = IdentifierToken then SelOk [lit] items1 else SelErr (SelFound lit ''identifier'')))"

definition parseRequirement :: "scanned_item list \<Rightarrow> requirement parsed" where
  "parseRequirement items =
     then_parse (parseKeyAndInferOperator items) (\<lambda>(key, operator) items1.
       if operator = Some OpExists \<or> operator = Some OpDoesNotExist
       then lift_requirement (NewRequirement key (the operator) []) items1
       else then_parse (parseOperator items1) (\<lambda>op items2.
         then_parse
           (if op = OpIn \<or> op = OpNotIn then parseValues items2 else parseExactValue items2)
           (\<lambda>values. lift_requirement (NewRequirement key op (sets_List values)))))"

text \<open>How much a parser leaves: at most \<open>n\<close> items. A requirement takes one at least, so the loop of
  \<open>parse\<close> ends.\<close>

definition within :: "nat \<Rightarrow> 'a parsed \<Rightarrow> bool" where
  "within n p = (case p of SelOk _ items \<Rightarrow> length items \<le> n | _ \<Rightarrow> True)"

lemma within_simps [simp]:
  "within n SelPanic" "within n (SelErr e)" "within n (SelOk x items) \<longleftrightarrow> length items \<le> n"
  by (simp_all add: within_def)

lemma within_then:
  "within m p \<Longrightarrow> (\<And>x items. length items \<le> m \<Longrightarrow> within n (f x items)) \<Longrightarrow> within n (then_parse p f)"
  by (cases p) auto

lemma within_mono: "within m p \<Longrightarrow> m \<le> n \<Longrightarrow> within n p"
  by (cases p) auto

lemma within_lookahead: "within (length items) (lookahead ctx items)"
  by (cases items) auto

lemma within_consume: "within (length items - 1) (consume ctx items)"
  by (cases items) auto

lemma within_lift [simp]: "within n (lift_requirement r items) \<longleftrightarrow> (\<forall>x. r = Inr x \<longrightarrow> length items \<le> n)"
  by (cases r) (auto simp: lift_requirement_def)

lemma within_ids: "within (length items) (parseIdentifiersList s items)"
proof (induction items arbitrary: s)
  case (Cons item items)
  obtain tok lit where "item = (tok, lit)" by (cases item)
  then show ?case
    using within_mono [OF Cons.IH, of "Suc (length items)"]
    by (auto simp: Let_def split: token.split intro!: within_then [OF within_lookahead])
qed simp

lemma within_key: "within (length items - 1) (parseKeyAndInferOperator items)"
  unfolding parseKeyAndInferOperator_def
  by (auto intro!: within_then [OF within_consume] within_then [OF within_lookahead]
      within_then [where m = "length items - 1"])

lemma within_operator: "within (length items) (parseOperator items)"
  unfolding parseOperator_def
  by (rule within_then [OF within_consume]) (auto split: token.split)

lemma within_values: "within (length items) (parseValues items)"
  unfolding parseValues_def
  by (auto intro!: within_then [OF within_consume] within_then [OF within_lookahead] within_then [OF within_ids];
      linarith)

lemma within_exact: "within (length items) (parseExactValue items)"
  unfolding parseExactValue_def
  by (auto intro!: within_then [OF within_consume] within_then [OF within_lookahead]; linarith)

lemma within_requirement: "within (length items - 1) (parseRequirement items)"
  unfolding parseRequirement_def
  by (auto intro!: within_then [OF within_key] within_then [OF within_operator] within_then [OF within_values]
      within_then [OF within_exact])

lemma loop_shrinks:
  assumes "parseRequirement items = SelOk r items1" "consume ctx items1 = SelOk x items2"
  shows "length items2 < length items"
proof -
  have "items \<noteq> []" using assms(1) by (auto simp: parseRequirement_def parseKeyAndInferOperator_def)
  then show ?thesis
    using within_requirement [of items] within_consume [of items1 ctx] assms by (cases items) auto
qed

function parse_loop :: "requirement list \<Rightarrow> scanned_item list \<Rightarrow> requirement list parsed" where
  "parse_loop requirements items =
     (case lookahead Values items of
        SelPanic \<Rightarrow> SelPanic
      | SelErr e \<Rightarrow> SelErr e
      | SelOk (tok, lit) _ \<Rightarrow>
          if tok = IdentifierToken \<or> tok = DoesNotExistToken
          then
            (case parseRequirement items of
               SelPanic \<Rightarrow> SelPanic
             | SelErr e \<Rightarrow> SelErr (SelUnparsable e)
             | SelOk r items1 \<Rightarrow>
                 (case consume Values items1 of
                    SelPanic \<Rightarrow> SelPanic
                  | SelErr e \<Rightarrow> SelErr e
                  | SelOk (t, l) items2 \<Rightarrow>
                      if t = EndOfStringToken then SelOk (requirements @ [r]) items2
                      else if t = CommaToken
                      then
                        (case lookahead Values items2 of
                           SelPanic \<Rightarrow> SelPanic
                         | SelErr e \<Rightarrow> SelErr e
                         | SelOk (t2, l2) _ \<Rightarrow>
                             if t2 \<noteq> IdentifierToken \<and> t2 \<noteq> DoesNotExistToken
                             then SelErr (SelFound l2 (''identifier after '' @ quoted '',''))
                             else parse_loop (requirements @ [r]) items2)
                      else SelErr (SelFound l (quoted '','' @ '' or '' @ quoted ''end of string''))))
          else if tok = EndOfStringToken then SelOk requirements items
          else SelErr (SelFound lit (''!, identifier, or '' @ quoted ''end of string'')))"
  by pat_completeness auto
termination
  by (relation "measure (length \<circ> snd)") (auto dest: loop_shrinks)

declare parse_loop.simps [simp del]

text \<open>\<open>Parse\<close>: the requirements are sorted by key at the end, by a sort that is not stable (\<open>srt\<close>).
  The texts of the errors are left to the argument \<open>text\<close>.\<close>

definition parse_items :: "string \<Rightarrow> requirement list parsed" where
  "parse_items selector = parse_loop [] (scan selector)"

definition labels_Parse ::
  "(sel_error \<Rightarrow> string) \<Rightarrow> (requirement list \<Rightarrow> requirement list) \<Rightarrow> string \<Rightarrow> go_error + label_selector" where
  "labels_Parse text srt selector =
     (case parse_items selector of
        SelPanic \<Rightarrow> Inl (Errorf ''panic'')
      | SelErr e \<Rightarrow> Inl (Errorf (text e))
      | SelOk rs _ \<Rightarrow> Inr (InternalSelector (srt rs)))"

section \<open>Printing\<close>

definition operator_text :: "sel_operator \<Rightarrow> string" where
  "operator_text op =
     (case op of
        OpEquals \<Rightarrow> ''='' | OpDoubleEquals \<Rightarrow> ''=='' | OpNotEquals \<Rightarrow> ''!='' | OpIn \<Rightarrow> '' in ''
      | OpNotIn \<Rightarrow> '' notin '' | OpGreaterThan \<Rightarrow> ''>'' | OpLessThan \<Rightarrow> ''<'' | _ \<Rightarrow> '''')"

definition safeSort :: "string list \<Rightarrow> string list" where
  "safeSort ss = (if sorted ss then ss else sort ss)"

definition req_String :: "requirement \<Rightarrow> string" where
  "req_String r =
     (let start = (if r_operator r = OpDoesNotExist then ''!'' else '''') @ r_key r;
          vals = (case r_strValues r of [v] \<Rightarrow> v | vs \<Rightarrow> strings_Join (safeSort vs) '','')
      in if r_operator r = OpExists \<or> r_operator r = OpDoesNotExist then start
         else if r_operator r = OpIn \<or> r_operator r = OpNotIn
         then start @ operator_text (r_operator r) @ ''('' @ vals @ '')''
         else start @ operator_text (r_operator r) @ vals)"

definition sel_String :: "label_selector \<Rightarrow> string" where
  "sel_String sel =
     (case sel of
        InternalSelector rs \<Rightarrow> strings_Join (map req_String rs) '',''
      | NothingSelector \<Rightarrow> '''')"

section \<open>Parsing never reads beyond the items\<close>

definition ended :: "scanned_item list \<Rightarrow> bool" where
  "ended items = (items \<noteq> [] \<and> fst (last items) = EndOfStringToken)"

definition safe :: "'a parsed \<Rightarrow> bool" where
  "safe p = (case p of SelPanic \<Rightarrow> False | SelErr _ \<Rightarrow> True | SelOk _ items \<Rightarrow> ended items)"

lemma safe_simps [simp]: "\<not> safe SelPanic" "safe (SelErr e)" "safe (SelOk x items) \<longleftrightarrow> ended items"
  by (simp_all add: safe_def)

lemma ended_Cons [simp]: "ended ((tok, lit) # items) \<longleftrightarrow> (if items = [] then tok = EndOfStringToken else ended items)"
  by (simp add: ended_def)

lemma ended_not_empty [simp]: "\<not> ended []"
  by (simp add: ended_def)

lemma in_context_end [simp]: "in_context ctx tok = EndOfStringToken \<longleftrightarrow> tok = EndOfStringToken"
  by (auto simp: in_context_def)

lemma scan_ended: "ended (scan l)"
proof (induction "length l" arbitrary: l rule: less_induct)
  case less
  obtain tok lit l1 where lex: "Lex l = ((tok, lit), l1)" by (metis prod.collapse)
  then have "tok \<noteq> EndOfStringToken \<Longrightarrow> ended (scan l1)" using less Lex_length by blast
  with lex show ?case by (subst scan.simps) auto
qed

text \<open>A step that is safe after one item was looked at, or taken.\<close>

lemma safe_lookahead:
  "ended items \<Longrightarrow> (\<And>tok lit. safe (f (tok, lit) items)) \<Longrightarrow> safe (then_parse (lookahead ctx items) f)"
  by (cases items) auto

lemma safe_lookahead_known:
  "ended items \<Longrightarrow>
   (\<And>tok lit rest. items = (tok, lit) # rest \<Longrightarrow> safe (f (in_context ctx tok, lit) items)) \<Longrightarrow>
   safe (then_parse (lookahead ctx items) f)"
  by (cases items) auto

lemma safe_consume:
  assumes "ended items"
    and "\<And>tok lit rest. tok \<noteq> EndOfStringToken \<Longrightarrow> ended rest \<Longrightarrow> safe (f (tok, lit) rest)"
    and "\<And>lit rest. safe (f (EndOfStringToken, lit) rest)"
  shows "safe (then_parse (consume ctx items) f)"
proof (cases items)
  case (Cons item rest)
  obtain tok lit where item: "item = (tok, lit)" by (cases item)
  show ?thesis
  proof (cases "tok = EndOfStringToken")
    case True
    then show ?thesis using assms(3) Cons item by (simp add: in_context_def)
  next
    case False
    then have "ended rest" using assms(1) Cons item by (auto split: if_splits)
    then show ?thesis using assms(2) [of "in_context ctx tok"] False Cons item by simp
  qed
qed (use assms(1) in simp)

lemma safe_then: "safe p \<Longrightarrow> (\<And>x items. ended items \<Longrightarrow> safe (f x items)) \<Longrightarrow> safe (then_parse p f)"
  by (cases p) auto

lemma safe_lift [simp]: "ended items \<Longrightarrow> safe (lift_requirement r items)"
  by (simp add: lift_requirement_def split: sum.split)

lemma safe_ids: "ended items \<Longrightarrow> safe (parseIdentifiersList s items)"
proof (induction items arbitrary: s)
  case (Cons item items)
  obtain tok lit where item: "item = (tok, lit)" by (cases item)
  show ?case
  proof (cases "tok = EndOfStringToken")
    case False
    then have "ended items" using Cons.prems item by (auto split: if_splits)
    with Cons.IH show ?thesis
      by (auto simp: item Let_def split: token.split intro!: safe_lookahead)
  qed (simp add: item in_context_def)
qed simp

lemma then_parse_assoc:
  "then_parse (then_parse p f) g = then_parse p (\<lambda>x items. then_parse (f x items) g)"
  by (cases p) simp_all

lemma safe_key: "ended items \<Longrightarrow> safe (parseKeyAndInferOperator items)"
  unfolding parseKeyAndInferOperator_def
  by (rule safe_consume) (auto simp: then_parse_assoc intro!: safe_consume safe_lookahead)

lemma safe_operator: "ended items \<Longrightarrow> safe (parseOperator items)"
  unfolding parseOperator_def by (rule safe_consume) (auto split: token.split)

lemma safe_values: "ended items \<Longrightarrow> safe (parseValues items)"
  unfolding parseValues_def
  by (rule safe_consume)
     (auto intro!: safe_lookahead_known safe_consume safe_then [OF safe_ids] simp: in_context_def
      simp del: parseIdentifiersList.simps split: if_splits)

lemma safe_exact: "ended items \<Longrightarrow> safe (parseExactValue items)"
  unfolding parseExactValue_def by (rule safe_lookahead) (auto intro!: safe_consume)

lemma safe_requirement: "ended items \<Longrightarrow> safe (parseRequirement items)"
  unfolding parseRequirement_def
  by (auto intro!: safe_then [OF safe_key] safe_then [OF safe_operator] safe_then [OF safe_values]
      safe_then [OF safe_exact])

lemma parse_loop_safe: "ended items \<Longrightarrow> parse_loop rs items \<noteq> SelPanic"
proof (induction "length items" arbitrary: rs items rule: less_induct)
  case less
  obtain tok lit where la: "lookahead Values items = SelOk (tok, lit) items" using less(2) by (cases items) auto
  have "safe (parseRequirement items)" by (rule safe_requirement [OF less(2)])
  then show ?case
  proof (cases "parseRequirement items")
    case (SelOk r items1)
    with safe_requirement [OF less(2)] obtain t l items2 where
      items1: "items1 = (t, l) # items2" "t = EndOfStringToken \<or> ended items2"
      by (cases items1) (auto split: if_splits)
    from items1(2) show ?thesis
    proof
      assume e: "ended items2"
      have "length items2 < length items" using loop_shrinks [OF SelOk] items1(1) by (simp add: exI)
      then have "parse_loop (rs @ [r]) items2 \<noteq> SelPanic" using less(1) e by blast
      moreover obtain t2 l2 rest2 where "items2 = (t2, l2) # rest2" using e by (cases items2) auto
      ultimately show ?thesis by (subst parse_loop.simps) (simp add: la SelOk items1(1))
    qed (subst parse_loop.simps, simp add: la SelOk items1(1))
  qed (subst parse_loop.simps, simp add: la)+
qed

text \<open>Every requirement that is parsed has passed \<open>NewRequirement\<close>, and its values are in order.\<close>

definition wf_requirement :: "requirement \<Rightarrow> bool" where
  "wf_requirement r =
     (NewRequirement (r_key r) (r_operator r) (r_strValues r) = Inr r \<and>
      sorted (r_strValues r) \<and> distinct (r_strValues r))"

lemma NewRequirement_wf:
  "NewRequirement key op vals = Inr r \<Longrightarrow> sorted vals \<Longrightarrow> distinct vals \<Longrightarrow> wf_requirement r"
  by (auto simp: wf_requirement_def NewRequirement_def split: if_splits)

lemma sets_List_facts [simp]: "sorted (sets_List s)" "distinct (sets_List s)"
  by (simp_all add: sets_List_def)

lemma lift_requirement_wf:
  "lift_requirement (NewRequirement key op (sets_List vals)) items = SelOk r items1 \<Longrightarrow> wf_requirement r"
  "lift_requirement (NewRequirement key op []) items = SelOk r items1 \<Longrightarrow> wf_requirement r"
  by (auto simp: lift_requirement_def NewRequirement_wf split: sum.splits)

lemma parseRequirement_wf: "parseRequirement items = SelOk r items1 \<Longrightarrow> wf_requirement r"
  unfolding parseRequirement_def
  by (auto simp: then_parse_def split: parsed.splits if_splits
      dest: lift_requirement_wf)

lemma parse_loop_wf:
  "parse_loop rs items = SelOk rs1 items1 \<Longrightarrow> list_all wf_requirement rs \<Longrightarrow> list_all wf_requirement rs1"
proof (induction "length items" arbitrary: rs items rule: less_induct)
  case less
  show ?case
  proof (cases "parseRequirement items")
    case (SelOk r items2)
    have wf: "list_all wf_requirement (rs @ [r])" using parseRequirement_wf [OF SelOk] less(3) by simp
    show ?thesis
      using less(2,3) wf less(1) [OF loop_shrinks [OF SelOk] _ wf]
      by (subst (asm) parse_loop.simps) (auto simp: SelOk split: parsed.splits if_splits)
  qed (use less(2,3) in \<open>subst (asm) parse_loop.simps, simp split: parsed.splits prod.splits if_splits\<close>)+
qed

lemma parse_items_ok: "parse_items s \<noteq> SelPanic" "parse_items s = SelOk rs items \<Longrightarrow> list_all wf_requirement rs"
  unfolding parse_items_def using parse_loop_safe [OF scan_ended] parse_loop_wf by auto

section \<open>Scanning what was printed\<close>

text \<open>Bytes of keys and values: neither special symbols nor white space nor the byte 0.\<close>

definition wordChar :: "char \<Rightarrow> bool" where
  "wordChar c = (\<not> isSpecialSymbol c \<and> \<not> isWhitespace c \<and> c \<noteq> nul)"

definition token_of_word :: "string \<Rightarrow> scanned_item" where
  "token_of_word s = (case string2token s of Some t \<Rightarrow> (t, s) | None \<Rightarrow> (IdentifierToken, s))"

lemma wordChar_label: "labelKeyExtChar c \<or> c = CHR ''/'' \<Longrightarrow> wordChar c"
  by (auto simp: labelKeyExtChar_def labelKeyChar_def is_upper_def is_lower_def is_digit_def wordChar_def
      isSpecialSymbol_def isWhitespace_def byte_def)

lemma word_key: "IsLabelKey k \<Longrightarrow> list_all wordChar k"
  using IsLabelKey_chars wordChar_label by (auto simp: list_all_iff)

lemma word_value: "IsLabelValue v \<Longrightarrow> list_all wordChar v"
  using IsLabelValue_chars wordChar_label by (auto simp: list_all_iff)

text \<open>What may follow a word: nothing, a special symbol or white space.\<close>

definition breaks :: "string \<Rightarrow> bool" where
  "breaks l = (case l of [] \<Rightarrow> True | c # _ \<Rightarrow> isSpecialSymbol c \<or> isWhitespace c)"

lemma breaks_simps [simp]: "breaks []" "breaks (c # l) \<longleftrightarrow> isSpecialSymbol c \<or> isWhitespace c"
  by (simp_all add: breaks_def)

lemma nul_plain [simp]: "\<not> isSpecialSymbol nul" "\<not> isWhitespace nul"
  by (simp_all add: isSpecialSymbol_def isWhitespace_def)

lemma scan_word_append:
  "list_all wordChar w \<Longrightarrow> breaks l \<Longrightarrow> scan_word buf (w @ l) = (buf @ w, l)"
proof (induction w arbitrary: buf)
  case Nil
  then show ?case by (cases l) auto
qed (simp add: wordChar_def)

lemma scan_append_word:
  assumes "list_all wordChar w" "w \<noteq> []" "breaks l"
  shows "scan (w @ l) = token_of_word w # scan l"
proof -
  obtain c w1 where w: "w = c # w1" using assms(2) by (cases w) auto
  then have c: "\<not> isSpecialSymbol c" "\<not> isWhitespace c" "c \<noteq> nul" using assms(1) by (auto simp: wordChar_def)
  have "Lex (w @ l) = (token_of_word w, l)"
    using c scan_word_append [OF assms(1,3), of "[]"]
    by (simp add: Lex_def w scanIDOrKeyword_def token_of_word_def split: option.split)
  moreover have "fst (token_of_word w) \<noteq> EndOfStringToken"
    by (auto simp: token_of_word_def string2token_def split: option.split if_splits)
  ultimately show ?thesis by (subst scan.simps) (cases "token_of_word w", simp)
qed

lemma Lex_white: "isWhitespace c \<Longrightarrow> Lex (c # l) = Lex l"
  by (simp add: Lex_def)

lemma scan_white: "isWhitespace c \<Longrightarrow> scan (c # l) = scan l"
  by (subst (1 2) scan.simps) (simp add: Lex_white)

text \<open>A special symbol is an item of its own unless it makes a longer one with the next byte.\<close>

lemma scan_special:
  assumes "string2token s = Some t" "s = [c] \<or> s = [c, d] \<and> string2token [c] \<noteq> None \<and> isSpecialSymbol d"
    and "isSpecialSymbol c" "l = [] \<or> hd l \<noteq> nul \<and> string2token (s @ [hd l]) = None"
  shows "scan (s @ l) = (t, s) # scan l"
proof -
  have t: "t \<noteq> ErrorToken" "t \<noteq> EndOfStringToken"
    using assms(1) by (auto simp: string2token_def split: if_splits)
  have "scan_symbols (t, s) s l = ((t, s), if l \<noteq> [] \<and> isSpecialSymbol (hd l) then s @ [hd l] else s, l)"
    using assms(4) t by (cases l) auto
  then have "scanSpecialSymbol (s @ l) = ((t, s), l)"
    using assms(1-3) t by (auto simp: scanSpecialSymbol_def)
  moreover have "\<not> isWhitespace c" using assms(3) by (auto simp: isSpecialSymbol_def isWhitespace_def)
  ultimately have "Lex (s @ l) = ((t, s), l)" using assms(2,3) by (auto simp: Lex_def)
  then show ?thesis using t by (subst scan.simps) simp
qed

text \<open>The items of a printed requirement. The empty value has none.\<close>

definition word_items :: "string \<Rightarrow> scanned_item list" where
  "word_items v = (if v = '''' then [] else [token_of_word v])"

fun value_items :: "string list \<Rightarrow> scanned_item list" where
  "value_items [] = []"
| "value_items [v] = word_items v"
| "value_items (v # w # vs) = word_items v @ (CommaToken, '','') # value_items (w # vs)"

definition operator_item :: "sel_operator \<Rightarrow> scanned_item" where
  "operator_item op =
     (case op of
        OpEquals \<Rightarrow> (EqualsToken, ''='') | OpDoubleEquals \<Rightarrow> (DoubleEqualsToken, ''=='')
      | OpNotEquals \<Rightarrow> (NotEqualsToken, ''!='') | OpIn \<Rightarrow> (InToken, ''in'') | OpNotIn \<Rightarrow> (NotInToken, ''notin'')
      | OpGreaterThan \<Rightarrow> (GreaterThanToken, ''>'') | _ \<Rightarrow> (LessThanToken, ''<''))"

definition req_items :: "requirement \<Rightarrow> scanned_item list" where
  "req_items r =
     (let op = r_operator r; key = token_of_word (r_key r)
      in if op = OpExists then [key]
         else if op = OpDoesNotExist then [(DoesNotExistToken, ''!''), key]
         else if op = OpIn \<or> op = OpNotIn
         then [key, operator_item op, (OpenParToken, ''('')] @ value_items (r_strValues r) @
           [(ClosedParToken, '')'')]
         else [key, operator_item op] @ value_items (r_strValues r))"

fun reqs_items :: "requirement list \<Rightarrow> scanned_item list" where
  "reqs_items [] = []"
| "reqs_items [r] = req_items r"
| "reqs_items (r # s # rs) = req_items r @ (CommaToken, '','') # reqs_items (s # rs)"

text \<open>What may follow a value or a requirement.\<close>

definition stops :: "string \<Rightarrow> bool" where
  "stops l = (l = [] \<or> hd l = CHR '','' \<or> hd l = CHR '')'')"

lemma stops_breaks: "stops l \<Longrightarrow> breaks l"
  by (cases l) (auto simp: stops_def isSpecialSymbol_def)

lemma stops_simps [simp]: "stops []" "stops (CHR '','' # l)" "stops (CHR '')'' # l)"
  by (simp_all add: stops_def)

lemma string2token_cases:
  "string2token w = Some t \<Longrightarrow> t = InToken \<or> t = NotInToken \<or> w \<noteq> [] \<and> isSpecialSymbol (hd w)"
  by (auto simp: string2token_def isSpecialSymbol_def split: if_splits)

lemma word_token:
  assumes "list_all wordChar w"
  shows "\<exists>t. token_of_word w = (t, w) \<and> in_context Values t = IdentifierToken"
proof (cases "string2token w")
  case (Some t)
  then have "t = InToken \<or> t = NotInToken"
    using string2token_cases [OF Some] assms by (cases w) (auto simp: wordChar_def)
  with Some show ?thesis by (auto simp: token_of_word_def in_context_def)
qed (simp add: token_of_word_def in_context_def)

lemma value_start:
  assumes "IsLabelValue v" "stops l"
  shows "v @ l = [] \<or> hd (v @ l) \<noteq> nul \<and> hd (v @ l) \<noteq> CHR ''='' \<and> hd (v @ l) \<noteq> CHR ''!''"
  using word_value [OF assms(1)] assms(2)
  by (cases v) (auto simp: wordChar_def isSpecialSymbol_def stops_def)

lemma scan_value: "IsLabelValue v \<Longrightarrow> stops l \<Longrightarrow> scan (v @ l) = word_items v @ scan l"
  using scan_append_word [OF word_value _ stops_breaks] by (auto simp: word_items_def)

lemma token_two [simp]: "string2token [c, d] =
    (if [c, d] = ''=='' then Some DoubleEqualsToken else if [c, d] = ''in'' then Some InToken
     else if [c, d] = ''!='' then Some NotEqualsToken else None)"
  by (auto simp: string2token_def)

lemma scan_single:
  assumes "string2token [c] = Some t" "isSpecialSymbol c" "l = [] \<or> hd l \<noteq> nul \<and> hd l \<noteq> CHR ''=''"
  shows "scan (c # l) = (t, [c]) # scan l"
proof -
  have "c \<noteq> CHR ''i''" using assms(2) by (auto simp: isSpecialSymbol_def)
  then show ?thesis using scan_special [of "[c]" t c _ l] assms by auto
qed

lemma scan_values:
  "list_all IsLabelValue vs \<Longrightarrow> stops l \<Longrightarrow> scan (strings_Join vs '','' @ l) = value_items vs @ scan l"
proof (induction vs rule: value_items.induct)
  case (3 v w vs)
  have "strings_Join (w # vs) '','' @ l = [] \<or> hd (strings_Join (w # vs) '','' @ l) \<noteq> nul \<and>
      hd (strings_Join (w # vs) '','' @ l) \<noteq> CHR ''=''"
    using value_start [of w "tl (strings_Join (w # vs) '','' @ l)"] value_start [of w l]
      value_start [of w "CHR '','' # strings_Join vs '','' @ l"] 3(2,3) by (cases vs) auto
  then have "scan ('','' @ strings_Join (w # vs) '','' @ l) = (CommaToken, '','') # scan (strings_Join (w # vs) '','' @ l)"
    using scan_single [of "CHR '',''" CommaToken] by (simp add: string2token_def isSpecialSymbol_def)
  then show ?case using 3 scan_value [of v "CHR '','' # strings_Join (w # vs) '','' @ l"] by simp
qed (simp_all add: scan_value)

text \<open>What a well-formed requirement holds.\<close>

lemma wf_requirementD:
  assumes "wf_requirement r"
  shows "IsLabelKey (r_key r)" "list_all IsLabelValue (r_strValues r)"
    "value_count_ok (r_operator r) (r_strValues r)"
    "safeSort (r_strValues r) = r_strValues r" "sets_List (r_strValues r) = r_strValues r"
  using assms
  by (auto simp: wf_requirement_def NewRequirement_def safeSort_def sets_List_def
      sorted_list_of_set.idem_if_sorted_distinct split: if_splits)

lemma scan_operator:
  assumes "op \<noteq> OpExists" "op \<noteq> OpDoesNotExist" "\<And>x. op \<noteq> OpOther x" "op \<noteq> OpIn" "op \<noteq> OpNotIn"
    and l: "l = [] \<or> hd l \<noteq> nul \<and> hd l \<noteq> CHR ''=''"
  shows "scan (operator_text op @ l) = operator_item op # scan l"
    and "breaks (operator_text op @ l)"
proof -
  note defs = operator_text_def operator_item_def string2token_def isSpecialSymbol_def
  show "scan (operator_text op @ l) = operator_item op # scan l"
    using assms scan_special [of "operator_text op" "fst (operator_item op)" "hd (operator_text op)" "CHR ''=''" l]
    by (cases op) (auto simp: defs)
  show "breaks (operator_text op @ l)" using assms by (cases op) (auto simp: defs)
qed

lemma white_space [simp]: "isWhitespace (CHR '' '')" "\<not> isWhitespace (CHR ''('')"
  by (simp_all add: isWhitespace_def)

lemma scan_set_operator:
  assumes "op = OpIn \<or> op = OpNotIn" "l = [] \<or> hd l \<noteq> nul \<and> hd l \<noteq> CHR ''=''"
  shows "scan (operator_text op @ ''('' @ l) = operator_item op # (OpenParToken, ''('') # scan l"
proof -
  have "scan ('' '' @ w @ '' '' @ ''('' @ l) = token_of_word w # (OpenParToken, ''('') # scan l"
    if "list_all wordChar w" "w \<noteq> []" for w
    using scan_append_word [OF that, of "CHR '' '' # CHR ''('' # l"] scan_single [of "CHR ''(''" OpenParToken l] assms(2)
    by (simp add: scan_white, simp add: string2token_def isSpecialSymbol_def)
  from this [of "''in''"] this [of "''notin''"] assms(1) show ?thesis
    by (auto simp: operator_text_def operator_item_def wordChar_def isSpecialSymbol_def isWhitespace_def
        token_of_word_def string2token_def)
qed

lemma values_start:
  assumes "list_all IsLabelValue vs" "stops l"
  shows "strings_Join vs '','' @ l = [] \<or> hd (strings_Join vs '','' @ l) \<noteq> nul \<and> hd (strings_Join vs '','' @ l) \<noteq> CHR ''=''"
proof (cases vs)
  case (Cons v ws)
  then show ?thesis
    using value_start [of v l] value_start [of v "CHR '','' # strings_Join ws '','' @ l"] assms
    by (cases ws) (auto simp: hd_append)
qed (use assms(2) in \<open>auto simp: stops_def\<close>)

lemma scan_req:
  assumes "wf_requirement r" "l = [] \<or> hd l = CHR '',''"
  shows "scan (req_String r @ l) = req_items r @ scan l"
proof -
  note wf = wf_requirementD [OF assms(1)]
  let ?op = "r_operator r" and ?k = "r_key r" and ?vs = "r_strValues r"
  have stops: "stops l" using assms(2) by (auto simp: stops_def)
  have key: "scan (?k @ m) = token_of_word ?k # scan m" if "breaks m" for m
    using scan_append_word [OF word_key [OF wf(1)] IsLabelKey_not_empty [OF wf(1)] that] .
  have vals: "(case ?vs of [v] \<Rightarrow> v | vs \<Rightarrow> strings_Join (safeSort vs) '','') = strings_Join ?vs '',''"
    using wf(4) by (auto split: list.split)
  consider "?op = OpExists" | "?op = OpDoesNotExist" | "?op = OpIn \<or> ?op = OpNotIn"
    | "?op \<notin> {OpExists, OpDoesNotExist, OpIn, OpNotIn}" by blast
  then show ?thesis
  proof cases
    case 1
    then show ?thesis using key [OF stops_breaks [OF stops]] by (simp add: req_String_def req_items_def)
  next
    case 2
    have "?k @ l \<noteq> [] \<and> hd (?k @ l) \<noteq> nul \<and> hd (?k @ l) \<noteq> CHR ''=''"
      using IsLabelKey_not_empty [OF wf(1)] word_key [OF wf(1)] by (cases ?k) (auto simp: wordChar_def isSpecialSymbol_def)
    then have "scan (CHR ''!'' # ?k @ l) = (DoesNotExistToken, ''!'') # scan (?k @ l)"
      by (intro scan_single) (auto simp: string2token_def isSpecialSymbol_def)
    then show ?thesis using 2 key [OF stops_breaks [OF stops]] by (simp add: req_String_def req_items_def)
  next
    case 3
    have "scan (CHR '')'' # l) = (ClosedParToken, '')'') # scan l"
      by (rule scan_single) (use assms(2) in \<open>auto simp: string2token_def isSpecialSymbol_def\<close>)
    moreover have "breaks (operator_text ?op @ m)" for m using 3 by (auto simp: operator_text_def)
    ultimately show ?thesis
      using 3 scan_values [OF wf(2), of "CHR '')'' # l"] scan_set_operator [OF 3 values_start [OF wf(2)], of "CHR '')'' # l"]
        key by (auto simp: req_String_def req_items_def vals Let_def)
  next
    case 4
    have "\<And>x. ?op \<noteq> OpOther x" using wf(3) by (auto simp: value_count_ok_def)
    with 4 show ?thesis
      using scan_operator [OF _ _ _ _ _ values_start [OF wf(2) stops]] scan_values [OF wf(2) stops] key
      by (simp add: req_String_def req_items_def vals Let_def)
  qed
qed

lemma req_start:
  assumes "wf_requirement r"
  shows "req_String r \<noteq> [] \<and> hd (req_String r) \<noteq> nul \<and> hd (req_String r) \<noteq> CHR ''=''"
  using IsLabelKey_not_empty [OF wf_requirementD(1) [OF assms]] word_key [OF wf_requirementD(1) [OF assms]]
  by (cases "r_key r") (auto simp: req_String_def Let_def wordChar_def isSpecialSymbol_def)

lemma scan_reqs:
  "list_all wf_requirement rs \<Longrightarrow>
   scan (strings_Join (map req_String rs) '','') = reqs_items rs @ [(EndOfStringToken, '''')]"
proof (induction rs rule: reqs_items.induct)
  case (2 r)
  then show ?case using scan_req [of r "[]"] by (simp add: scan.simps Lex_def)
next
  case (3 r s rs)
  let ?t = "strings_Join (map req_String (s # rs)) '',''"
  have "hd ?t \<noteq> nul \<and> hd ?t \<noteq> CHR ''=''"
    using req_start [of s] 3(2) by (cases rs) (auto simp: hd_append)
  then have "scan (CHR '','' # ?t) = (CommaToken, '','') # scan ?t"
    by (intro scan_single) (auto simp: string2token_def isSpecialSymbol_def)
  then show ?case using 3 scan_req [of r "CHR '','' # ?t"] by simp
qed (simp add: scan.simps Lex_def)

section \<open>Parsing what was printed\<close>

text \<open>After a requirement comes a comma or the end.\<close>

definition closes :: "scanned_item list \<Rightarrow> bool" where
  "closes items = (items \<noteq> [] \<and> fst (hd items) \<in> {CommaToken, EndOfStringToken})"

lemma closesE:
  assumes "closes items"
  obtains t l rest where "items = (t, l) # rest" "t = CommaToken \<or> t = EndOfStringToken"
  using assms by (cases items) (auto simp: closes_def)

lemma in_context_others [simp]:
  "in_context ctx CommaToken = CommaToken" "in_context ctx ClosedParToken = ClosedParToken"
  "in_context ctx OpenParToken = OpenParToken" "in_context ctx DoesNotExistToken = DoesNotExistToken"
  "in_context ctx EndOfStringToken = EndOfStringToken" "in_context KeyAndOperator tok = tok"
  by (simp_all add: in_context_def)

lemma parse_ids_words:
  "list_all (\<lambda>v. IsLabelValue v \<and> v \<noteq> '''') vs \<Longrightarrow> vs \<noteq> [] \<Longrightarrow>
   parseIdentifiersList s (value_items vs @ (ClosedParToken, lit) # rest) =
     SelOk (fold List.insert vs s) ((ClosedParToken, lit) # rest)"
proof (induction vs arbitrary: s rule: value_items.induct)
  case (2 v)
  then obtain t where "token_of_word v = (t, v)" "in_context Values t = IdentifierToken"
    using word_token [OF word_value, of v] by auto
  then show ?case using 2 by (simp add: word_items_def)
next
  case (3 v w vs)
  then obtain t where t: "token_of_word v = (t, v)" "in_context Values t = IdentifierToken"
    using word_token [OF word_value, of v] by auto
  obtain t2 l2 rest2 where w: "value_items (w # vs) @ (ClosedParToken, lit) # rest = (t2, l2) # rest2"
      "in_context Values t2 = IdentifierToken"
    using word_token [OF word_value, of w] 3(2) by (cases vs) (auto simp: word_items_def)
  have "List.insert v s \<noteq> []" by (auto simp: List.insert_def)
  then show ?case using 3 t w by (simp add: word_items_def)
qed simp

lemma sets_List_fold: "sets_List (fold List.insert vs s) = sorted_list_of_set (set vs \<union> set s)"
proof -
  have "set (fold List.insert vs s) = set vs \<union> set s" by (induction vs arbitrary: s) auto
  then show ?thesis by (simp add: sets_List_def)
qed

text \<open>Sorted, the empty value comes first.\<close>

lemma sorted_empty_first: "sorted (v # vs) \<Longrightarrow> distinct (v # vs) \<Longrightarrow> '''' \<notin> set vs"
  by (auto simp: less_eq_list_code)

lemma value_items_head:
  assumes "IsLabelValue w" "w \<noteq> ''''"
  shows "\<exists>t l rest. value_items (w # vs) @ items = (t, l) # rest \<and> in_context Values t = IdentifierToken"
  using word_token [OF word_value [OF assms(1)]] assms(2) by (cases vs) (auto simp: word_items_def)

lemma parse_set_values:
  assumes vs: "list_all IsLabelValue vs" "vs \<noteq> []" "sorted vs" "distinct vs"
  shows "\<exists>s. parseValues ((OpenParToken, ''('') # value_items vs @ (ClosedParToken, lit) # rest) = SelOk s rest \<and>
    sets_List s = vs"
proof -
  obtain v ws where v: "vs = v # ws" using vs(2) by (cases vs) auto
  have rest: "list_all (\<lambda>v. IsLabelValue v \<and> v \<noteq> '''') ws"
    using sorted_empty_first [of v ws] vs v by (auto simp: list_all_iff)
  have sorted: "sorted_list_of_set (set vs) = vs"
    using vs(3,4) by (rule sorted_list_of_set.idem_if_sorted_distinct)
  let ?tail = "(ClosedParToken, lit) # rest"
  have parse: "parseValues ((OpenParToken, ''('') # value_items vs @ ?tail) = SelOk s rest"
    if "parseIdentifiersList [] (value_items vs @ ?tail) = SelOk s ?tail"
      and "value_items vs @ ?tail = (t, l) # is" "in_context Values t \<in> {IdentifierToken, CommaToken}" for s t l "is"
    using that by (auto simp: parseValues_def simp del: parseIdentifiersList.simps)
  show ?thesis
  proof (cases "v = ''''")
    case False
    then have all: "list_all (\<lambda>v. IsLabelValue v \<and> v \<noteq> '''') vs" using vs(1) rest v by simp
    obtain t l "is" where h: "value_items vs @ ?tail = (t, l) # is" "in_context Values t = IdentifierToken"
      using value_items_head [of v ws ?tail] all v by auto
    show ?thesis
      using parse [OF parse_ids_words [OF all vs(2)] h(1)] h(2) sorted sets_List_fold [of vs "[]"] by auto
  next
    case True
    show ?thesis
    proof (cases ws)
      case Nil
      then show ?thesis by (simp add: v True word_items_def parseValues_def sets_List_def)
    next
      case (Cons w us)
      obtain t l "is" where h: "value_items ws @ ?tail = (t, l) # is" "in_context Values t = IdentifierToken"
        using value_items_head [of w us ?tail] rest Cons by auto
      have "parseIdentifiersList [] (value_items vs @ ?tail) = SelOk (fold List.insert ws ['''']) ?tail"
        using parse_ids_words [OF rest, of "['''']" lit rest] h Cons
        by (simp add: v True word_items_def List.insert_def)
      from parse [OF this] have "parseValues ((OpenParToken, ''('') # value_items vs @ ?tail) =
          SelOk (fold List.insert ws ['''']) rest"
        by (simp add: v True Cons word_items_def)
      then show ?thesis using sets_List_fold [of ws "['''']"] sorted by (auto simp: v True insert_commute)
    qed
  qed
qed

lemma parse_exact:
  assumes "IsLabelValue v" "closes rest"
  shows "parseExactValue (word_items v @ rest) = SelOk [v] rest"
  using assms(2) word_token [OF word_value [OF assms(1)]]
  by (elim closesE) (auto simp: parseExactValue_def word_items_def)

lemma parse_key:
  assumes "IsLabelKey k" "rest = (t, l) # items"
  shows "parseKeyAndInferOperator (token_of_word k # rest) =
      SelOk (k, if in_context Values t = EndOfStringToken \<or> in_context Values t = CommaToken then Some OpExists else None) rest"
    and "parseKeyAndInferOperator ((DoesNotExistToken, ''!'') # token_of_word k # rest) = SelOk (k, Some OpDoesNotExist) rest"
  using word_token [OF word_key [OF assms(1)]] assms
  by (auto simp: parseKeyAndInferOperator_def)

lemma parse_operator_item:
  "op \<notin> {OpExists, OpDoesNotExist} \<Longrightarrow> (\<And>x. op \<noteq> OpOther x) \<Longrightarrow> parseOperator (operator_item op # rest) = SelOk op rest"
  by (cases op) (auto simp: operator_item_def parseOperator_def)

lemma operator_item_context:
  "op \<notin> {OpExists, OpDoesNotExist} \<Longrightarrow> (\<And>x. op \<noteq> OpOther x) \<Longrightarrow>
   operator_item op = (t, l) \<Longrightarrow> in_context Values t \<notin> {EndOfStringToken, CommaToken}"
  by (cases op) (auto simp: operator_item_def in_context_def)

lemma parse_req:
  assumes wf: "wf_requirement r" and rest: "closes rest"
  shows "parseRequirement (req_items r @ rest) = SelOk r rest"
proof -
  note w = wf_requirementD [OF wf]
  let ?op = "r_operator r" and ?vs = "r_strValues r"
  have new: "lift_requirement (NewRequirement (r_key r) ?op ?vs) items = SelOk r items" for items
    using wf by (simp add: wf_requirement_def lift_requirement_def)
  have vs: "sorted ?vs" "distinct ?vs" using wf by (simp_all add: wf_requirement_def)
  have other: "\<And>x. ?op \<noteq> OpOther x" using w(3) by (auto simp: value_count_ok_def)
  obtain t l items where r: "rest = (t, l) # items" "t = CommaToken \<or> t = EndOfStringToken"
    using rest by (rule closesE)
  show ?thesis
  proof (cases "?op \<in> {OpExists, OpDoesNotExist}")
    case True
    then have "?vs = []" using w(3) by (auto simp: value_count_ok_def)
    then show ?thesis
      using True parse_key [OF w(1) r(1)] new r(2) by (auto simp: req_items_def parseRequirement_def)
  next
    case False
    obtain t1 l1 where o: "operator_item ?op = (t1, l1)" by (cases "operator_item ?op")
    note ctx = operator_item_context [OF False other o]
    note opr = parse_operator_item [OF False other]
    show ?thesis
    proof (cases "?op = OpIn \<or> ?op = OpNotIn")
      case True
      then have ne: "?vs \<noteq> []" using w(3) by (auto simp: value_count_ok_def)
      obtain s where s: "parseValues ((OpenParToken, ''('') # value_items ?vs @ (ClosedParToken, '')'') # rest) = SelOk s rest"
          "sets_List s = ?vs"
        using parse_set_values [OF w(2) ne vs] by blast
      show ?thesis
        using True False parse_key(1) [OF w(1), of _ t1 l1] ctx opr s new o
        by (auto simp: req_items_def parseRequirement_def Let_def)
    next
      case plain: False
      then obtain v where v: "?vs = [v]"
        using w(3) False other by (cases ?op) (auto simp: value_count_ok_def length_Suc_conv)
      have "sets_List [v] = [v]" using w(5) v by simp
      then show ?thesis
        using plain False parse_key(1) [OF w(1), of _ t1 l1] ctx opr parse_exact [OF _ rest, of v] w(2) new o v
        by (auto simp: req_items_def parseRequirement_def Let_def)
    qed
  qed
qed

lemma req_items_head:
  assumes "wf_requirement r"
  shows "\<exists>t l items. req_items r @ rest = (t, l) # items \<and> in_context Values t \<in> {IdentifierToken, DoesNotExistToken}"
  using word_token [OF word_key [OF wf_requirementD(1) [OF assms]]] by (auto simp: req_items_def Let_def)

lemma parse_reqs:
  "list_all wf_requirement rs \<Longrightarrow>
   \<exists>items. parse_loop acc (reqs_items rs @ [(EndOfStringToken, lit)]) = SelOk (acc @ rs) items"
proof (induction rs arbitrary: acc rule: reqs_items.induct)
  case 1
  show ?case by (subst parse_loop.simps) simp
next
  case (2 r)
  obtain t l items where h: "req_items r @ [(EndOfStringToken, lit)] = (t, l) # items"
      "in_context Values t \<in> {IdentifierToken, DoesNotExistToken}"
    using req_items_head [of r] 2 by fastforce
  then show ?case
    using parse_req [of r "[(EndOfStringToken, lit)]"] 2
    by (subst parse_loop.simps) (auto simp: closes_def)
next
  case (3 r s rs)
  let ?tail = "reqs_items (s # rs) @ [(EndOfStringToken, lit)]"
  obtain t l items where h: "req_items r @ (CommaToken, '','') # ?tail = (t, l) # items"
      "in_context Values t \<in> {IdentifierToken, DoesNotExistToken}"
    using req_items_head [of r] 3 by fastforce
  obtain t2 l2 items2 where h2: "?tail = (t2, l2) # items2"
      "in_context Values t2 \<in> {IdentifierToken, DoesNotExistToken}"
    using req_items_head [of s] 3(2) by (cases rs) fastforce+
  obtain items3 where "parse_loop (acc @ [r]) ?tail = SelOk ((acc @ [r]) @ s # rs) items3"
    using 3(1) [of "acc @ [r]"] 3(2) by auto
  then show ?case
    using parse_req [of r "(CommaToken, '','') # ?tail"] 3(2) h h2
    by (subst parse_loop.simps) (auto simp: closes_def)
qed

lemma parse_String:
  assumes "list_all wf_requirement rs"
  shows "\<exists>items. parse_items (sel_String (InternalSelector rs)) = SelOk rs items"
  using parse_reqs [OF assms, of "[]"] by (simp add: parse_items_def sel_String_def scan_reqs [OF assms])

section \<open>Properties\<close>

text \<open>C11. Printing a selector loses nothing: whatever \<open>Parse\<close> returns, \<open>String\<close> prints a text from which
  \<open>Parse\<close> reads the same requirements, sorted once more, so the selector read back matches the
  same labels; and it is the same selector where sorting twice is sorting once. The sort by key is only
  assumed to keep the requirements.\<close>

theorem selector_roundtrip:
  assumes parsed: "labels_Parse text srt s = Inr sel" and srt: "\<And>rs. set (srt rs) = set rs"
  shows "\<exists>rs. sel = InternalSelector rs \<and>
    labels_Parse text srt (sel_String sel) = Inr (InternalSelector (srt rs)) \<and>
    (\<forall>l. sel_Matches (InternalSelector (srt rs)) l = sel_Matches sel l)"
proof -
  obtain rs0 items where rs0: "parse_items s = SelOk rs0 items" "sel = InternalSelector (srt rs0)"
    using parsed by (auto simp: labels_Parse_def split: parsed.splits)
  have "list_all wf_requirement (srt rs0)"
    using parse_items_ok(2) [OF rs0(1)] srt by (simp add: list_all_iff)
  then show ?thesis
    using parse_String rs0(2) srt
    by (fastforce simp: labels_Parse_def sel_Matches_def reqs_Matches_all list_all_iff)
qed

text \<open>\<open>Parse\<close> ends without a panic on every input: it never asks for an item behind the last one, and
  every requirement it returns has passed the validation of \<open>NewRequirement\<close>, with its values sorted
  and none twice.\<close>

theorem parse_never_panics:
  "case parse_items s of
     SelPanic \<Rightarrow> False
   | SelErr _ \<Rightarrow> True
   | SelOk rs _ \<Rightarrow>
       list_all (\<lambda>r. NewRequirement (r_key r) (r_operator r) (r_strValues r) = Inr r \<and>
         sorted (r_strValues r) \<and> distinct (r_strValues r)) rs"
  using parse_items_ok [of s] by (cases "parse_items s") (auto simp: wf_requirement_def list_all_iff)

text \<open>Three selectors as an operator writes them: a set with an empty value, a key that is an operator, and
  one that is refused.\<close>

lemma parse_examples:
  "parse_items ''tier in (web,,db), !old'' =
     SelOk [\<lparr>r_key = ''tier'', r_operator = OpIn, r_strValues = ['''', ''db'', ''web'']\<rparr>,
       \<lparr>r_key = ''old'', r_operator = OpDoesNotExist, r_strValues = []\<rparr>] []"
  "parse_items ''in notin (in)'' = SelOk [\<lparr>r_key = ''in'', r_operator = OpNotIn, r_strValues = [''in'']\<rparr>] []"
  "parse_items ''a/b/c'' = SelErr (SelUnparsable (SelBadKey ''a/b/c''))"
  by code_simp+

theorem selector_roundtrip_witness:
  "labels_Parse (\<lambda>_. '''') id ''tier in (web,,db), !old'' =
     labels_Parse (\<lambda>_. '''') id (sel_String (InternalSelector
       [\<lparr>r_key = ''tier'', r_operator = OpIn, r_strValues = ['''', ''db'', ''web'']\<rparr>,
        \<lparr>r_key = ''old'', r_operator = OpDoesNotExist, r_strValues = []\<rparr>]))"
proof -
  let ?rs = "[\<lparr>r_key = ''tier'', r_operator = OpIn, r_strValues = ['''', ''db'', ''web'']\<rparr>,
    \<lparr>r_key = ''old'', r_operator = OpDoesNotExist, r_strValues = []\<rparr>]"
  have parsed: "labels_Parse (\<lambda>_. '''') id ''tier in (web,,db), !old'' = Inr (InternalSelector ?rs)"
    by (simp add: labels_Parse_def parse_examples)
  from selector_roundtrip [OF parsed] show ?thesis by (simp add: parsed)
qed

end
