(* ===== verification/Field_Syntax.thy ===== *)
theory Field_Syntax
  imports Selectors Json_Utf8 "HOL-Library.Char_ord" "HOL-Library.List_Lexorder" "HOL-Library.Multiset"
begin

text \<open>
  The text of a field selector, after \<open>vendor/k8s.io/apimachinery/pkg/fields/selector.go\<close>:
  \<open>ParseSelector\<close> with its two splitters, the escaping of values, \<open>Transform\<close> and \<open>String\<close>. The
  emitter decodes the field selector of every request with it.
  The source ranges over runes. The bytes it acts on are ASCII and occur in no longer rune, so the
  splitters go byte by byte; \<open>UnescapeValue\<close> copies runes, hence replaces bytes that are not UTF-8,
  and so goes over the sanitized string.
\<close>

section \<open>Escaping of values\<close>

abbreviation backslash :: char where "backslash \<equiv> CHR 0x5C"

definition is_field_special :: "char \<Rightarrow> bool" where
  "is_field_special c = (c = backslash \<or> c = CHR '','' \<or> c = CHR ''='')"

definition EscapeValue :: "string \<Rightarrow> string" where
  "EscapeValue s = concat (map (\<lambda>c. if is_field_special c then [backslash, c] else [c]) s)"

text \<open>The error of an escape names the whole rune behind the backslash.\<close>

definition InvalidEscapeSequence :: "string \<Rightarrow> go_error" where
  "InvalidEscapeSequence sequence = Errorf (''invalid field selector: invalid escape sequence: '' @ sequence)"

definition UnescapedRune :: "char \<Rightarrow> go_error" where
  "UnescapedRune c =
     Errorf (''invalid field selector: unescaped character in value: '' @ itoa (int (byte c)))"

fun unescape_from :: "bool \<Rightarrow> string \<Rightarrow> go_error + string" where
  "unescape_from inSlash [] = (if inSlash then Inl (InvalidEscapeSequence [backslash]) else Inr [])"
| "unescape_from inSlash (c # cs) =
     (if inSlash
      then if is_field_special c then map_sum id ((#) c) (unescape_from False cs)
           else Inl (InvalidEscapeSequence
             (backslash # (case rune_len (c # cs) of None \<Rightarrow> [c] | Some n \<Rightarrow> take n (c # cs))))
      else if c = backslash then unescape_from True cs
      else if c = CHR '','' \<or> c = CHR ''='' then Inl (UnescapedRune c)
      else map_sum id ((#) c) (unescape_from False cs))"

definition UnescapeValue :: "string \<Rightarrow> go_error + string" where
  "UnescapeValue s = (if \<not> list_ex is_field_special s then Inr s else unescape_from False (sanitize s))"

section \<open>Splitting\<close>

fun split_terms :: "bool \<Rightarrow> string \<Rightarrow> string \<Rightarrow> string list" where
  "split_terms inSlash t [] = [t]"
| "split_terms inSlash t (c # cs) =
     (if inSlash then split_terms False (t @ [c]) cs
      else if c = backslash then split_terms True (t @ [c]) cs
      else if c = CHR '','' then t # split_terms False [] cs
      else split_terms False (t @ [c]) cs)"

definition splitTerms :: "string \<Rightarrow> string list" where
  "splitTerms fieldSelector = (if fieldSelector = '''' then [] else split_terms False '''' fieldSelector)"

definition termOperators :: "string list" where
  "termOperators = [''!='', ''=='', ''='']"

definition prefix_operator :: "string \<Rightarrow> string option" where
  "prefix_operator remaining = List.find (\<lambda>op. take (length op) remaining = op) termOperators"

fun splitTerm :: "string \<Rightarrow> (string \<times> string \<times> string) option" where
  "splitTerm [] = None"
| "splitTerm (c # cs) =
     (case prefix_operator (c # cs) of
        Some op \<Rightarrow> Some ([], op, drop (length op) (c # cs))
      | None \<Rightarrow> (case splitTerm cs of None \<Rightarrow> None | Some (lhs, op, rhs) \<Rightarrow> Some (c # lhs, op, rhs)))"

section \<open>Transform\<close>

fun field_Empty :: "field_selector \<Rightarrow> bool" where
  "field_Empty (HasTerm f v) = False"
| "field_Empty (NotHasTerm f v) = False"
| "field_Empty (AndTerm ts) = list_all field_Empty ts"
| "field_Empty NothingField = False"

text \<open>\<open>hasTerm\<close> and \<open>notHasTerm\<close> have the same code, up to the constructor.\<close>

definition term_Transform ::
  "(string \<Rightarrow> string \<Rightarrow> go_error + string \<times> string) \<Rightarrow> (string \<Rightarrow> string \<Rightarrow> field_selector) \<Rightarrow> string \<Rightarrow> string \<Rightarrow>
   go_error + field_selector" where
  "term_Transform fn term f v =
     (case fn f v of
        Inl err \<Rightarrow> Inl err
      | Inr (field, value) \<Rightarrow> Inr (if field = '''' \<and> value = '''' then AndTerm [] else term field value))"

fun field_Transform ::
    "(string \<Rightarrow> string \<Rightarrow> go_error + string \<times> string) \<Rightarrow> field_selector \<Rightarrow> go_error + field_selector"
  and transform_terms ::
    "(string \<Rightarrow> string \<Rightarrow> go_error + string \<times> string) \<Rightarrow> field_selector list \<Rightarrow> go_error + field_selector list" where
  "field_Transform fn (HasTerm f v) = term_Transform fn HasTerm f v"
| "field_Transform fn (NotHasTerm f v) = term_Transform fn NotHasTerm f v"
| "field_Transform fn (AndTerm ts) =
     (case transform_terms fn ts of Inl err \<Rightarrow> Inl err | Inr next \<Rightarrow> Inr (AndTerm next))"
| "field_Transform fn NothingField = Inr NothingField"
| "transform_terms fn [] = Inr []"
| "transform_terms fn (s # ts) =
     (case field_Transform fn s of
        Inl err \<Rightarrow> Inl err
      | Inr n \<Rightarrow>
          (case transform_terms fn ts of
             Inl err \<Rightarrow> Inl err
           | Inr next \<Rightarrow> Inr (if \<not> field_Empty n then n # next else next)))"

section \<open>Parsing and printing\<close>

definition bad_term :: "string \<Rightarrow> string \<Rightarrow> go_error" where
  "bad_term selector part =
     Errorf (''invalid selector: '' @ [CHR 0x27] @ selector @ [CHR 0x27] @ ''; can'' @ [CHR 0x27] @
       ''t understand '' @ [CHR 0x27] @ part @ [CHR 0x27])"

definition parse_term :: "string \<Rightarrow> string \<Rightarrow> go_error + field_selector" where
  "parse_term selector part =
     (case splitTerm part of
        None \<Rightarrow> Inl (bad_term selector part)
      | Some (lhs, op, rhs) \<Rightarrow>
          (case UnescapeValue rhs of
             Inl err \<Rightarrow> Inl err
           | Inr unescapedRHS \<Rightarrow>
               if op = ''!='' then Inr (NotHasTerm lhs unescapedRHS)
               else if op = ''=='' then Inr (HasTerm lhs unescapedRHS)
               else if op = ''='' then Inr (HasTerm lhs unescapedRHS)
               else Inl (bad_term selector part)))"

fun parse_terms :: "string \<Rightarrow> string list \<Rightarrow> go_error + field_selector list" where
  "parse_terms selector [] = Inr []"
| "parse_terms selector (part # parts) =
     (if part = '''' then parse_terms selector parts
      else
        (case parse_term selector part of
           Inl err \<Rightarrow> Inl err
         | Inr item \<Rightarrow>
             (case parse_terms selector parts of Inl err \<Rightarrow> Inl err | Inr items \<Rightarrow> Inr (item # items))))"

definition parseSelector ::
  "string \<Rightarrow> (string \<Rightarrow> string \<Rightarrow> go_error + string \<times> string) \<Rightarrow> go_error + field_selector" where
  "parseSelector selector fn =
     (case parse_terms selector (sort (splitTerms selector)) of
        Inl err \<Rightarrow> Inl err
      | Inr [item] \<Rightarrow> field_Transform fn item
      | Inr items \<Rightarrow> field_Transform fn (AndTerm items))"

definition ParseSelector :: "string \<Rightarrow> go_error + field_selector" where
  "ParseSelector selector = parseSelector selector (\<lambda>lhs rhs. Inr (lhs, rhs))"

fun field_String :: "field_selector \<Rightarrow> string" where
  "field_String (HasTerm f v) = f @ ''='' @ EscapeValue v"
| "field_String (NotHasTerm f v) = f @ ''!='' @ EscapeValue v"
| "field_String (AndTerm ts) = strings_Join (map field_String ts) '',''"
| "field_String NothingField = ''''"

section \<open>Values survive escaping\<close>

lemma EscapeValue_simps [simp]:
  "EscapeValue [] = []"
  "EscapeValue (c # cs) = (if is_field_special c then [backslash, c] else [c]) @ EscapeValue cs"
  by (simp_all add: EscapeValue_def)

lemma EscapeValue_append: "EscapeValue (a @ b) = EscapeValue a @ EscapeValue b"
  by (simp add: EscapeValue_def)

lemma special_ascii: "is_field_special c \<Longrightarrow> byte c < 0x80"
  by (auto simp: is_field_special_def byte_def)

lemma special_backslash [simp]: "is_field_special backslash"
  by (simp add: is_field_special_def)

lemma EscapeValue_plain: "\<not> list_ex is_field_special v \<Longrightarrow> EscapeValue v = v"
  by (induction v) auto

lemma escaped_special: "list_ex is_field_special (EscapeValue v) \<longleftrightarrow> list_ex is_field_special v"
  by (induction v) auto

lemma unescape_Escape: "unescape_from False (EscapeValue v) = Inr v"
  by (induction v) (auto simp: is_field_special_def)

text \<open>The bytes of a rune that is not ASCII are not ASCII.\<close>

lemma starts_all: "starts ps s \<Longrightarrow> (\<And>p c. p \<in> set ps \<Longrightarrow> p c \<Longrightarrow> Q c) \<Longrightarrow> list_all Q (take (length ps) s)"
  by (induction ps s rule: starts.induct) auto

lemma rune_tail_high: "rune_tail b = Some ps \<Longrightarrow> p \<in> set ps \<Longrightarrow> p c \<Longrightarrow> 0x80 \<le> byte c"
  by (auto simp: rune_tail_def Let_def is_cont_def second_ok_def split: if_splits)

lemma rune_high:
  assumes "rune_len (c # r) = Some n" "0x80 \<le> byte c"
  shows "list_all (\<lambda>b. 0x80 \<le> byte b) (take n (c # r))"
proof -
  obtain ps where "rune_tail c = Some ps" "starts ps r" "n = Suc (length ps)"
    using assms(1) by (auto simp: rune_len.simps(2) split: option.splits if_splits)
  with assms(2) rune_tail_high [of c ps] starts_all [of ps r "\<lambda>b. 0x80 \<le> byte b"] show ?thesis by auto
qed

lemma rune_ascii: "rune_len (c # r) = Some n \<Longrightarrow> byte c < 0x80 \<Longrightarrow> n = 1"
  by simp

lemma high_plain: "0x80 \<le> byte c \<Longrightarrow> \<not> is_field_special c"
  using special_ascii by fastforce

lemma Escape_high: "list_all (\<lambda>b. 0x80 \<le> byte b) s \<Longrightarrow> EscapeValue s = s"
  by (rule EscapeValue_plain) (auto simp: list_all_iff list_ex_iff dest: high_plain)

lemma unescape_high:
  "list_all (\<lambda>b. 0x80 \<le> byte b) s \<Longrightarrow> unescape_from False (s @ t) = map_sum id ((@) s) (unescape_from False t)"
proof (induction s)
  case (Cons c s)
  then have "\<not> is_field_special c" using high_plain by simp
  then have "c \<noteq> backslash" "c \<noteq> CHR '',''" "c \<noteq> CHR ''=''" by (auto simp: is_field_special_def)
  with Cons show ?case by (cases "unescape_from False t") simp_all
qed (cases "unescape_from False t"; simp)

lemma valid_sanitize: "valid_utf8 (sanitize s)"
proof (induction s rule: sanitize.induct)
  case (2 c r)
  have e: "valid_utf8 rune_error" by code_simp
  show ?case
  proof (cases "rune_len (c # r)")
    case None
    with 2(1) e show ?thesis by (simp add: valid_utf8_append)
  next
    case (Some n)
    with 2(2) [OF Some] valid_utf8_rune [OF Some] show ?thesis by (simp add: valid_utf8_append)
  qed
qed simp

lemma valid_utf8_step [consumes 1]:
  assumes "valid_utf8 (c # r)"
  obtains (ascii) "byte c < 0x80" "valid_utf8 r"
  | (rune) x t where "0x80 \<le> byte c" "c # r = x @ t" "x \<noteq> []" "valid_utf8 x" "valid_utf8 t"
      "list_all (\<lambda>b. 0x80 \<le> byte b) x"
proof (cases "byte c < 0x80")
  case True
  with assms ascii show thesis by simp
next
  case False
  obtain n where n: "rune_len (c # r) = Some n" "valid_utf8 (drop (n - 1) r)"
    using assms by (auto split: option.splits)
  have "0 < n" using rune_len_Some_bound [OF n(1)] by simp
  then have "drop (n - 1) r = drop n (c # r)" by (cases n) simp_all
  with n False \<open>0 < n\<close> show thesis
    by (intro rune [of "take n (c # r)" "drop n (c # r)"] valid_utf8_rune [OF n(1)] rune_high [OF n(1)]) simp_all
qed

lemma valid_EscapeValue: "valid_utf8 v \<Longrightarrow> valid_utf8 (EscapeValue v)"
proof (induction v rule: length_induct)
  case (1 v)
  show ?case
  proof (cases v)
    case (Cons c r)
    from 1(2) [unfolded Cons] show ?thesis
    proof (cases rule: valid_utf8_step)
      case ascii
      then show ?thesis using 1(1) Cons by (simp add: byte_def)
    next
      case (rune x t)
      then have "length t < length v" using Cons by (metis length_append length_greater_0_conv less_add_same_cancel2)
      then show ?thesis
        using 1(1) rune(4,5) by (simp add: Cons rune(2) EscapeValue_append Escape_high [OF rune(6)] valid_utf8_append)
    qed
  qed simp
qed

lemma unescape_valid: "valid_utf8 s \<Longrightarrow> unescape_from b s = Inr v \<Longrightarrow> valid_utf8 v"
proof (induction s arbitrary: b v rule: length_induct)
  case (1 s)
  show ?case
  proof (cases s)
    case (Cons c r)
    from 1(2) [unfolded Cons] show ?thesis
    proof (cases rule: valid_utf8_step)
      case ascii
      have r: "unescape_from b' r = Inr v' \<Longrightarrow> valid_utf8 v'" for b' v'
        using 1(1) [rule_format, of r] ascii(2) Cons by auto
      show ?thesis
        using 1(3) ascii(1) r unfolding Cons
        by (cases "unescape_from False r") (auto split: if_splits)
    next
      case (rune x t)
      have l: "length t < length s"
        using rune(2,3) Cons by (metis length_append length_greater_0_conv less_add_same_cancel2)
      have "\<not> b" using 1(3) high_plain [OF rune(1)] Cons by (cases b) auto
      then obtain v' where "unescape_from False t = Inr v'" "v = x @ v'"
        using 1(3) unfolding Cons rune(2) by (cases "unescape_from False t") (auto simp: unescape_high [OF rune(6)])
      with 1(1) l rune(4,5) show ?thesis by (simp add: valid_utf8_append)
    qed
  qed (use 1(3) in \<open>auto split: if_splits\<close>)
qed

text \<open>A value that \<open>UnescapeValue\<close> returns is read back from its escaped text.\<close>

lemma Unescape_Escape:
  assumes "UnescapeValue s = Inr v"
  shows "UnescapeValue (EscapeValue v) = Inr v"
proof (cases "list_ex is_field_special v")
  case True
  have "valid_utf8 v"
    using assms True unescape_valid [OF valid_sanitize] by (auto simp: UnescapeValue_def split: if_splits)
  then have "sanitize (EscapeValue v) = EscapeValue v" by (intro sanitize_valid valid_EscapeValue)
  then show ?thesis using True by (simp add: UnescapeValue_def escaped_special unescape_Escape)
qed (simp add: UnescapeValue_def escaped_special EscapeValue_plain)

section \<open>The splitters on printed terms\<close>

text \<open>The state of \<open>splitTerms\<close> behind a stretch without a delimiter, \<open>None\<close> when there is one.\<close>

fun slash_state :: "bool \<Rightarrow> string \<Rightarrow> bool option" where
  "slash_state b [] = Some b"
| "slash_state b (c # cs) =
     (if b then slash_state False cs
      else if c = backslash then slash_state True cs
      else if c = CHR '','' then None
      else slash_state False cs)"

lemma slash_state_append:
  "slash_state b (s @ t) = (case slash_state b s of None \<Rightarrow> None | Some b' \<Rightarrow> slash_state b' t)"
  by (induction b s rule: slash_state.induct) auto

lemma slash_state_Escape [simp]: "slash_state False (EscapeValue v) = Some False"
  by (induction v) (auto simp: is_field_special_def)

lemma split_terms_state:
  "slash_state b s = Some b' \<Longrightarrow> split_terms b t (s @ u) = split_terms b' (t @ s) u"
  by (induction b s arbitrary: t rule: slash_state.induct) (auto split: if_splits)

lemma split_terms_closed:
  "p \<in> set (split_terms b t s) \<Longrightarrow> slash_state False t = Some b \<Longrightarrow> \<exists>b'. slash_state False p = Some b'"
proof (induction b t s rule: split_terms.induct)
  case (2 b t c cs)
  have step: "slash_state False (t @ [c]) = slash_state b [c]" using 2(6) by (simp add: slash_state_append)
  show ?case using 2 step by (auto split: if_splits)
qed auto

lemma splitTerms_join:
  assumes "list_all (\<lambda>p. p \<noteq> '''' \<and> slash_state False p = Some False) ps"
  shows "splitTerms (strings_Join ps '','') = ps"
proof (cases "ps = []")
  case False
  have "split_terms False '''' (strings_Join ps '','') = ps"
    using assms False
  proof (induction ps)
    case (Cons p ps)
    have p: "slash_state False p = Some False" using Cons.prems(1) by simp
    show ?case
    proof (cases ps)
      case Nil
      then show ?thesis using split_terms_state [OF p, of "''''" "''''"] by simp
    next
      case (Cons q qs)
      then show ?thesis
        using split_terms_state [OF p, of "''''" "CHR '','' # strings_Join (q # qs) '',''"] Cons.IH Cons.prems
        by simp
    qed
  qed simp
  moreover have "strings_Join ps '','' \<noteq> ''''"
    using assms False by (cases ps; cases "tl ps") auto
  ultimately show ?thesis by (simp add: splitTerms_def)
qed (simp add: splitTerms_def)

text \<open>Whether an operator starts a string depends on its first two bytes.\<close>

lemma prefix_operator_simps:
  "prefix_operator [c] = (if c = CHR ''='' then Some ''='' else None)"
  "prefix_operator (c # d # r) =
     (if c = CHR ''!'' \<and> d = CHR ''='' then Some ''!=''
      else if c = CHR ''='' then Some (if d = CHR ''='' then ''=='' else ''='') else None)"
  by (auto simp: prefix_operator_def termOperators_def)

lemma splitTerm_append:
  "splitTerm p = Some (lhs, op, rhs) \<Longrightarrow> p = lhs @ op @ rhs \<and> op \<in> {''!='', ''=='', ''=''}"
proof (induction p arbitrary: lhs)
  case (Cons c p)
  show ?case
  proof (cases "prefix_operator (c # p)")
    case (Some o1)
    then have "take (length o1) (c # p) = o1" "o1 \<in> {''!='', ''=='', ''=''}"
      by (auto simp: prefix_operator_def termOperators_def split: if_splits)
    then have "o1 @ drop (length o1) (c # p) = c # p" by (metis append_take_drop_id)
    moreover have "lhs = []" "op = o1" "rhs = drop (length o1) (c # p)" using Some Cons.prems by auto
    ultimately show ?thesis using \<open>o1 \<in> _\<close> by simp
  next
    case None
    then obtain lhs' where "lhs = c # lhs'" "splitTerm p = Some (lhs', op, rhs)"
      using Cons.prems by (cases "splitTerm p") auto
    with Cons.IH [of lhs'] show ?thesis by simp
  qed
qed simp

lemma splitTerm_swap:
  assumes "splitTerm (lhs @ c # x) = Some (lhs, op, rhs)" "prefix_operator (c # y) = Some op'"
  shows "splitTerm (lhs @ c # y) = Some (lhs, op', drop (length op') (c # y))"
  using assms(1)
proof (induction lhs)
  case (Cons d lhs)
  have none: "prefix_operator (d # lhs @ c # x) = None"
    using Cons.prems by (auto split: option.splits)
  then have "prefix_operator (d # lhs @ c # y) = None"
    by (cases lhs) (auto simp: prefix_operator_simps split: if_splits)
  moreover have "splitTerm (lhs @ c # y) = Some (lhs, op', drop (length op') (c # y))"
    using Cons none by (auto split: option.splits)
  ultimately show ?case by simp
qed (simp add: assms(2))

section \<open>Parsing what was printed\<close>

lemma Escape_not_equals: "EscapeValue v \<noteq> CHR ''='' # r"
  by (cases v) (auto simp: is_field_special_def)

lemma operator_escaped:
  "prefix_operator (CHR ''='' # EscapeValue v) = Some ''=''"
  "prefix_operator (CHR ''!'' # CHR ''='' # EscapeValue v) = Some ''!=''"
  using Escape_not_equals [of v]
  by (cases "EscapeValue v") (auto simp: prefix_operator_simps)

text \<open>A term that was parsed is printed as one that parses to the same, whatever the selector around it.\<close>

lemma parse_term_String:
  assumes "parse_term sel p = Inr t" "slash_state False p = Some b"
  shows "parse_term sel' (field_String t) = Inr t" "field_String t \<noteq> ''''"
    "slash_state False (field_String t) = Some False" "\<exists>f v. t = HasTerm f v \<or> t = NotHasTerm f v"
proof -
  obtain lhs op rhs v where k: "splitTerm p = Some (lhs, op, rhs)" "UnescapeValue rhs = Inr v"
      "t = (if op = ''!='' then NotHasTerm lhs v else HasTerm lhs v)"
    using assms(1) by (auto simp: parse_term_def split: option.splits sum.splits if_splits)
  note p = splitTerm_append [OF k(1)]
  obtain c x where c: "p = lhs @ c # x" "c = (if op = ''!='' then CHR ''!'' else CHR ''='')"
    using p by auto
  let ?y = "if op = ''!='' then CHR ''='' # EscapeValue v else EscapeValue v"
  have S: "field_String t = lhs @ c # ?y" using k(3) c(2) by simp
  have op: "prefix_operator (c # ?y) = Some (if op = ''!='' then ''!='' else ''='')"
    using c(2) by (simp add: operator_escaped)
  have "splitTerm (field_String t) = Some (lhs, if op = ''!='' then ''!='' else ''='', EscapeValue v)"
    unfolding S using splitTerm_swap [OF k(1) [unfolded c(1)] op] by simp
  then show "parse_term sel' (field_String t) = Inr t"
    using k(3) Unescape_Escape [OF k(2)] by (simp add: parse_term_def)
  show "field_String t \<noteq> ''''" unfolding S by simp
  have "slash_state False (lhs @ [c]) = Some False"
    using assms(2) c by (auto simp: slash_state_append split: option.splits if_splits)
  then show "slash_state False (field_String t) = Some False"
    unfolding S using slash_state_append [of False "lhs @ [c]" ?y] by simp
  show "\<exists>f v. t = HasTerm f v \<or> t = NotHasTerm f v" using k(3) by auto
qed

text \<open>What is known of a term of a parsed selector.\<close>

definition printable :: "field_selector \<Rightarrow> bool" where
  "printable t \<longleftrightarrow> (\<forall>sel. parse_term sel (field_String t) = Inr t) \<and> field_String t \<noteq> '''' \<and>
     slash_state False (field_String t) = Some False \<and> (\<exists>f v. t = HasTerm f v \<or> t = NotHasTerm f v)"

lemma parse_terms_printable:
  "parse_terms sel ps = Inr ts \<Longrightarrow> (\<And>p. p \<in> set ps \<Longrightarrow> \<exists>b. slash_state False p = Some b) \<Longrightarrow>
   list_all printable ts"
proof (induction sel ps arbitrary: ts rule: parse_terms.induct)
  case (2 sel p ps)
  show ?case
  proof (cases "p = ''''")
    case False
    then obtain t ts' where t: "parse_term sel p = Inr t" "parse_terms sel ps = Inr ts'" "ts = t # ts'"
      using 2(3) by (auto split: sum.splits)
    obtain b where "slash_state False p = Some b" using 2(4) [of p] by auto
    from parse_term_String [OF t(1) this] have "printable t" by (simp add: printable_def)
    with 2(2) [OF False t(1) t(2)] 2(4) t(3) show ?thesis by simp
  qed (use 2 in auto)
qed simp

lemma parse_terms_String:
  "list_all printable ts \<Longrightarrow> parse_terms sel (map field_String ts) = Inr ts"
  by (induction ts) (simp_all add: printable_def)

lemma transform_printable:
  "list_all printable ts \<Longrightarrow>
   transform_terms (\<lambda>l r. Inr (l, r)) ts = Inr (filter (\<lambda>t. t \<noteq> HasTerm '''' '''' \<and> t \<noteq> NotHasTerm '''' '''') ts)"
  by (induction ts) (auto simp: printable_def term_Transform_def split: if_splits)

text \<open>The shape of a parsed selector: a term, or a conjunction of terms; no term is empty.\<close>

definition parsed_field :: "field_selector \<Rightarrow> field_selector list \<Rightarrow> bool" where
  "parsed_field sel ts \<longleftrightarrow>
     list_all (\<lambda>t. printable t \<and> t \<noteq> HasTerm '''' '''' \<and> t \<noteq> NotHasTerm '''' '''') ts \<and>
     (sel = AndTerm ts \<or> (\<exists>t. sel = t \<and> ts = [t]))"

lemma finish_parse:
  assumes "parse_terms s (sort (splitTerms s)) = Inr ts" "list_all printable ts"
  shows "\<exists>sel. ParseSelector s = Inr sel \<and>
    parsed_field sel (filter (\<lambda>t. t \<noteq> HasTerm '''' '''' \<and> t \<noteq> NotHasTerm '''' '''') ts)"
proof -
  have "\<exists>f v. t = HasTerm f v \<or> t = NotHasTerm f v" if "ts = [t]" for t
    using assms(2) that by (simp add: printable_def)
  then show ?thesis
    using assms transform_printable [OF assms(2)]
    by (cases ts; cases "tl ts")
       (fastforce simp: ParseSelector_def parseSelector_def term_Transform_def parsed_field_def list_all_iff)+
qed

lemma ParseSelector_parsed:
  assumes "ParseSelector s = Inr sel"
  obtains ts where "parsed_field sel ts"
proof -
  obtain ts where ts: "parse_terms s (sort (splitTerms s)) = Inr ts"
    using assms by (auto simp: ParseSelector_def parseSelector_def split: sum.splits)
  have "p \<in> set (splitTerms s) \<Longrightarrow> \<exists>b. slash_state False p = Some b" for p
    using split_terms_closed [of p False "''''" s] by (auto simp: splitTerms_def split: if_splits)
  then have "list_all printable ts" by (intro parse_terms_printable [OF ts]) simp
  from finish_parse [OF ts this] assms that show thesis by auto
qed

lemma parsed_field_Matches: "parsed_field sel ts \<Longrightarrow> field_Matches sel ls \<longleftrightarrow> (\<forall>t \<in> set ts. field_Matches t ls)"
  by (auto simp: parsed_field_def list_all_iff)

lemma parsed_field_String: "parsed_field sel ts \<Longrightarrow> field_String sel = strings_Join (map field_String ts) '',''"
  by (auto simp: parsed_field_def)

text \<open>C12. A field selector that was parsed is printed as a text that parses again, to a selector that matches
  the same fields. The terms are sorted as they are written, so their order can change.\<close>

theorem field_selector_roundtrip:
  assumes "ParseSelector s = Inr sel"
  shows "\<exists>sel'. ParseSelector (field_String sel) = Inr sel' \<and> (\<forall>ls. field_Matches sel' ls = field_Matches sel ls)"
proof -
  obtain ts where ts: "parsed_field sel ts" by (rule ParseSelector_parsed [OF assms])
  let ?texts = "map field_String ts"
  have k: "list_all printable ts"
      "filter (\<lambda>t. t \<noteq> HasTerm '''' '''' \<and> t \<noteq> NotHasTerm '''' '''') ts = ts"
    using ts by (auto simp: parsed_field_def list_all_iff)
  have split: "splitTerms (field_String sel) = ?texts"
    unfolding parsed_field_String [OF ts]
    by (rule splitTerms_join) (use k(1) in \<open>auto simp: list_all_iff printable_def\<close>)
  define ts' where "ts' = sort_key field_String ts"
  have "sort ?texts = map field_String ts'" by (rule properties_for_sort) (simp_all add: ts'_def)
  then have ts': "map field_String ts' = sort ?texts" "set ts' = set ts" by (simp_all add: ts'_def)
  have p': "list_all printable ts'" using k(1) ts'(2) by (simp add: list_all_iff)
  then have "parse_terms (field_String sel) (sort (splitTerms (field_String sel))) = Inr ts'"
    using parse_terms_String [OF p'] by (simp add: split ts'(1))
  from finish_parse [OF this p'] obtain sel' where
    "ParseSelector (field_String sel) = Inr sel'"
    "parsed_field sel' (filter (\<lambda>t. t \<noteq> HasTerm '''' '''' \<and> t \<noteq> NotHasTerm '''' '''') ts')" by blast
  moreover have "set (filter (\<lambda>t. t \<noteq> HasTerm '''' '''' \<and> t \<noteq> NotHasTerm '''' '''') ts') = set ts"
    using k(2) ts'(2) by (metis set_filter)
  ultimately show ?thesis using parsed_field_Matches [OF ts] parsed_field_Matches [of sel'] by auto
qed

text \<open>The order does change: the two terms below are sorted by \<open>==\<close> and \<open>=\<close>.\<close>

lemma field_parse_examples:
  "ParseSelector '''' = Inr (AndTerm [])"
  "ParseSelector ''metadata.name=web'' = Inr (HasTerm ''metadata.name'' ''web'')"
  "ParseSelector ''a==0,a=1'' = Inr (AndTerm [HasTerm ''a'' ''1'', HasTerm ''a'' ''0''])"
  "ParseSelector ''a=1,a=0'' = Inr (AndTerm [HasTerm ''a'' ''0'', HasTerm ''a'' ''1''])"
  by code_simp+

theorem field_selector_roundtrip_witness:
  "field_String (AndTerm [HasTerm ''a'' ''1'', HasTerm ''a'' ''0'']) = ''a=1,a=0'' \<and>
   (\<exists>sel'. ParseSelector ''a=1,a=0'' = Inr sel' \<and>
     (\<forall>ls. field_Matches sel' ls = field_Matches (AndTerm [HasTerm ''a'' ''1'', HasTerm ''a'' ''0'']) ls))"
proof -
  have "field_String (AndTerm [HasTerm ''a'' ''1'', HasTerm ''a'' ''0'']) = ''a=1,a=0''" by code_simp
  with field_selector_roundtrip [OF field_parse_examples(3)] show ?thesis by simp
qed

end
