(* ===== verification/Selector_Path.thy ===== *)
theory Selector_Path
  imports Options Storage Selector_Syntax Field_Syntax
begin

text \<open>
  The way of the reflector's selector: the flag is parsed by \<open>complete\<close> (\<open>cmd/service-reflector/main.go\<close>),
  printed by the watcher into its requests (\<open>pkg/controller/watcher.go\<close>), decoded from the query by the
  conversions of \<open>vendor/k8s.io/apimachinery/pkg/apis/meta\<close> and applied by the emitter's storage
  (\<open>pkg/storage/storage.go\<close>).
\<close>

section \<open>Decoding the options of a request\<close>

definition Convert_string_To_labels_Selector ::
  "(sel_error \<Rightarrow> string) \<Rightarrow> (requirement list \<Rightarrow> requirement list) \<Rightarrow> string \<Rightarrow> go_error + label_selector" where
  "Convert_string_To_labels_Selector text srt s =
     (case labels_Parse text srt s of Inl err \<Rightarrow> Inl err | Inr selector \<Rightarrow> Inr selector)"

definition Convert_string_To_fields_Selector :: "string \<Rightarrow> go_error + field_selector" where
  "Convert_string_To_fields_Selector s =
     (case ParseSelector s of Inl err \<Rightarrow> Inl err | Inr selector \<Rightarrow> Inr selector)"

definition Convert_ListOptions ::
  "(sel_error \<Rightarrow> string) \<Rightarrow> (requirement list \<Rightarrow> requirement list) \<Rightarrow> list_options \<Rightarrow>
   go_error + internal_list_options" where
  "Convert_ListOptions text srt lo =
     (case Convert_string_To_labels_Selector text srt (lo_LabelSelector lo) of
        Inl err \<Rightarrow> Inl err
      | Inr ls \<Rightarrow>
          (case Convert_string_To_fields_Selector (lo_FieldSelector lo) of
             Inl err \<Rightarrow> Inl err
           | Inr fs \<Rightarrow> Inr \<lparr>ilo_LabelSelector = Some ls, ilo_FieldSelector = Some fs\<rparr>))"

text \<open>The parts of a request: its namespace, empty for all of them, and its options.\<close>

definition request_ns :: "request \<Rightarrow> string" where
  "request_ns r =
     (case (case r of ListReq _ ns _ \<Rightarrow> ns | WatchReq _ ns _ \<Rightarrow> ns) of None \<Rightarrow> '''' | Some ns \<Rightarrow> ns)"

definition request_options :: "request \<Rightarrow> list_options" where
  "request_options r = (case r of ListReq _ _ lo \<Rightarrow> lo | WatchReq _ _ lo \<Rightarrow> lo)"

lemma watcher_requests:
  "request_ns (listSE w lo) = w_namespace w" "request_ns (watchSE w lo) = w_namespace w"
  "lo_LabelSelector (request_options (listSE w lo)) = w_selector w"
  "lo_LabelSelector (request_options (watchSE w lo)) = w_selector w"
  "lo_FieldSelector (request_options (listSE w lo)) = lo_FieldSelector lo"
  "lo_FieldSelector (request_options (watchSE w lo)) = lo_FieldSelector lo"
  by (simp_all add: request_ns_def request_options_def listSE_def watchSE_def w_scope_def)

text \<open>A selector of \<open>complete\<close> is read back from its text as one that matches the same labels.\<close>

lemma completed_selector:
  assumes k: "(if flag = '''' then sel = Everything else labels_Parse text srt flag = Inr sel)"
    and srt: "\<And>rs. set (srt rs) = set rs"
  obtains sel' where "labels_Parse text srt (sel_String sel) = Inr sel'"
    "\<And>l. sel_Matches sel' l = sel_Matches sel l"
proof -
  obtain rs where rs: "sel = InternalSelector rs" "list_all wf_requirement rs"
  proof (cases "flag = ''''")
    case False
    then have "labels_Parse text srt flag = Inr sel" using k by simp
    then obtain rs0 items where "parse_items flag = SelOk rs0 items" "sel = InternalSelector (srt rs0)"
      by (auto simp: labels_Parse_def split: parsed.splits)
    with parse_items_ok(2) [of flag rs0 items] srt that show thesis by (simp add: list_all_iff)
  qed (use k that in \<open>simp add: Everything_def\<close>)
  obtain items where "parse_items (sel_String sel) = SelOk rs items"
    using parse_String [OF rs(2)] rs(1) by blast
  then show thesis
    using that [of "InternalSelector (srt rs)"] srt rs(1)
    by (simp add: labels_Parse_def sel_Matches_def reqs_Matches_all list_all_iff)
qed

section \<open>Properties\<close>

text \<open>C9. The selector and the namespace an operator gives the reflector are what the emitter filters
  by: when the options of the reflector complete without an error, the options of the list and of the watch
  request of each of its watchers are decoded without an error, and the export store, once synced, answers the
  list with exactly the exports whose labels the parsed flag matches and which lie in the
  namespace; the empty flag and the empty namespace select everything.\<close>

theorem reflector_selector_applies:
  assumes complete: "o_complete e opt = ([], k)"
    and env: "e_Parse e = labels_Parse text srt" "e_String e = sel_String"
    and srt: "\<And>rs. set (srt rs) = set rs"
    and lo: "lo_FieldSelector lo = ''''"
    and w: "w = NewWatcher clusterID remoteID (o_namespace opt) (e_String e (k_reflectorSelector k))"
    and req: "req = listSE w lo \<or> req = watchSE w lo"
  shows "\<exists>options. Convert_ListOptions text srt (request_options req) = Inr options \<and>
    (\<forall>ses. se_List srt True (map ItemExport ses :: 'u item list) (request_ns req) (Some options) =
       Listed (filter (\<lambda>se. sel_Matches (k_reflectorSelector k) (om_Labels (se_meta se)) \<and>
         (o_namespace opt \<noteq> '''' \<longrightarrow> om_Namespace (se_meta se) = o_namespace opt)) ses))"
proof -
  have "if o_reflectorSelector opt = '''' then k_reflectorSelector k = Everything
      else labels_Parse text srt (o_reflectorSelector opt) = Inr (k_reflectorSelector k)"
    using complete_ok [OF complete] unfolding env(1) by blast
  then obtain sel' where sel': "labels_Parse text srt (sel_String (k_reflectorSelector k)) = Inr sel'"
      "\<And>l. sel_Matches sel' l = sel_Matches (k_reflectorSelector k) l"
    using completed_selector [OF _ srt] by blast
  let ?options = "\<lparr>ilo_LabelSelector = Some sel', ilo_FieldSelector = Some (AndTerm [])\<rparr>"
  have sent: "request_ns req = o_namespace opt"
      "lo_LabelSelector (request_options req) = sel_String (k_reflectorSelector k)"
      "lo_FieldSelector (request_options req) = ''''"
    using req w lo env(2) by (auto simp: watcher_requests NewWatcher_def)
  have "Convert_ListOptions text srt (request_options req) = Inr ?options"
    by (simp add: Convert_ListOptions_def Convert_string_To_labels_Selector_def
        Convert_string_To_fields_Selector_def sent sel' field_parse_examples(1))
  then show ?thesis
    by (auto simp: se_List_def se_list_items_typed typed_exports_items helpers_select [OF srt] options_select_def sent sel')
qed

definition selector_environment :: "unit environment" where
  "selector_environment = good_environment\<lparr>e_Parse := labels_Parse (\<lambda>_. '''') id, e_String := sel_String\<rparr>"

definition tier_export :: service_export where
  "tier_export = web_export\<lparr>se_meta := (se_meta web_export)\<lparr>om_Labels := [''tier'' \<mapsto> ''web'']\<rparr>\<rparr>"

definition tier_options :: "string options" where
  "tier_options = good_options\<lparr>o_reflectorSelector := '' tier == web ''\<rparr>"

definition tier_request :: request where
  "tier_request = listSE (NewWatcher ''a'' ''b'' '''' (sel_String (k_reflectorSelector
     (snd (o_complete selector_environment tier_options)))))
     \<lparr>lo_LabelSelector = '''', lo_FieldSelector = '''', lo_Watch = False, lo_ResourceVersion = ''''\<rparr>"

lemma tier_parse: "parse_items '' tier == web '' =
    SelOk [\<lparr>r_key = ''tier'', r_operator = OpDoubleEquals, r_strValues = [''web'']\<rparr>] []"
  by code_simp

theorem reflector_selector_applies_witness:
  "case Convert_ListOptions (\<lambda>_. '''') id (request_options tier_request) of
     Inl _ \<Rightarrow> False
   | Inr options \<Rightarrow>
       se_List id True [ItemExport tier_export, ItemExport web_export :: unit item] (request_ns tier_request) (Some options) =
         Listed [tier_export]"
proof -
  let ?k = "snd (o_complete selector_environment tier_options)"
  let ?rs = "[\<lparr>r_key = ''tier'', r_operator = OpDoubleEquals, r_strValues = [''web'']\<rparr>]"
  have complete: "o_complete selector_environment tier_options = ([], ?k)"
    by (simp add: o_complete_def selector_environment_def good_environment_def tier_options_def good_options_def
        parse_selector_def choose_logger_def completeEmitter_def labels_Parse_def tier_parse)
  have k: "k_reflectorSelector ?k = InternalSelector ?rs"
    by (simp add: o_complete_def selector_environment_def good_environment_def tier_options_def good_options_def
        parse_selector_def choose_logger_def completeEmitter_def labels_Parse_def tier_parse)
  have "\<exists>options. Convert_ListOptions (\<lambda>_. '''') id (request_options tier_request) = Inr options \<and>
    (\<forall>ses. se_List id True (map ItemExport ses :: unit item list) (request_ns tier_request) (Some options) =
       Listed (filter (\<lambda>se. sel_Matches (k_reflectorSelector ?k) (om_Labels (se_meta se)) \<and>
         (o_namespace tier_options \<noteq> '''' \<longrightarrow> om_Namespace (se_meta se) = o_namespace tier_options)) ses))"
    by (rule reflector_selector_applies [OF complete, where w = "NewWatcher ''a'' ''b'' '''' (sel_String (k_reflectorSelector ?k))"
          and clusterID = "''a''" and remoteID = "''b''" and
          lo = "\<lparr>lo_LabelSelector = '''', lo_FieldSelector = '''', lo_Watch = False, lo_ResourceVersion = ''''\<rparr>"])
       (simp_all add: selector_environment_def tier_request_def tier_options_def good_options_def)
  then obtain options where o: "Convert_ListOptions (\<lambda>_. '''') id (request_options tier_request) = Inr options"
    "se_List id True (map ItemExport [tier_export, web_export] :: unit item list) (request_ns tier_request) (Some options) =
       Listed (filter (\<lambda>se. sel_Matches (k_reflectorSelector ?k) (om_Labels (se_meta se)) \<and>
         (o_namespace tier_options \<noteq> '''' \<longrightarrow> om_Namespace (se_meta se) = o_namespace tier_options)) [tier_export, web_export])"
    by blast
  have "sel_Matches (InternalSelector ?rs) (om_Labels (se_meta tier_export))"
    "\<not> sel_Matches (InternalSelector ?rs) (om_Labels (se_meta web_export))" "o_namespace tier_options = ''''"
    by (simp_all add: sel_Matches_def req_Matches_def hasValue_def tier_export_def web_export_def web_meta_def
        empty_meta_def tier_options_def good_options_def)
  then show ?thesis using o(2) by (simp add: o(1) k)
qed

end
