(* ===== verification/Emitter_Store.thy ===== *)
theory Emitter_Store
  imports Storage
begin

text \<open>
  The two stores of \<open>pkg/storage/storage.go\<close> as the API server of the emitter uses them: their event
  handlers on typed objects, \<open>List\<close> and \<open>Watch\<close>, behind one record, with the contract \<open>store_laws\<close> that
  both of them keep. The informers of the model hold typed objects, as the type assertions of the store require.
\<close>

section \<open>The two stores\<close>

definition se_handle ::
  "('u \<Rightarrow> object_meta) \<Rightarrow> event_type \<Rightarrow> service_export \<Rightarrow> 'u registry \<Rightarrow> panic + 'u registry" where
  "se_handle u_meta et se r =
     (case et of
        EventAdded \<Rightarrow> se_OnAdd u_meta (ItemExport se) r
      | EventModified \<Rightarrow> se_OnUpdate u_meta (ItemExport se) r
      | EventDeleted \<Rightarrow> se_OnDelete u_meta (ItemExport se) r)"

definition es_handle ::
  "string set \<Rightarrow> ('u \<Rightarrow> object_meta) \<Rightarrow> event_type \<Rightarrow> endpoint_slice \<Rightarrow> 'u registry \<Rightarrow> panic + 'u registry" where
  "es_handle exports u_meta et es r =
     (case et of
        EventAdded \<Rightarrow> es_OnAdd u_meta exports (ItemSlice es) r
      | EventModified \<Rightarrow> es_OnUpdate u_meta exports (ItemSlice es) r
      | EventDeleted \<Rightarrow> es_OnDelete u_meta exports (ItemSlice es) r)"

text \<open>What a feed uses of a store: its objects as items, their metadata, whether it serves an object at
  all, the handlers, \<open>List\<close> and \<open>Watch\<close>. The slice store is taken with the exports it looks up, which
  do not change while the feed runs.\<close>

record ('o, 'u) emitter_store =
  eo_item :: "'o \<Rightarrow> 'u item"
  eo_meta :: "'o \<Rightarrow> object_meta"
  eo_serves :: "'o \<Rightarrow> bool"
  eo_handle :: "('u \<Rightarrow> object_meta) \<Rightarrow> event_type \<Rightarrow> 'o \<Rightarrow> 'u registry \<Rightarrow> panic + 'u registry"
  eo_List :: "(requirement list \<Rightarrow> requirement list) \<Rightarrow> 'u item list \<Rightarrow> string \<Rightarrow>
    internal_list_options option \<Rightarrow> 'o list list_result"
  eo_Watch :: "(requirement list \<Rightarrow> requirement list) \<Rightarrow> string \<Rightarrow> internal_list_options option \<Rightarrow>
    'u registry \<Rightarrow> nat \<times> 'u registry"

definition export_store :: "(service_export, 'u) emitter_store" where
  "export_store = \<lparr>eo_item = ItemExport, eo_meta = se_meta, eo_serves = (\<lambda>_. True), eo_handle = se_handle,
     eo_List = (\<lambda>srt. se_List srt True), eo_Watch = st_Watch\<rparr>"

definition slice_store :: "string set \<Rightarrow> (endpoint_slice, 'u) emitter_store" where
  "slice_store exports = \<lparr>eo_item = ItemSlice, eo_meta = es_meta, eo_serves = hasExport exports,
     eo_handle = es_handle exports, eo_List = (\<lambda>srt. es_List srt True True exports), eo_Watch = es_Watch\<rparr>"

lemma store_sel [simp]:
  "eo_item export_store = ItemExport" "eo_meta export_store = se_meta" "eo_serves export_store se"
  "eo_handle export_store = se_handle" "eo_List export_store srt = se_List srt True"
  "eo_Watch export_store = st_Watch"
  "eo_item (slice_store exports) = ItemSlice" "eo_meta (slice_store exports) = es_meta"
  "eo_serves (slice_store exports) = hasExport exports" "eo_handle (slice_store exports) = es_handle exports"
  "eo_List (slice_store exports) srt = es_List srt True True exports"
  "eo_Watch (slice_store exports) = es_Watch"
  by (simp_all add: export_store_def slice_store_def)

text \<open>What a store promises: an event goes to every live watcher that selects the object, if the store
  serves it; a list holds what is served and selected; a watch registers a watcher.\<close>

locale store_laws =
  fixes S :: "('o, 'u) emitter_store"
  assumes handle_pushes: "reg_live r \<Longrightarrow>
      \<exists>r1. eo_handle S u_meta et x r = Inr r1 \<and> reg_live r1 \<and> reg_ws r1 = reg_ws r \<and>
        length (reg_heap r1) = length (reg_heap r) \<and>
        (\<forall>a < length (reg_heap r). reg_heap r1 ! a =
          (if eo_serves S x \<and> Some a \<in> set (reg_ws r) \<and> sw_selects (reg_heap r ! a) (eo_meta S x)
           then push (et, eo_item S x) (reg_heap r ! a) else reg_heap r ! a))"
    and list_selects: "(\<And>rs. set (srt rs) = set rs) \<Longrightarrow>
      eo_List S srt (map (eo_item S) xs) ns options =
        Listed (filter (\<lambda>x. eo_serves S x \<and> options_select options ns (eo_meta S x)) xs)"
    and watch_registers: "eo_Watch S srt ns options r =
      addWatcher (mergeSelectors srt Everything options) (defaultFieldSelector options) ns r"

lemma se_handle_handler: "se_handle u_meta et se r = handler u_meta (reg_ws r) et (ItemExport se) r"
  by (cases et) (simp_all add: se_handle_def se_OnAdd_def se_OnUpdate_def se_OnDelete_def)

lemma es_handle_handler:
  "es_handle exports u_meta et es r =
     (if hasExport exports es then handler u_meta (reg_ws r) et (ItemSlice es) r else Inr r)"
  by (cases et) (simp_all add: es_handle_def es_OnAdd_def es_OnUpdate_def es_OnDelete_def)

interpretation exports: store_laws export_store
proof unfold_locales
  fix r :: "'u registry" and u_meta :: "'u \<Rightarrow> object_meta" and et and x
  assume "reg_live r"
  from handler_ok [OF this, of u_meta "ItemExport x" "se_meta x" et]
  show "\<exists>r1. eo_handle export_store u_meta et x r = Inr r1 \<and> reg_live r1 \<and> reg_ws r1 = reg_ws r \<and>
      length (reg_heap r1) = length (reg_heap r) \<and>
      (\<forall>a < length (reg_heap r). reg_heap r1 ! a =
        (if eo_serves export_store x \<and> Some a \<in> set (reg_ws r) \<and> sw_selects (reg_heap r ! a) (eo_meta export_store x)
         then push (et, eo_item export_store x) (reg_heap r ! a) else reg_heap r ! a))"
    unfolding store_sel se_handle_handler simp_thms by (simp add: item_meta_def split del: if_split)
next
  fix srt :: "requirement list \<Rightarrow> requirement list" and xs ns options
  assume srt: "\<And>rs. set (srt rs) = set rs"
  show "eo_List export_store srt (map (eo_item export_store) xs :: 'u item list) ns options =
      Listed (filter (\<lambda>x. eo_serves export_store x \<and> options_select options ns (eo_meta export_store x)) xs)"
    by (simp add: se_List_def se_list_items_typed typed_exports_items helpers_select [OF srt])
qed (simp add: st_Watch_def)

lemma typed_slices_items: "typed_slices (map ItemSlice ess) = Some ess"
  by (induction ess) (simp_all add: typed_slices_def)

interpretation slices: store_laws "slice_store exports"
proof unfold_locales
  fix r :: "'u registry" and u_meta :: "'u \<Rightarrow> object_meta" and et and x
  assume live: "reg_live r"
  from handler_ok [OF this, of u_meta "ItemSlice x" "es_meta x" et]
  show "\<exists>r1. eo_handle (slice_store exports) u_meta et x r = Inr r1 \<and> reg_live r1 \<and> reg_ws r1 = reg_ws r \<and>
      length (reg_heap r1) = length (reg_heap r) \<and>
      (\<forall>a < length (reg_heap r). reg_heap r1 ! a =
        (if eo_serves (slice_store exports) x \<and> Some a \<in> set (reg_ws r) \<and>
           sw_selects (reg_heap r ! a) (eo_meta (slice_store exports) x)
         then push (et, eo_item (slice_store exports) x) (reg_heap r ! a) else reg_heap r ! a))"
    unfolding store_sel es_handle_handler using live
    by (cases "hasExport exports x") (simp_all add: item_meta_def split del: if_split)
next
  fix srt :: "requirement list \<Rightarrow> requirement list" and xs ns options
  assume srt: "\<And>rs. set (srt rs) = set rs"
  have "sel_Matches (mergeSelectors srt Everything options) (om_Labels m) \<and>
      field_Matches (defaultFieldSelector options) (ObjectMetaFieldsSet m True) \<and> matchNamespace ns m \<and> b \<longleftrightarrow>
      b \<and> options_select options ns m" for m b
    using helpers_select [OF srt, of options m ns] by blast
  then show "eo_List (slice_store exports) srt (map (eo_item (slice_store exports)) xs :: 'u item list) ns options =
      Listed (filter (\<lambda>x. eo_serves (slice_store exports) x \<and>
        options_select options ns (eo_meta (slice_store exports) x)) xs)"
    by (simp add: es_List_def es_list_items_typed typed_slices_items)
qed (simp add: es_Watch_def)

end
