(* ===== verification/Event_Log.thy ===== *)
theory Event_Log
  imports Prelude
begin

text \<open>
  Logs of writes to a map: the algebra with which the stores, the queues of events and the replicas
  of the two ends of a watch are compared.
\<close>

text \<open>A log of writes to a map: each entry sets a key or, with \<open>None\<close>, removes it. Stores, queues of
  events and replicas are compared through their logs.\<close>

definition put_all :: "('k \<times> 'v option) list \<Rightarrow> ('k \<rightharpoonup> 'v) \<Rightarrow> ('k \<rightharpoonup> 'v)" where
  "put_all ws m = fold (\<lambda>w m. m(fst w := snd w)) ws m"

lemma put_all_simps [simp]:
  "put_all [] m = m" "put_all ((k, v) # ws) m = put_all ws (m(k := v))"
  "put_all (ws @ vs) m = put_all vs (put_all ws m)"
  by (simp_all add: put_all_def)

text \<open>The last write of a key wins.\<close>

lemma put_all_at: "put_all ws m k = (case map_of (rev ws) k of None \<Rightarrow> m k | Some v \<Rightarrow> v)"
proof (induction ws arbitrary: m)
  case (Cons w ws)
  show ?case
    by (cases w) (simp only: put_all_simps Cons.IH, auto simp: map_add_def split: option.split)
qed simp

lemma put_all_untouched: "k \<notin> fst ` set ws \<Longrightarrow> put_all ws m k = m k"
  by (simp add: put_all_at map_of_eq_None_iff [THEN iffD2])

text \<open>Replaying a log over a map that already has its effects changes nothing.\<close>

lemma put_all_idem: "put_all ws (put_all ws m) = put_all ws m"
  by (rule ext) (simp add: put_all_at split: option.split)

lemma put_all_restrict:
  "put_all (filter (\<lambda>w. fst w \<in> K) ws) (m |` K) = put_all ws m |` K"
proof (induction ws arbitrary: m)
  case (Cons w ws)
  obtain k v where w: "w = (k, v)" by (cases w)
  show ?case
  proof (cases "k \<in> K")
    case True
    then have "(m |` K)(k := v) = m(k := v) |` K" by (auto simp: restrict_map_def)
    with True show ?thesis by (simp only: w put_all_simps filter.simps fst_conv if_True Cons.IH)
  next
    case False
    then have "m |` K = m(k := v) |` K" by (auto simp: restrict_map_def)
    with False show ?thesis by (simp only: w put_all_simps filter.simps fst_conv if_False Cons.IH)
  qed
qed simp

lemma put_all_map:
  "put_all (map (\<lambda>w. (fst w, map_option g (snd w))) ws) (\<lambda>k. map_option g (m k)) =
   (\<lambda>k. map_option g (put_all ws m k))"
proof (induction ws arbitrary: m)
  case (Cons w ws)
  obtain k v where w: "w = (k, v)" by (cases w)
  have "(\<lambda>k. map_option g (m k))(k := map_option g v) = (\<lambda>j. map_option g ((m(k := v)) j))" by auto
  then show ?case by (simp only: w put_all_simps list.map fst_conv snd_conv Cons.IH)
qed simp

end
