(* ===== verification/Informer.thy ===== *)
theory Informer
  imports Mirror Event_Log
begin

text \<open>
  The informers of a watcher, as the vendored \<open>client-go/tools/cache\<close> has them: the reflector that
  fills a queue from a list and a watch (\<open>reflector.go\<close>), the queue (\<open>the_real_fifo.go\<close>), and the
  loop that applies the queue to the indexer and tells the handlers (\<open>controller.go\<close>,
  \<open>shared_informer.go\<close>). Objects are of a type \<open>'u\<close> with a key function; the order in which Go lists
  the keys of a map is the argument \<open>order\<close>.
\<close>

section \<open>The queue and the indexer\<close>

datatype delta_type = DAdded | DUpdated | DDeleted | DReplaced | DSync

record 'u delta =
  d_type :: delta_type
  d_obj :: "'u informer_obj"

record 'u informer =
  inf_indexer :: "string \<rightharpoonup> 'u"
  inf_items :: "'u delta list"

definition new_informer :: "'u informer" where
  "new_informer = \<lparr>inf_indexer = Map.empty, inf_items = []\<rparr>"

text \<open>\<open>MetaNamespaceKeyFunc\<close>, and \<open>keyOf\<close>, which also reads the key of a tombstone.\<close>

definition meta_key :: "object_meta \<Rightarrow> string" where
  "meta_key m = (if om_Namespace m = '''' then om_Name m else om_Namespace m @ ''/'' @ om_Name m)"

fun keyOf :: "('u \<Rightarrow> string) \<Rightarrow> 'u informer_obj \<Rightarrow> string option" where
  "keyOf key (Unstructured u) = Some (key u)"
| "keyOf key (DeletedFinalStateUnknown k _) = Some k"
| "keyOf key OtherObj = None"

definition fifo_add :: "delta_type \<Rightarrow> 'u informer_obj \<Rightarrow> 'u informer \<Rightarrow> 'u informer" where
  "fifo_add t obj nf = nf\<lparr>inf_items := inf_items nf @ [\<lparr>d_type = t, d_obj = obj\<rparr>]\<rparr>"

text \<open>\<open>Replace\<close>: deletions for what is queued or known and not among the new items, then the items.\<close>

definition last_queued :: "('u \<Rightarrow> string) \<Rightarrow> 'u delta list \<Rightarrow> string \<Rightarrow> 'u delta option" where
  "last_queued key ds k = find (\<lambda>d. keyOf key (d_obj d) = Some k) (rev ds)"

definition queued_keys :: "('u \<Rightarrow> string) \<Rightarrow> 'u delta list \<Rightarrow> string list" where
  "queued_keys key ds = rev (remdups (rev (List.map_filter (\<lambda>d. keyOf key (d_obj d)) ds)))"

definition queue_deletes :: "('u \<Rightarrow> string) \<Rightarrow> string set \<Rightarrow> 'u delta list \<Rightarrow> 'u delta list" where
  "queue_deletes key newKeys ds =
     List.map_filter (\<lambda>k.
        if k \<in> newKeys then None
        else
          (case last_queued key ds k of
             None \<Rightarrow> None
           | Some d \<Rightarrow>
               if d_type d = DDeleted then None
               else Some \<lparr>d_type = DDeleted, d_obj = DeletedFinalStateUnknown k (d_obj d)\<rparr>))
       (queued_keys key ds)"

definition known_deletes ::
  "('u \<Rightarrow> string) \<Rightarrow> string list \<Rightarrow> string set \<Rightarrow> 'u informer \<Rightarrow> 'u delta list" where
  "known_deletes key knownKeys newKeys nf =
     List.map_filter (\<lambda>k.
        if k \<in> newKeys then None
        else if last_queued key (inf_items nf) k \<noteq> None then None
        else Some \<lparr>d_type = DDeleted, d_obj = DeletedFinalStateUnknown k
               (case inf_indexer nf k of None \<Rightarrow> OtherObj | Some u \<Rightarrow> Unstructured u)\<rparr>)
       knownKeys"

definition fifo_Replace ::
  "('u \<Rightarrow> string) \<Rightarrow> ((string \<rightharpoonup> 'u) \<Rightarrow> string list) \<Rightarrow> 'u list \<Rightarrow> 'u informer \<Rightarrow> 'u informer" where
  "fifo_Replace key order newItems nf =
     (let newKeys = key ` set newItems
      in nf\<lparr>inf_items := inf_items nf @
             queue_deletes key newKeys (inf_items nf) @
             known_deletes key (order (inf_indexer nf)) newKeys nf @
             map (\<lambda>u. \<lparr>d_type = DReplaced, d_obj = Unstructured u\<rparr>) newItems\<rparr>)"

text \<open>\<open>processDeltas\<close> for one delta: the new indexer and what the handlers are told. An update that
  leaves the resource version as it was (\<open>same\<close>) is a resync, which goes to the listeners that are
  syncing only.\<close>

definition processDelta ::
  "('u \<Rightarrow> string) \<Rightarrow> ('u \<Rightarrow> 'u \<Rightarrow> bool) \<Rightarrow> bool \<Rightarrow> 'u delta \<Rightarrow> (string \<rightharpoonup> 'u) \<Rightarrow>
   (string \<rightharpoonup> 'u) \<times> 'u informer_obj notification list" where
  "processDelta key same syncing d idx =
     (if d_type d = DDeleted
      then (case keyOf key (d_obj d) of
              None \<Rightarrow> (idx, [])
            | Some k \<Rightarrow> (idx(k := None), [Deleted (d_obj d)]))
      else
        (case d_obj d of
           Unstructured u \<Rightarrow>
             (case idx (key u) of
                Some old \<Rightarrow>
                  (idx(key u \<mapsto> u),
                   if same old u \<and> \<not> syncing then []
                   else [Updated (Unstructured old) (Unstructured u)])
              | None \<Rightarrow> (idx(key u \<mapsto> u), [Added (Unstructured u)]))
         | _ \<Rightarrow> (idx, [])))"

text \<open>\<open>Pop\<close>: the oldest delta is processed.\<close>

definition fifo_Pop ::
  "('u \<Rightarrow> string) \<Rightarrow> ('u \<Rightarrow> 'u \<Rightarrow> bool) \<Rightarrow> bool \<Rightarrow> 'u informer \<Rightarrow>
   'u informer \<times> 'u informer_obj notification list" where
  "fifo_Pop key same syncing nf =
     (case inf_items nf of
        [] \<Rightarrow> (nf, [])
      | d # ds \<Rightarrow>
          (case processDelta key same syncing d (inf_indexer nf) of
             (idx, ns) \<Rightarrow> (\<lparr>inf_indexer = idx, inf_items = ds\<rparr>, ns)))"

section \<open>The reflector\<close>

text \<open>What a watch delivers; \<open>Bookmark True\<close> is the one that ends the initial events.\<close>

datatype 'u wire_event =
  WireAdded 'u | WireModified 'u | WireDeleted 'u | WireBookmark bool | WireError go_error

datatype watch_end = ContextDone | ChannelClosed bool

text \<open>\<open>ChannelClosed True\<close> when the watch lasted less than a second.\<close>

datatype watch_error = StopRequested | VeryShortWatch | StatusError go_error

text \<open>\<open>handleAnyWatch\<close>, over the store it puts events into.\<close>

fun handleAnyWatch ::
  "bool \<Rightarrow> ('u wire_event \<Rightarrow> 's \<Rightarrow> 's) \<Rightarrow> bool \<Rightarrow> nat \<Rightarrow> 'u wire_event list \<Rightarrow> watch_end \<Rightarrow> 's \<Rightarrow>
   (bool \<times> watch_error option) \<times> 's" where
  "handleAnyWatch exitOnBookmark put bookmark eventCount [] wend s =
     (case wend of
        ContextDone \<Rightarrow> ((bookmark, Some StopRequested), s)
      | ChannelClosed short \<Rightarrow>
          ((bookmark, if short \<and> eventCount = 0 then Some VeryShortWatch else None), s))"
| "handleAnyWatch exitOnBookmark put bookmark eventCount (e # es) wend s =
     (case e of
        WireError err \<Rightarrow> ((bookmark, Some (StatusError err)), s)
      | _ \<Rightarrow>
          (let bookmark1 = (bookmark \<or> e = WireBookmark True); s1 = put e s
           in if exitOnBookmark \<and> bookmark1 then ((bookmark1, None), s1)
              else handleAnyWatch exitOnBookmark put bookmark1 (Suc eventCount) es wend s1))"

text \<open>Into the queue of the informer, and into the temporary store of a watch-list.\<close>

definition fifo_put :: "'u wire_event \<Rightarrow> 'u informer \<Rightarrow> 'u informer" where
  "fifo_put e nf =
     (case e of
        WireAdded u \<Rightarrow> fifo_add DAdded (Unstructured u) nf
      | WireModified u \<Rightarrow> fifo_add DUpdated (Unstructured u) nf
      | WireDeleted u \<Rightarrow> fifo_add DDeleted (Unstructured u) nf
      | _ \<Rightarrow> nf)"

definition temp_put :: "('u \<Rightarrow> string) \<Rightarrow> 'u wire_event \<Rightarrow> (string \<rightharpoonup> 'u) \<Rightarrow> (string \<rightharpoonup> 'u)" where
  "temp_put key e m =
     (case e of
        WireAdded u \<Rightarrow> m(key u \<mapsto> u)
      | WireModified u \<Rightarrow> m(key u \<mapsto> u)
      | WireDeleted u \<Rightarrow> m(key u := None)
      | _ \<Rightarrow> m)"

text \<open>The loop of \<open>watchList\<close> over the attempts made so far; \<open>retriable\<close> is the test for the errors
  after which it tries again.\<close>

datatype 'u attempt = OpenFails go_error | Stream "'u wire_event list" watch_end

datatype 'u watchlist_result =
  WaitingForBookmark | WatchListStopped | WatchListFailed watch_error | Synced "string \<rightharpoonup> 'u"

fun watchList ::
  "('u \<Rightarrow> string) \<Rightarrow> (watch_error \<Rightarrow> bool) \<Rightarrow> 'u attempt list \<Rightarrow> 'u watchlist_result" where
  "watchList key retriable [] = WaitingForBookmark"
| "watchList key retriable (OpenFails err # as) =
     (if retriable (StatusError err) then watchList key retriable as
      else WatchListFailed (StatusError err))"
| "watchList key retriable (Stream es wend # as) =
     (case handleAnyWatch True (temp_put key) False 0 es wend Map.empty of
        ((received, Some err), tmp) \<Rightarrow>
          (if err = StopRequested then WatchListStopped
           else if retriable err then watchList key retriable as
           else WatchListFailed err)
      | ((received, None), tmp) \<Rightarrow> if received then Synced tmp else watchList key retriable as)"

text \<open>\<open>ListAndWatch\<close> up to the point where the queue is filled and the events of the watch follow;
  \<open>listing\<close> is what the list request returns.\<close>

datatype reflector_phase = FetchingInitial | ReflectorReturned "go_error option" | Watching

definition refl_list ::
  "('u \<Rightarrow> string) \<Rightarrow> ((string \<rightharpoonup> 'u) \<Rightarrow> string list) \<Rightarrow> 'u list go_result \<Rightarrow> 'u informer \<Rightarrow>
   reflector_phase \<times> 'u informer" where
  "refl_list key order listing nf =
     (case listing of
        Inl err \<Rightarrow> (ReflectorReturned (Some (Wrapf ''failed to list *unstructured.Unstructured'' err)), nf)
      | Inr items \<Rightarrow> (Watching, fifo_Replace key order items nf))"

definition ListAndWatch ::
  "bool \<Rightarrow> ('u \<Rightarrow> string) \<Rightarrow> ((string \<rightharpoonup> 'u) \<Rightarrow> string list) \<Rightarrow> (watch_error \<Rightarrow> bool) \<Rightarrow>
   'u attempt list \<Rightarrow> 'u list go_result \<Rightarrow> 'u informer \<Rightarrow> reflector_phase \<times> 'u informer" where
  "ListAndWatch useWatchList key order retriable attempts listing nf =
     (if \<not> useWatchList then refl_list key order listing nf
      else
        (case watchList key retriable attempts of
           WaitingForBookmark \<Rightarrow> (FetchingInitial, nf)
         | WatchListStopped \<Rightarrow> (ReflectorReturned None, nf)
         | WatchListFailed _ \<Rightarrow> refl_list key order listing nf
         | Synced tmp \<Rightarrow> (Watching, fifo_Replace key order (map (the \<circ> tmp) (order tmp)) nf)))"

section \<open>The replica behind an informer\<close>

text \<open>What a delta does to the indexer, as a log, and the indexer once the queue is drained.\<close>

definition delta_writes :: "('u \<Rightarrow> string) \<Rightarrow> 'u delta \<Rightarrow> (string \<times> 'u option) list" where
  "delta_writes key d =
     (case keyOf key (d_obj d) of
        None \<Rightarrow> []
      | Some k \<Rightarrow>
          if d_type d = DDeleted then [(k, None)]
          else (case d_obj d of Unstructured u \<Rightarrow> [(k, Some u)] | _ \<Rightarrow> []))"

definition queue_log :: "('u \<Rightarrow> string) \<Rightarrow> 'u delta list \<Rightarrow> (string \<times> 'u option) list" where
  "queue_log key ds = concat (map (delta_writes key) ds)"

definition replica :: "('u \<Rightarrow> string) \<Rightarrow> 'u informer \<Rightarrow> (string \<rightharpoonup> 'u)" where
  "replica key nf = put_all (queue_log key (inf_items nf)) (inf_indexer nf)"

definition wire_writes :: "('u \<Rightarrow> string) \<Rightarrow> 'u wire_event \<Rightarrow> (string \<times> 'u option) list" where
  "wire_writes key e =
     (case e of
        WireAdded u \<Rightarrow> [(key u, Some u)]
      | WireModified u \<Rightarrow> [(key u, Some u)]
      | WireDeleted u \<Rightarrow> [(key u, None)]
      | _ \<Rightarrow> [])"

lemma queue_log_simps [simp]:
  "queue_log key [] = []" "queue_log key (d # ds) = delta_writes key d @ queue_log key ds"
  "queue_log key (ds @ es) = queue_log key ds @ queue_log key es"
  by (simp_all add: queue_log_def)

lemma processDelta_index: "fst (processDelta key same syncing d idx) = put_all (delta_writes key d) idx"
  by (cases "d_obj d") (auto simp: processDelta_def delta_writes_def split: option.split)

lemma replica_Pop [simp]: "replica key (fst (fifo_Pop key same syncing nf)) = replica key nf"
proof (cases "inf_items nf")
  case (Cons d ds)
  show ?thesis
    using processDelta_index [of key same syncing d "inf_indexer nf"]
    by (cases "processDelta key same syncing d (inf_indexer nf)")
       (simp add: fifo_Pop_def Cons replica_def)
qed (simp add: fifo_Pop_def replica_def)

lemma replica_put: "replica key (fifo_put e nf) = put_all (wire_writes key e) (replica key nf)"
  by (cases e)
     (simp_all add: fifo_put_def fifo_add_def replica_def wire_writes_def delta_writes_def)

lemma replica_drained: "inf_items nf = [] \<Longrightarrow> replica key nf = inf_indexer nf"
  by (simp add: replica_def)

text \<open>\<open>Replace\<close> leaves exactly the new items, whatever is queued or known.\<close>

lemma put_deletes:
  assumes "\<forall>w \<in> set ws. snd w = None"
  shows "put_all ws m k = (if k \<in> fst ` set ws then None else m k)"
  using assms by (induction ws arbitrary: m) (auto simp: rev_image_eqI)

lemma last_queued_snoc:
  "last_queued key (ds @ [d]) k =
     (if keyOf key (d_obj d) = Some k then Some d else last_queued key ds k)"
  by (simp add: last_queued_def)

lemma queue_log_last_deleted:
  "last_queued key ds k = Some d \<Longrightarrow> d_type d = DDeleted \<Longrightarrow> put_all (queue_log key ds) m k = None"
proof (induction ds rule: rev_induct)
  case (snoc e ds)
  then show ?case
    by (auto simp: last_queued_snoc delta_writes_def split: if_splits option.split informer_obj.split)
qed (simp add: last_queued_def)

lemma queue_log_untouched:
  "last_queued key ds k = None \<Longrightarrow> put_all (queue_log key ds) m k = m k"
proof (induction ds rule: rev_induct)
  case (snoc e ds)
  then show ?case
    by (auto simp: last_queued_snoc delta_writes_def split: if_splits option.split informer_obj.split)
qed (simp add: last_queued_def)

lemma last_queued_key: "last_queued key ds k = Some d \<Longrightarrow> k \<in> set (queued_keys key ds)"
proof (induction ds rule: rev_induct)
  case (snoc e ds)
  then show ?case
    by (auto simp: last_queued_snoc queued_keys_def List.map_filter_def split: if_splits)
qed (simp add: last_queued_def)

lemma set_map_filter_iff: "y \<in> set (List.map_filter f xs) \<longleftrightarrow> (\<exists>x \<in> set xs. f x = Some y)"
  by (induction xs) (auto simp: List.map_filter_simps split: option.split)

lemma deletes_delete:
  "d \<in> set (queue_deletes key newKeys ds) \<or> d \<in> set (known_deletes key ks newKeys nf) \<Longrightarrow>
   d_type d = DDeleted"
  by (auto simp: queue_deletes_def known_deletes_def set_map_filter_iff split: option.splits if_splits)

lemma queue_log_deletes:
  assumes "\<forall>d \<in> set ds. d_type d = DDeleted"
  shows "put_all (queue_log key ds) m k =
    (if \<exists>d \<in> set ds. keyOf key (d_obj d) = Some k then None else m k)"
proof -
  have "\<forall>w \<in> set (queue_log key ds). snd w = None" "fst ` set (queue_log key ds) = {k. \<exists>d \<in> set ds. keyOf key (d_obj d) = Some k}"
    using assms by (induction ds) (auto simp: delta_writes_def split: option.splits)
  then show ?thesis by (simp add: put_deletes)
qed

lemma replaced_log:
  "queue_log key (map (\<lambda>u. \<lparr>d_type = DReplaced, d_obj = Unstructured u\<rparr>) us) =
   map (\<lambda>u. (key u, Some u)) us"
  by (induction us) (simp_all add: delta_writes_def)

lemma replica_Replace:
  assumes order: "set (order (inf_indexer nf)) = dom (inf_indexer nf)"
  shows "replica key (fifo_Replace key order us nf) = put_all (map (\<lambda>u. (key u, Some u)) us) Map.empty"
proof (rule ext)
  fix k
  let ?new = "key ` set us" and ?ws = "map (\<lambda>u. (key u, Some u)) us"
  let ?qd = "queue_deletes key ?new (inf_items nf)"
  let ?kd = "known_deletes key (order (inf_indexer nf)) ?new nf"
  let ?m = "put_all (queue_log key ?kd) (put_all (queue_log key ?qd) (replica key nf))"
  have l: "replica key (fifo_Replace key order us nf) = put_all ?ws ?m"
    by (simp add: replica_def fifo_Replace_def Let_def replaced_log)
  show "replica key (fifo_Replace key order us nf) k = put_all ?ws Map.empty k"
  proof (cases "k \<in> ?new")
    case True
    then have "map_of (rev ?ws) k \<noteq> None" by (auto simp: map_of_eq_None_iff image_image)
    then show ?thesis unfolding l by (auto simp: put_all_at)
  next
    case False
    have del: "\<forall>d \<in> set ?qd. d_type d = DDeleted" "\<forall>d \<in> set ?kd. d_type d = DDeleted"
      using deletes_delete by blast+
    have "?m k = None"
    proof (cases "last_queued key (inf_items nf) k")
      case None
      then have "replica key nf k = inf_indexer nf k" by (simp add: replica_def queue_log_untouched)
      moreover have "\<exists>d \<in> set ?kd. keyOf key (d_obj d) = Some k" if "inf_indexer nf k = Some u" for u
        using that None False order by (force simp: known_deletes_def set_map_filter_iff)
      ultimately show ?thesis
        by (cases "inf_indexer nf k") (auto simp: queue_log_deletes [OF del(1)] queue_log_deletes [OF del(2)])
    next
      case (Some d)
      show ?thesis
      proof (cases "d_type d = DDeleted")
        case True
        from queue_log_last_deleted [OF Some True] show ?thesis
          by (simp add: replica_def queue_log_deletes [OF del(1)] queue_log_deletes [OF del(2)])
      next
        case nd: False
        have "\<exists>d \<in> set ?qd. keyOf key (d_obj d) = Some k"
          using Some nd False last_queued_key [OF Some] by (force simp: queue_deletes_def set_map_filter_iff)
        then show ?thesis by (simp add: queue_log_deletes [OF del(1)] queue_log_deletes [OF del(2)])
      qed
    qed
    then show ?thesis unfolding l using False by (simp add: put_all_untouched image_image)
  qed
qed

section \<open>Handlers that follow the indexer\<close>

text \<open>What the handlers of a client of the informer promise: an object that is added or updated shows
  under its key, if it can be shown at all, and one that is deleted does not; nothing else changes.\<close>

locale informer_consumer =
  fixes key :: "'u \<Rightarrow> string" and good :: "'u \<Rightarrow> bool" and want :: "'u \<Rightarrow> 'x option"
    and handle :: "'u informer_obj notification \<Rightarrow> 's \<Rightarrow> 's" and view_at :: "'s \<Rightarrow> string \<Rightarrow> 'x option"
  assumes handle_add: "good u \<Longrightarrow> view_at (handle (Added (Unstructured u)) s) k =
      (if k = key u \<and> want u \<noteq> None then want u else view_at s k)"
    and handle_update: "good u \<Longrightarrow> view_at (handle (Updated old (Unstructured u)) s) k =
      (if k = key u \<and> want u \<noteq> None then want u else view_at s k)"
    and handle_delete: "good u \<Longrightarrow> view_at (handle (Deleted (Unstructured u)) s) k =
      (if k = key u then None else view_at s k)"
    and handle_tombstone:
      "good u \<Longrightarrow> view_at (handle (Deleted (DeletedFinalStateUnknown j (Unstructured u))) s) k =
      (if k = key u then None else view_at s k)"
begin

text \<open>The view agrees with an indexer: nothing shows that is not there, what is there and can be
  shown does, and whatever shows is what some good object of that key is to show. So an object that
  cannot be shown leaves what an earlier version of it has shown, if anything.\<close>

definition agrees :: "(string \<rightharpoonup> 'u) \<Rightarrow> 's \<Rightarrow> bool" where
  "agrees idx s =
     ((\<forall>k. idx k = None \<longrightarrow> view_at s k = None) \<and>
      (\<forall>k u. idx k = Some u \<longrightarrow> want u \<noteq> None \<longrightarrow> view_at s k = want u) \<and>
      (\<forall>k x. view_at s k = Some x \<longrightarrow> (\<exists>u. good u \<and> key u = k \<and> want u = Some x)))"

definition indexed :: "(string \<rightharpoonup> 'u) \<Rightarrow> bool" where
  "indexed idx = (\<forall>k u. idx k = Some u \<longrightarrow> key u = k \<and> good u)"

fun good_delta :: "'u delta \<Rightarrow> bool" where
  "good_delta d =
     (case d_obj d of
        Unstructured u \<Rightarrow> good u
      | DeletedFinalStateUnknown k (Unstructured u) \<Rightarrow> d_type d = DDeleted \<and> key u = k \<and> good u
      | _ \<Rightarrow> False)"

lemma agreesD:
  "agrees idx s \<Longrightarrow> idx k = None \<Longrightarrow> view_at s k = None"
  "agrees idx s \<Longrightarrow> idx k = Some u \<Longrightarrow> want u = Some x \<Longrightarrow> view_at s k = Some x"
  "agrees idx s \<Longrightarrow> view_at s k = Some x \<Longrightarrow> \<exists>u. good u \<and> key u = k \<and> want u = Some x"
  by (simp_all add: agrees_def)

lemma agrees_put:
  assumes "agrees idx s" "good u" "\<And>j. view_at s1 j = (if j = key u \<and> want u \<noteq> None then want u else view_at s j)"
  shows "agrees (idx(key u \<mapsto> u)) s1"
  using assms by (auto simp: agrees_def)

lemma agrees_remove:
  assumes "agrees idx s" "\<And>j. view_at s1 j = (if j = k then None else view_at s j)"
  shows "agrees (idx(k := None)) s1"
  using assms by (auto simp: agrees_def)

text \<open>One delta: the handlers keep up with the indexer. An update that is not delivered because the
  resource version is the same would change nothing, since then the object is the same.\<close>

lemma process_agrees:
  assumes d: "good_delta d" and idx: "agrees idx s" "indexed idx"
    and same: "\<And>old u. same old u \<Longrightarrow> old = u"
    and p: "processDelta key same syncing d idx = (idx1, ns)"
  shows "agrees idx1 (fold handle ns s) \<and> indexed idx1"
proof (cases "d_type d = DDeleted")
  case True
  then obtain u where u: "good u" "keyOf key (d_obj d) = Some (key u)"
      "\<And>k. view_at (handle (Deleted (d_obj d)) s) k = (if k = key u then None else view_at s k)"
    using d handle_delete handle_tombstone by (auto split: informer_obj.splits)
  have "agrees (idx(key u := None)) (handle (Deleted (d_obj d)) s)"
    by (rule agrees_remove [OF idx(1) u(3)])
  moreover have "indexed (idx(key u := None))" using idx(2) by (simp add: indexed_def)
  ultimately show ?thesis using p True u(2) by (auto simp: processDelta_def)
next
  case False
  then obtain u where u: "d_obj d = Unstructured u" "good u"
    using d by (auto split: informer_obj.splits)
  have i: "indexed (idx(key u \<mapsto> u))" using idx(2) u(2) by (auto simp: indexed_def)
  have added: "agrees (idx(key u \<mapsto> u)) (handle (Added (Unstructured u)) s)"
    by (rule agrees_put [OF idx(1) u(2)]) (rule handle_add [OF u(2)])
  have updated: "agrees (idx(key u \<mapsto> u)) (handle (Updated old (Unstructured u)) s)" for old
    by (rule agrees_put [OF idx(1) u(2)]) (rule handle_update [OF u(2)])
  have "agrees (idx(key u \<mapsto> u)) s" if "idx (key u) = Some u"
    using idx(1) that by (simp add: fun_upd_idem)
  with p False u(1) i added updated same show ?thesis
    by (auto simp: processDelta_def split: option.splits if_splits)
qed

end

section \<open>A server without initial events\<close>

text \<open>The attempts a server answers with a stream of object events, without bookmarks or errors, each
  watch lasting a second or bringing an event.\<close>

definition plain_event :: "'u wire_event \<Rightarrow> bool" where
  "plain_event e = (case e of WireBookmark _ \<Rightarrow> False | WireError _ \<Rightarrow> False | _ \<Rightarrow> True)"

definition plain_attempt :: "'u attempt \<Rightarrow> bool" where
  "plain_attempt a =
     (case a of
        OpenFails _ \<Rightarrow> False
      | Stream es wend \<Rightarrow>
          list_all plain_event es \<and> wend \<noteq> ContextDone \<and> (wend = ChannelClosed True \<longrightarrow> es \<noteq> []))"

lemma handleAnyWatch_plain:
  assumes "list_all plain_event es" "wend \<noteq> ContextDone"
    "wend = ChannelClosed True \<longrightarrow> es \<noteq> [] \<or> n \<noteq> 0"
  shows "fst (handleAnyWatch exit_bm put False n es wend s) = (False, None)"
  using assms
proof (induction es arbitrary: n s)
  case Nil
  then show ?case by (cases wend) auto
next
  case (Cons e es)
  then show ?case by (cases e) (auto simp: plain_event_def Let_def)
qed

lemma watchList_plain: "list_all plain_attempt as \<Longrightarrow> watchList key retriable as = WaitingForBookmark"
proof (induction as)
  case (Cons a as)
  then obtain es wend where a: "a = Stream es wend" "list_all plain_event es" "wend \<noteq> ContextDone"
      "wend = ChannelClosed True \<longrightarrow> es \<noteq> []"
    by (auto simp: plain_attempt_def split: attempt.splits)
  have "fst (handleAnyWatch True (temp_put key) False 0 es wend Map.empty) = (False, None)"
    by (rule handleAnyWatch_plain [OF a(2,3)]) (use a(4) in blast)
  then show ?case using Cons a(1)
    by (cases "handleAnyWatch True (temp_put key) False 0 es wend Map.empty") simp
qed simp

lemma ListAndWatch_plain:
  "list_all plain_attempt as \<Longrightarrow>
   ListAndWatch True key order retriable as listing nf = (FetchingInitial, nf)"
  by (simp add: ListAndWatch_def watchList_plain)

end
