(* ===== verification/Feed.thy ===== *)
theory Feed
  imports Emitter_Store Informer "HOL-Library.Char_ord" "HOL-Library.List_Lexorder"
begin

text \<open>
  An emitter and one informer of a remote watcher, end to end: a store of \<open>pkg/storage/storage.go\<close>,
  of exports or of slices, between the emitter's informer, which is ahead of the handler it calls,
  and the reflector of a client, which lists, then watches, and drains what it receives. The steps
  interleave freely. The client of the model lists and then watches, as a reflector does outside the
  watch-list mode; \<open>watchlist_never_syncs\<close> says what that mode does.
\<close>

text \<open>What the libraries in between contribute: the options and the namespace of the requests, the sort
  of \<open>labels.Selector.Add\<close>, the order in which a store lists its items and its keys, the encoding of
  an item on the wire, and how the client reads keys and compares resource versions.\<close>

record ('o, 'u) wiring =
  wr_store :: "('o, 'u) emitter_store"
  wr_options :: "internal_list_options option"
  wr_ns :: string
  wr_srt :: "requirement list \<Rightarrow> requirement list"
  wr_items :: "(string \<rightharpoonup> 'o) \<Rightarrow> 'o list"
  wr_encode :: "'u item \<Rightarrow> 'u"
  wr_umeta :: "'u \<Rightarrow> object_meta"
  wr_key :: "'u \<Rightarrow> string"
  wr_order :: "(string \<rightharpoonup> 'u) \<Rightarrow> string list"
  wr_same :: "'u \<Rightarrow> 'u \<Rightarrow> bool"

record ('o, 'u) feed =
  fd_store :: "string \<rightharpoonup> 'o"
  fd_pend :: "(event_type \<times> 'o) list"
  fd_reg :: "'u registry"
  fd_watch :: "nat option"
  fd_inf :: "'u informer"
  fd_notes :: "'u informer_obj notification list"

definition start_feed :: "'u registry \<Rightarrow> ('o, 'u) feed" where
  "start_feed r = \<lparr>fd_store = Map.empty, fd_pend = [], fd_reg = r, fd_watch = None,
     fd_inf = new_informer, fd_notes = []\<rparr>"

definition wr_name :: "('o, 'u) wiring \<Rightarrow> 'o \<Rightarrow> string" where
  "wr_name wr x = meta_key (eo_meta (wr_store wr) x)"

definition se_name :: "service_export \<Rightarrow> string" where
  "se_name se = meta_key (se_meta se)"

definition es_name :: "endpoint_slice \<Rightarrow> string" where
  "es_name es = meta_key (es_meta es)"

text \<open>One step of one of the parties. The emitter's informer stores an export or drops it and queues
  a notification (\<open>Upsert\<close>, \<open>Remove\<close>), which it delivers later (\<open>Notify\<close>); the client lists, watches,
  takes an event off its channel, or processes a delta. The code reads the list of watchers before it
  takes the lock and delivers under it. Here this is one step: a watcher that stops in between is the business
  of \<open>Registry_Runs\<close>, and one that is added in between is not in the list, as if it had come after
  the step.\<close>

datatype 'o feed_action =
  Upsert 'o | Remove 'o | Notify | DoList | DoWatch | Receive | PopDelta bool

definition wire :: "event_type \<Rightarrow> 'u \<Rightarrow> 'u wire_event" where
  "wire et u = (case et of EventAdded \<Rightarrow> WireAdded u | EventModified \<Rightarrow> WireModified u
     | EventDeleted \<Rightarrow> WireDeleted u)"

definition feed_list :: "('o, 'u) wiring \<Rightarrow> ('o, 'u) feed \<Rightarrow> panic + ('o, 'u) feed" where
  "feed_list wr st =
     (case eo_List (wr_store wr) (wr_srt wr) (map (eo_item (wr_store wr)) (wr_items wr (fd_store st)) :: 'u item list)
             (wr_ns wr) (wr_options wr) of
        NotReady \<Rightarrow> Inr st
      | ListPanic p \<Rightarrow> Inl p
      | Listed ses \<Rightarrow>
          Inr (st\<lparr>fd_inf := snd (ListAndWatch False (wr_key wr) (wr_order wr) (\<lambda>_. False) []
                 (Inr (map (\<lambda>x. wr_encode wr (eo_item (wr_store wr) x)) ses)) (fd_inf st))\<rparr>))"

definition take_event :: "nat \<Rightarrow> 'u registry \<Rightarrow> 'u registry" where
  "take_event a r =
     (let w = reg_heap r ! a
      in r\<lparr>reg_heap := (reg_heap r)[a := w\<lparr>sw_ch := snd (chan_recv (sw_ch w))\<rparr>]\<rparr>)"

definition feed_receive :: "('o, 'u) wiring \<Rightarrow> ('o, 'u) feed \<Rightarrow> ('o, 'u) feed" where
  "feed_receive wr st =
     (case fd_watch st of
        None \<Rightarrow> st
      | Some a \<Rightarrow>
          (case fst (chan_recv (sw_ch (reg_heap (fd_reg st) ! a))) of
             None \<Rightarrow> st
           | Some (et, it) \<Rightarrow>
               st\<lparr>fd_reg := take_event a (fd_reg st),
                  fd_inf := fifo_put (wire et (wr_encode wr it)) (fd_inf st)\<rparr>))"

text \<open>What a watch request streams: the content of the channel, encoded.\<close>

definition served :: "('o, 'u) wiring \<Rightarrow> 'u chan \<Rightarrow> 'u wire_event list" where
  "served wr ch = map (\<lambda>(et, it). wire et (wr_encode wr it)) (ch_buf ch)"

definition feed_step :: "('o, 'u) wiring \<Rightarrow> 'o feed_action \<Rightarrow> ('o, 'u) feed \<Rightarrow> panic + ('o, 'u) feed" where
  "feed_step wr act st =
     (case act of
        Upsert x \<Rightarrow>
          Inr (st\<lparr>fd_store := (fd_store st)(wr_name wr x \<mapsto> x),
                 fd_pend := fd_pend st @
                   [(if fd_store st (wr_name wr x) = None then EventAdded else EventModified, x)]\<rparr>)
      | Remove x \<Rightarrow>
          Inr (st\<lparr>fd_store := (fd_store st)(wr_name wr x := None),
                 fd_pend := fd_pend st @ [(EventDeleted, x)]\<rparr>)
      | Notify \<Rightarrow>
          (case fd_pend st of
             [] \<Rightarrow> Inr st
           | (et, x) # rest \<Rightarrow>
               (case eo_handle (wr_store wr) (wr_umeta wr) et x (fd_reg st) of
                  Inl p \<Rightarrow> Inl p
                | Inr r \<Rightarrow> Inr (st\<lparr>fd_pend := rest, fd_reg := r\<rparr>)))
      | DoList \<Rightarrow> feed_list wr st
      | DoWatch \<Rightarrow>
          (case eo_Watch (wr_store wr) (wr_srt wr) (wr_ns wr) (wr_options wr) (fd_reg st) of
             (a, r) \<Rightarrow> Inr (st\<lparr>fd_watch := Some a, fd_reg := r\<rparr>))
      | Receive \<Rightarrow> Inr (feed_receive wr st)
      | PopDelta syncing \<Rightarrow>
          (case fifo_Pop (wr_key wr) (wr_same wr) syncing (fd_inf st) of
             (nf, ns) \<Rightarrow> Inr (st\<lparr>fd_inf := nf, fd_notes := fd_notes st @ ns\<rparr>)))"

fun feed_run :: "('o, 'u) wiring \<Rightarrow> 'o feed_action list \<Rightarrow> ('o, 'u) feed \<Rightarrow> panic + ('o, 'u) feed" where
  "feed_run wr [] st = Inr st"
| "feed_run wr (act # acts) st =
     (case feed_step wr act st of Inl p \<Rightarrow> Inl p | Inr st1 \<Rightarrow> feed_run wr acts st1)"

lemma feed_run_append:
  "feed_run wr (as @ bs) st =
     (case feed_run wr as st of Inl p \<Rightarrow> Inl p | Inr st1 \<Rightarrow> feed_run wr bs st1)"
  by (induction as arbitrary: st) (auto split: sum.split)

section \<open>What the client should hold\<close>

definition selects :: "('o, 'u) wiring \<Rightarrow> 'o \<Rightarrow> bool" where
  "selects wr x = (eo_serves (wr_store wr) x \<and> options_select (wr_options wr) (wr_ns wr) (eo_meta (wr_store wr) x))"

definition expected :: "('o, 'u) wiring \<Rightarrow> (string \<rightharpoonup> 'o) \<Rightarrow> (string \<rightharpoonup> 'u)" where
  "expected wr m k =
     (case m k of
        None \<Rightarrow> None
      | Some x \<Rightarrow> if selects wr x then Some (wr_encode wr (eo_item (wr_store wr) x)) else None)"

text \<open>Nothing is on its way to the client.\<close>

definition drained :: "('o, 'u) feed \<Rightarrow> bool" where
  "drained st =
     (fd_pend st = [] \<and> inf_items (fd_inf st) = [] \<and>
      (case fd_watch st of None \<Rightarrow> True | Some a \<Rightarrow> ch_buf (sw_ch (reg_heap (fd_reg st) ! a)) = []))"

text \<open>The channel of the client has room whenever a notification is delivered.\<close>

definition has_room :: "('o, 'u) feed \<Rightarrow> bool" where
  "has_room st =
     (case fd_watch st of None \<Rightarrow> True
      | Some a \<Rightarrow> length (ch_buf (sw_ch (reg_heap (fd_reg st) ! a))) < chan_cap)"

fun roomy :: "('o, 'u) wiring \<Rightarrow> 'o feed_action list \<Rightarrow> ('o, 'u) feed \<Rightarrow> bool" where
  "roomy wr [] st = True"
| "roomy wr (act # acts) st =
     ((act = Notify \<longrightarrow> has_room st) \<and>
      (case feed_step wr act st of Inl p \<Rightarrow> True | Inr st1 \<Rightarrow> roomy wr acts st1))"

definition exports_of :: "'o feed_action list \<Rightarrow> 'o set" where
  "exports_of acts = {x. Upsert x \<in> set acts \<or> Remove x \<in> set acts}"

text \<open>No export moves in or out of the selection of the client.\<close>

definition stable_selection :: "('o, 'u) wiring \<Rightarrow> 'o feed_action list \<Rightarrow> bool" where
  "stable_selection wr acts =
     (\<forall>x \<in> exports_of acts. \<forall>x' \<in> exports_of acts.
        wr_name wr x = wr_name wr x' \<longrightarrow> selects wr x = selects wr x')"

definition emitter_side :: "'o feed_action \<Rightarrow> bool" where
  "emitter_side act = (case act of Upsert _ \<Rightarrow> True | Remove _ \<Rightarrow> True | Notify \<Rightarrow> True | _ \<Rightarrow> False)"

section \<open>Lemmas on the parts\<close>

lemma reg_live_take:
  assumes "reg_live r"
  shows "reg_live (take_event a r)"
proof -
  have "sw_live (take_event a r) j b" if "sw_live r j b" for j b
    using that by (cases "b = a") (auto simp: sw_live_def take_event_def chan_recv_def Let_def split: list.split)
  then show ?thesis using assms by (fastforce simp: reg_live_def take_event_def Let_def)
qed

lemma receive_simps:
  "fd_watch st = None \<Longrightarrow> feed_receive wr st = st"
  "fd_watch st = Some a \<Longrightarrow> ch_buf (sw_ch (reg_heap (fd_reg st) ! a)) = [] \<Longrightarrow> feed_receive wr st = st"
  "fd_watch st = Some a \<Longrightarrow> ch_buf (sw_ch (reg_heap (fd_reg st) ! a)) = (et, it) # rest \<Longrightarrow>
   feed_receive wr st = st\<lparr>fd_reg := take_event a (fd_reg st),
     fd_inf := fifo_put (wire et (wr_encode wr it)) (fd_inf st)\<rparr>"
  by (simp_all add: feed_receive_def chan_recv_def)

lemma fifo_put_indexer [simp]: "inf_indexer (fifo_put e nf) = inf_indexer nf"
  by (cases e) (simp_all add: fifo_put_def fifo_add_def)

text \<open>An event as a write to the emitter's store.\<close>

definition ev_write :: "('o, 'u) wiring \<Rightarrow> event_type \<times> 'o \<Rightarrow> string \<times> 'o option" where
  "ev_write wr e = (wr_name wr (snd e), if fst e = EventDeleted then None else Some (snd e))"

lemma fst_ev_write [simp]: "fst (ev_write wr e) = wr_name wr (snd e)"
  by (simp add: ev_write_def)

section \<open>The laws of the libraries\<close>

locale feed_libs =
  fixes wr :: "('o, 'u) wiring"
  assumes srt: "set (wr_srt wr rs) = set rs"
    and items: "finite (dom m) \<Longrightarrow> set (wr_items wr m) = ran m"
    and order: "finite (dom idx) \<Longrightarrow> set (wr_order wr idx) = dom idx"
    and encoded_key: "wr_key wr (wr_encode wr (eo_item (wr_store wr) x)) = wr_name wr x"
    and same: "wr_same wr old u \<Longrightarrow> old = u"

locale feed_wiring = feed_libs wr + store_laws "wr_store wr" for wr :: "('o, 'u) wiring"
begin

abbreviation E where "E x \<equiv> wr_encode wr (eo_item (wr_store wr) x)"

abbreviation shown where "shown K m \<equiv> (\<lambda>k. map_option E ((m |` K) k))"

definition cw :: "event_type \<times> 'o \<Rightarrow> string \<times> 'u option" where
  "cw e = (fst (ev_write wr e), map_option E (snd (ev_write wr e)))"

lemma wire_cw: "wire_writes (wr_key wr) (wire et (E x)) = [cw (et, x)]"
  by (cases et) (simp_all add: wire_writes_def wire_def cw_def ev_write_def encoded_key)

lemma expected_shown:
  "(\<And>k x. m k = Some x \<Longrightarrow> selects wr x = (k \<in> K)) \<Longrightarrow> expected wr m = shown K m"
  by (rule ext) (auto simp: expected_def restrict_map_def split: option.split)

text \<open>Replaying the selected events over what the client is shown gives what it is to be shown.\<close>

lemma replay_shown:
  assumes "\<And>et x. (et, x) \<in> set es \<Longrightarrow> selects wr x = (wr_name wr x \<in> K)"
  shows "put_all (map cw (filter (\<lambda>e. selects wr (snd e)) es)) (shown K m) =
    shown K (put_all (map (ev_write wr) es) m)"
proof -
  have f: "filter (\<lambda>e. selects wr (snd e)) es = filter (\<lambda>e. fst (ev_write wr e) \<in> K) es"
    by (rule filter_cong [OF refl]) (use assms in auto)
  have "map cw (filter (\<lambda>e. fst (ev_write wr e) \<in> K) es) =
      map (\<lambda>w. (fst w, map_option E (snd w))) (filter (\<lambda>w. fst w \<in> K) (map (ev_write wr) es))"
    by (simp add: filter_map comp_def cw_def)
  then show ?thesis unfolding f by (simp only: put_all_map put_all_restrict)
qed

text \<open>The invariant of the emitter, for the set \<open>K\<close> of the names that are selected.\<close>

definition steady :: "string set \<Rightarrow> ('o, 'u) feed \<Rightarrow> bool" where
  "steady K st =
     (reg_live (fd_reg st) \<and> finite (dom (fd_store st)) \<and> finite (dom (inf_indexer (fd_inf st))) \<and>
      (\<forall>k x. fd_store st k = Some x \<longrightarrow> wr_name wr x = k \<and> selects wr x = (k \<in> K)) \<and>
      (\<forall>et x. (et, x) \<in> set (fd_pend st) \<longrightarrow> selects wr x = (wr_name wr x \<in> K)))"

definition knows :: "string set \<Rightarrow> 'o feed_action \<Rightarrow> bool" where
  "knows K act = (\<forall>x. act \<in> {Upsert x, Remove x} \<longrightarrow> selects wr x = (wr_name wr x \<in> K))"

lemma list_request:
  "feed_list wr st = Inr (st\<lparr>fd_inf := fifo_Replace (wr_key wr) (wr_order wr)
     (map E (filter (selects wr) (wr_items wr (fd_store st)))) (fd_inf st)\<rparr>)"
proof -
  have "eo_List (wr_store wr) (wr_srt wr) (map (eo_item (wr_store wr)) (wr_items wr (fd_store st)) :: 'u item list) (wr_ns wr)
      (wr_options wr) = Listed (filter (selects wr) (wr_items wr (fd_store st)))"
    using list_selects [of "wr_srt wr", OF srt] by (simp add: selects_def [abs_def])
  then show ?thesis by (simp add: feed_list_def ListAndWatch_def refl_list_def)
qed

lemma list_ok:
  assumes "steady K st"
  shows "\<exists>nf. feed_list wr st = Inr (st\<lparr>fd_inf := nf\<rparr>) \<and> inf_indexer nf = inf_indexer (fd_inf st) \<and>
    replica (wr_key wr) nf = shown K (fd_store st)"
proof -
  let ?m = "fd_store st"
  let ?ses = "filter (selects wr) (wr_items wr ?m)"
  let ?us = "map E ?ses"
  let ?nf = "fifo_Replace (wr_key wr) (wr_order wr) ?us (fd_inf st)"
  have fin: "finite (dom ?m)" "finite (dom (inf_indexer (fd_inf st)))"
    and m: "\<And>k x. ?m k = Some x \<Longrightarrow> wr_name wr x = k \<and> selects wr x = (k \<in> K)"
    using assms by (auto simp: steady_def)
  note l = list_request [of st]
  let ?ws = "map (\<lambda>u. (wr_key wr u, Some u)) ?us"
  have ses: "x \<in> set ?ses \<longleftrightarrow> ?m (wr_name wr x) = Some x \<and> wr_name wr x \<in> K" for x
    using items [OF fin(1)] m by (auto simp: ran_def)
  have "put_all ?ws Map.empty k = shown K ?m k" for k
  proof (cases "map_of (rev ?ws) k")
    case None
    then have "\<not> (\<exists>x \<in> set ?ses. wr_name wr x = k)"
      by (auto simp: map_of_eq_None_iff image_iff encoded_key)
    moreover have "x \<in> set ?ses \<and> wr_name wr x = k" if "(?m |` K) k = Some x" for x
      using m [of k x] ses [of x] that by (simp add: restrict_map_def split: if_splits)
    ultimately have "(?m |` K) k = None" by (cases "(?m |` K) k") auto
    with None show ?thesis by (simp add: put_all_at del: map_map)
  next
    case (Some v)
    from map_of_SomeD [OF this] obtain x where x: "x \<in> set ?ses" "wr_name wr x = k" "v = Some (E x)"
      by (auto simp: encoded_key)
    then have "?m k = Some x" "k \<in> K" using ses by blast+
    with Some x show ?thesis by (simp add: put_all_at del: map_map)
  qed
  then show ?thesis
    using l replica_Replace [where order = "wr_order wr" and nf = "fd_inf st", OF order [OF fin(2)], of "wr_key wr" ?us]
    by (intro exI [of _ ?nf]) (auto simp: fifo_Replace_def Let_def)
qed

lemma finite_Pop:
  "finite (dom (inf_indexer nf)) \<Longrightarrow>
   finite (dom (inf_indexer (fst (fifo_Pop key same_rv syncing nf))))"
  by (auto simp: fifo_Pop_def processDelta_def split: list.split prod.split option.split informer_obj.split)

text \<open>Every step goes through, and keeps the invariant.\<close>

lemma step_steady:
  assumes "steady K st" "knows K act"
  shows "\<exists>st1. feed_step wr act st = Inr st1 \<and> steady K st1"
proof (cases act)
  case (Upsert x)
  then show ?thesis using assms by (auto simp: feed_step_def steady_def knows_def)
next
  case (Remove x)
  then show ?thesis using assms by (auto simp: feed_step_def steady_def knows_def)
next
  case Notify
  show ?thesis
  proof (cases "fd_pend st")
    case (Cons e rest)
    obtain et x where e: "e = (et, x)" by (cases e)
    have "reg_live (fd_reg st)" using assms(1) by (simp add: steady_def)
    then obtain r1 where "eo_handle (wr_store wr) (wr_umeta wr) et x (fd_reg st) = Inr r1" "reg_live r1"
      using handle_pushes by blast
    then show ?thesis using assms(1) Notify Cons e by (auto simp: feed_step_def steady_def)
  qed (use assms(1) Notify in \<open>simp add: feed_step_def\<close>)
next
  case DoList
  obtain nf where "feed_list wr st = Inr (st\<lparr>fd_inf := nf\<rparr>)" "inf_indexer nf = inf_indexer (fd_inf st)"
    using list_ok [OF assms(1)] by blast
  then show ?thesis using assms(1) DoList by (simp add: feed_step_def steady_def)
next
  case DoWatch
  then show ?thesis using assms(1) reg_live_add(1) [of "fd_reg st"]
    by (simp add: feed_step_def steady_def watch_registers split_beta)
next
  case Receive
  then show ?thesis
    using assms(1) reg_live_take [of "fd_reg st"]
    by (auto simp: feed_step_def feed_receive_def steady_def split: option.split prod.split)
next
  case (PopDelta b)
  then show ?thesis
    using assms(1) finite_Pop [of "fd_inf st" "wr_key wr" "wr_same wr" b]
    by (auto simp: feed_step_def steady_def split: prod.split)
qed

section \<open>The phases of the client\<close>

text \<open>Before the list: the store is what the pending notifications make of an earlier one.\<close>

definition unlisted :: "('o, 'u) feed \<Rightarrow> bool" where
  "unlisted st =
     (fd_watch st = None \<and> (\<exists>m0. fd_store st = put_all (map (ev_write wr) (fd_pend st)) m0))"

text \<open>Between list and watch: the list \<open>L\<close> contains the effects of the \<open>old\<close> pending notifications,
  at least \<open>n\<close> of them, and not those of the new.\<close>

definition listed :: "string set \<Rightarrow> nat \<Rightarrow> ('o, 'u) feed \<Rightarrow> bool" where
  "listed K n st =
     (fd_watch st = None \<and>
      (\<exists>old newer L. fd_pend st = old @ newer \<and> n \<le> length old \<and>
         put_all (map (ev_write wr) old) L = L \<and> fd_store st = put_all (map (ev_write wr) newer) L \<and>
         replica (wr_key wr) (fd_inf st) = shown K L))"

text \<open>Watching: what is in the channel and still selected of what is pending makes up the difference.\<close>

definition watching_at :: "string set \<Rightarrow> ('o, 'u) feed \<Rightarrow> nat \<Rightarrow> (event_type \<times> 'o) list \<Rightarrow> bool" where
  "watching_at K st a evs =
     (fd_watch st = Some a \<and> Some a \<in> set (reg_ws (fd_reg st)) \<and>
      (\<forall>m. sw_selects (reg_heap (fd_reg st) ! a) m = options_select (wr_options wr) (wr_ns wr) m) \<and>
      ch_buf (sw_ch (reg_heap (fd_reg st) ! a)) = map (\<lambda>(et, x). (et, eo_item (wr_store wr) x)) evs \<and>
      put_all (map cw (evs @ filter (\<lambda>e. selects wr (snd e)) (fd_pend st)))
        (replica (wr_key wr) (fd_inf st)) = shown K (fd_store st))"

definition watching :: "string set \<Rightarrow> ('o, 'u) feed \<Rightarrow> bool" where
  "watching K st = (\<exists>a evs. watching_at K st a evs)"

lemma steadyD:
  assumes "steady K st"
  shows "reg_live (fd_reg st)" "(et, x) \<in> set (fd_pend st) \<Longrightarrow> selects wr x = (wr_name wr x \<in> K)"
    "fd_store st k = Some x \<Longrightarrow> selects wr x = (k \<in> K)"
  using assms by (simp_all add: steady_def)

lemma upstream_write:
  "put_all [ev_write wr (et, x)] m = m(wr_name wr x := if et = EventDeleted then None else Some x)"
  by (simp add: ev_write_def)

lemma step_upstream:
  assumes "feed_step wr act st = Inr st1" "act = Upsert x \<or> act = Remove x"
  obtains et where "fd_pend st1 = fd_pend st @ [(et, x)]"
    "fd_store st1 = put_all [ev_write wr (et, x)] (fd_store st)"
    "fd_reg st1 = fd_reg st" "fd_watch st1 = fd_watch st" "fd_inf st1 = fd_inf st"
proof (cases "act = Remove x")
  case True
  show ?thesis
    by (rule that [of EventDeleted]) (use assms(1) True in \<open>auto simp: feed_step_def upstream_write\<close>)
next
  case False
  show ?thesis
    by (rule that [of "if fd_store st (wr_name wr x) = None then EventAdded else EventModified"])
       (use assms False in \<open>auto simp: feed_step_def upstream_write\<close>)
qed

lemma step_Notify:
  "feed_step wr Notify st = Inr st1 \<Longrightarrow>
   fd_pend st1 = tl (fd_pend st) \<and> fd_store st1 = fd_store st \<and> fd_watch st1 = fd_watch st \<and>
   fd_inf st1 = fd_inf st"
  by (auto simp: feed_step_def split: list.splits prod.splits sum.splits)

lemma step_PopDelta:
  "feed_step wr (PopDelta b) st = Inr st1 \<Longrightarrow>
   fd_pend st1 = fd_pend st \<and> fd_store st1 = fd_store st \<and> fd_watch st1 = fd_watch st \<and>
   fd_reg st1 = fd_reg st \<and> replica (wr_key wr) (fd_inf st1) = replica (wr_key wr) (fd_inf st)"
  by (auto simp: feed_step_def split_beta)

lemma unlisted_step:
  assumes "unlisted st" "emitter_side act" "feed_step wr act st = Inr st1"
  shows "unlisted st1"
proof -
  obtain m0 where m0: "fd_watch st = None" "fd_store st = put_all (map (ev_write wr) (fd_pend st)) m0"
    using assms(1) by (auto simp: unlisted_def)
  have up: "unlisted st1" if "act = Upsert x \<or> act = Remove x" for x
    by (rule step_upstream [OF assms(3) that]) (use m0 in \<open>auto simp: unlisted_def\<close>)
  show ?thesis
  proof (cases act)
    case (Upsert x)
    then show ?thesis using up by blast
  next
    case (Remove x)
    then show ?thesis using up by blast
  next
    case Notify
    have "\<exists>m1. put_all (map (ev_write wr) (fd_pend st)) m0 = put_all (map (ev_write wr) (tl (fd_pend st))) m1"
      by (cases "fd_pend st") (auto simp: ev_write_def)
    with m0 assms(3) Notify show ?thesis by (auto simp: unlisted_def dest!: step_Notify)
  qed (use assms(2) in \<open>simp_all add: emitter_side_def\<close>)
qed

lemma list_step:
  assumes "unlisted st" "steady K st"
  shows "\<exists>st1. feed_step wr DoList st = Inr st1 \<and> listed K (length (fd_pend st)) st1 \<and> steady K st1"
proof -
  obtain m0 where m0: "fd_watch st = None" "fd_store st = put_all (map (ev_write wr) (fd_pend st)) m0"
    using assms(1) by (auto simp: unlisted_def)
  obtain nf where nf: "feed_list wr st = Inr (st\<lparr>fd_inf := nf\<rparr>)"
      "inf_indexer nf = inf_indexer (fd_inf st)" "replica (wr_key wr) nf = shown K (fd_store st)"
    using list_ok [OF assms(2)] by blast
  have "listed K (length (fd_pend st)) (st\<lparr>fd_inf := nf\<rparr>)"
    unfolding listed_def
    by (rule conjI, simp add: m0, rule exI [of _ "fd_pend st"], rule exI [of _ "[]"],
        rule exI [of _ "fd_store st"]) (simp add: nf m0(2) put_all_idem)
  with nf assms(2) show ?thesis by (simp add: feed_step_def steady_def)
qed

lemma listed_step:
  assumes "listed K n st" "feed_step wr act st = Inr st1" "act \<notin> {DoList, DoWatch}"
    and "act = Notify \<Longrightarrow> 0 < n"
  shows "listed K (if act = Notify then n - 1 else n) st1"
proof -
  obtain old newer L where o: "fd_watch st = None" "fd_pend st = old @ newer" "n \<le> length old"
      "put_all (map (ev_write wr) old) L = L" "fd_store st = put_all (map (ev_write wr) newer) L"
      "replica (wr_key wr) (fd_inf st) = shown K L"
    using assms(1) by (auto simp: listed_def)
  have up: "listed K n st1" if "act = Upsert x \<or> act = Remove x" for x
  proof (rule step_upstream [OF assms(2) that])
    fix et
    assume "fd_pend st1 = fd_pend st @ [(et, x)]"
      "fd_store st1 = put_all [ev_write wr (et, x)] (fd_store st)"
      "fd_reg st1 = fd_reg st" "fd_watch st1 = fd_watch st" "fd_inf st1 = fd_inf st"
    with o show ?thesis
      unfolding listed_def by (intro conjI exI [of _ old] exI [of _ "newer @ [(et, x)]"] exI [of _ L]) simp_all
  qed
  show ?thesis
  proof (cases act)
    case (Upsert x)
    then show ?thesis using up by auto
  next
    case (Remove x)
    then show ?thesis using up by auto
  next
    case Notify
    with assms(4) o(3) obtain e old1 where old: "old = e # old1" by (cases old) auto
    have "put_all (map (ev_write wr) old1) (put_all [ev_write wr e] L) = L"
      using o(4) old by (cases "ev_write wr e") simp
    then have "put_all (map (ev_write wr) old1) L = L" by (metis put_all_idem)
    moreover have "n - 1 \<le> length old1" using o(3) old by simp
    ultimately show ?thesis
      using step_Notify [OF assms(2) [unfolded Notify]] o old Notify unfolding listed_def
      by (intro conjI exI [of _ old1] exI [of _ newer] exI [of _ L]) simp_all
  next
    case Receive
    then show ?thesis using assms(1,2) o(1) by (simp add: feed_step_def receive_simps(1))
  next
    case (PopDelta b)
    then show ?thesis
      using step_PopDelta [OF assms(2) [unfolded PopDelta]] o unfolding listed_def
      by (intro conjI exI [of _ old] exI [of _ newer] exI [of _ L]) simp_all
  qed (use assms(3) in simp_all)
qed

lemma watch_step:
  assumes "listed K n st" "steady K st"
  shows "\<exists>st1. feed_step wr DoWatch st = Inr st1 \<and> watching K st1 \<and> steady K st1"
proof -
  obtain old newer L where o: "fd_pend st = old @ newer" "put_all (map (ev_write wr) old) L = L"
      "fd_store st = put_all (map (ev_write wr) newer) L" "replica (wr_key wr) (fd_inf st) = shown K L"
    using assms(1) by (auto simp: listed_def)
  let ?ls = "mergeSelectors (wr_srt wr) Everything (wr_options wr)"
  let ?fs = "defaultFieldSelector (wr_options wr)"
  define st1 where "st1 = st\<lparr>fd_watch := Some (length (reg_heap (fd_reg st))),
      fd_reg := snd (addWatcher ?ls ?fs (wr_ns wr) (fd_reg st))\<rparr>"
  have step: "feed_step wr DoWatch st = Inr st1"
    using reg_live_add(3) [OF steadyD(1) [OF assms(2)]]
    by (simp add: feed_step_def watch_registers split_beta st1_def)
  have new: "reg_heap (fd_reg st1) ! length (reg_heap (fd_reg st)) =
      \<lparr>sw_ch = \<lparr>ch_buf = [], ch_closed = False\<rparr>, sw_ls = ?ls, sw_fs = ?fs, sw_ns = wr_ns wr,
       sw_idx = length (reg_ws (fd_reg st))\<rparr>"
    by (simp add: st1_def addWatcher_def Let_def)
  have "put_all (map cw (filter (\<lambda>e. selects wr (snd e)) (fd_pend st))) (shown K L) =
      shown K (fd_store st)"
    using replay_shown [of "fd_pend st" K L] steadyD(2) [OF assms(2)] o(1-3) by simp
  then have "watching K st1"
    unfolding watching_def watching_at_def
    by (intro exI [of _ "length (reg_heap (fd_reg st))"] exI [of _ "[]"])
       (auto simp: new sw_selects_def helpers_select [OF srt] o(4), auto simp: st1_def addWatcher_def Let_def o(4))
  moreover have "steady K st1"
    using step_steady [OF assms(2), of DoWatch] step by (auto simp: knows_def)
  ultimately show ?thesis using step by blast
qed

lemma watching_Notify:
  assumes w: "watching_at K st a evs" and st: "steady K st" "feed_step wr Notify st = Inr st1" "has_room st"
  shows "watching K st1"
proof (cases "fd_pend st")
  case Nil
  then show ?thesis using w st(2) by (auto simp: feed_step_def watching_def watching_at_def)
next
  case (Cons e rest)
  note w = w [unfolded watching_at_def]
  have alen: "a < length (reg_heap (fd_reg st))"
    using reg_live_at [OF steadyD(1) [OF st(1)]] w by blast
  obtain et x where e: "e = (et, x)" by (cases e)
  obtain r1 where r1: "eo_handle (wr_store wr) (wr_umeta wr) et x (fd_reg st) = Inr r1" "reg_ws r1 = reg_ws (fd_reg st)"
      "reg_heap r1 ! a = (if selects wr x then push (et, eo_item (wr_store wr) x) (reg_heap (fd_reg st) ! a)
         else reg_heap (fd_reg st) ! a)"
    using handle_pushes [OF steadyD(1) [OF st(1)], of "wr_umeta wr" et x] alen w by (auto simp: selects_def)
  have st1: "st1 = st\<lparr>fd_pend := rest, fd_reg := r1\<rparr>"
    using st(2) Cons e r1(1) by (simp add: feed_step_def)
  let ?evs = "evs @ (if selects wr x then [e] else [])"
  have "length (ch_buf (sw_ch (reg_heap (fd_reg st) ! a))) < chan_cap"
    using st(3) w by (simp add: has_room_def)
  then have "ch_buf (sw_ch (reg_heap r1 ! a)) = map (\<lambda>(et, x). (et, eo_item (wr_store wr) x)) ?evs"
    using r1(3) w e by (simp add: push_buf)
  moreover have "?evs @ filter (\<lambda>e. selects wr (snd e)) rest =
      evs @ filter (\<lambda>e. selects wr (snd e)) (fd_pend st)"
    by (simp add: Cons e)
  moreover have "sw_selects (reg_heap r1 ! a) m = sw_selects (reg_heap (fd_reg st) ! a) m" for m
    using r1(3) by simp
  ultimately have "watching_at K st1 a ?evs"
    unfolding watching_at_def st1 using w r1(2) by simp
  then show ?thesis unfolding watching_def by blast
qed

lemma watching_Receive:
  assumes w: "watching_at K st a evs" and st: "steady K st" "feed_step wr Receive st = Inr st1"
  shows "watching K st1"
proof (cases evs)
  case Nil
  then show ?thesis
    using w st(2) by (auto simp: feed_step_def receive_simps(2) watching_def watching_at_def)
next
  case (Cons e es)
  note w = w [unfolded watching_at_def]
  have alen: "a < length (reg_heap (fd_reg st))"
    using reg_live_at [OF steadyD(1) [OF st(1)]] w by blast
  obtain et x where e: "e = (et, x)" by (cases e)
  have "feed_receive wr st = st\<lparr>fd_reg := take_event a (fd_reg st),
      fd_inf := fifo_put (wire et (E x)) (fd_inf st)\<rparr>"
    by (rule receive_simps(3)) (use w in \<open>simp_all add: Cons e\<close>)
  then have st1: "st1 = st\<lparr>fd_reg := take_event a (fd_reg st),
      fd_inf := fifo_put (wire et (E x)) (fd_inf st)\<rparr>"
    using st(2) by (simp add: feed_step_def)
  have h: "reg_heap (take_event a (fd_reg st)) ! a = (reg_heap (fd_reg st) ! a)
      \<lparr>sw_ch := (sw_ch (reg_heap (fd_reg st) ! a))\<lparr>ch_buf := map (\<lambda>(et, x). (et, eo_item (wr_store wr) x)) es\<rparr>\<rparr>"
    using alen w by (simp add: take_event_def Let_def chan_recv_def Cons e)
  let ?pend = "filter (\<lambda>e. selects wr (snd e)) (fd_pend st)"
  have "put_all (map cw (es @ ?pend)) (put_all [cw (et, x)] (replica (wr_key wr) (fd_inf st))) =
      put_all (map cw (evs @ ?pend)) (replica (wr_key wr) (fd_inf st))"
    by (simp add: Cons e cw_def)
  moreover have "sw_selects (reg_heap (take_event a (fd_reg st)) ! a) m =
      sw_selects (reg_heap (fd_reg st) ! a) m" for m
    by (simp add: h sw_selects_def)
  moreover have "reg_ws (take_event a (fd_reg st)) = reg_ws (fd_reg st)"
    by (simp add: take_event_def Let_def)
  ultimately have "watching_at K st1 a es"
    unfolding watching_at_def st1 using w by (simp add: h replica_put wire_cw del: map_append)
  then show ?thesis unfolding watching_def by blast
qed

lemma watching_upstream:
  assumes w: "watching_at K st a evs" and st: "knows K act" "feed_step wr act st = Inr st1"
    and act: "act = Upsert x \<or> act = Remove x"
  shows "watching K st1"
proof (rule step_upstream [OF st(2) act])
  let ?sel = "\<lambda>e. selects wr (snd e)"
  fix et
  assume s: "fd_pend st1 = fd_pend st @ [(et, x)]"
    "fd_store st1 = put_all [ev_write wr (et, x)] (fd_store st)"
    "fd_reg st1 = fd_reg st" "fd_watch st1 = fd_watch st" "fd_inf st1 = fd_inf st"
  have "put_all (map cw (filter ?sel [(et, x)])) (shown K (fd_store st)) =
      shown K (put_all [ev_write wr (et, x)] (fd_store st))"
    using replay_shown [of "[(et, x)]" K "fd_store st"] st(1) act by (auto simp: knows_def)
  then have "watching_at K st1 a evs"
    using w unfolding watching_at_def s by (simp del: filter.simps)
  then show ?thesis unfolding watching_def by blast
qed

lemma watching_step:
  assumes "watching K st" "steady K st" "knows K act" "feed_step wr act st = Inr st1"
    and "act \<notin> {DoList, DoWatch}" "act = Notify \<Longrightarrow> has_room st"
  shows "watching K st1"
proof -
  obtain a evs where w: "watching_at K st a evs" using assms(1) by (auto simp: watching_def)
  show ?thesis
  proof (cases act)
    case (PopDelta b)
    have "watching_at K st1 a evs"
      using step_PopDelta [OF assms(4) [unfolded PopDelta]] w by (simp add: watching_at_def)
    then show ?thesis unfolding watching_def by blast
  qed (use assms watching_upstream [OF w assms(3,4)] watching_Notify [OF w assms(2)]
        watching_Receive [OF w assms(2)] in auto)
qed

section \<open>Whole runs\<close>

lemma run_unlisted:
  assumes "unlisted st" "steady K st" "\<forall>act \<in> set acts. emitter_side act \<and> knows K act"
  shows "\<exists>st1. feed_run wr acts st = Inr st1 \<and> unlisted st1 \<and> steady K st1"
  using assms
proof (induction acts arbitrary: st)
  case (Cons act acts)
  obtain st1 where st1: "feed_step wr act st = Inr st1" "steady K st1"
    using step_steady [OF Cons.prems(2)] Cons.prems(3) by auto
  moreover have "unlisted st1" using unlisted_step [OF Cons.prems(1) _ st1(1)] Cons.prems(3) by simp
  ultimately show ?case using Cons.IH [of st1] Cons.prems(3) by simp
qed simp

lemma run_listed:
  assumes "listed K n st" "steady K st" "\<forall>act \<in> set acts. act \<notin> {DoList, DoWatch} \<and> knows K act"
    and "count_list acts Notify \<le> n"
  shows "\<exists>st1. feed_run wr acts st = Inr st1 \<and> listed K (n - count_list acts Notify) st1 \<and> steady K st1"
  using assms
proof (induction acts arbitrary: st n)
  case (Cons act acts)
  obtain st1 where st1: "feed_step wr act st = Inr st1" "steady K st1"
    using step_steady [OF Cons.prems(2)] Cons.prems(3) by auto
  have "listed K (if act = Notify then n - 1 else n) st1"
    by (rule listed_step [OF Cons.prems(1) st1(1)]) (use Cons.prems(3,4) in \<open>auto split: if_splits\<close>)
  with Cons.IH [OF this st1(2)] st1(1) Cons.prems(3,4) show ?case by (auto split: if_splits)
qed simp

lemma run_watching:
  assumes "watching K st" "steady K st" "\<forall>act \<in> set acts. act \<notin> {DoList, DoWatch} \<and> knows K act"
    and "roomy wr acts st"
  shows "\<exists>st1. feed_run wr acts st = Inr st1 \<and> watching K st1 \<and> steady K st1"
  using assms
proof (induction acts arbitrary: st)
  case (Cons act acts)
  obtain st1 where st1: "feed_step wr act st = Inr st1" "steady K st1"
    using step_steady [OF Cons.prems(2)] Cons.prems(3) by auto
  have "watching K st1"
    by (rule watching_step [OF Cons.prems(1,2) _ st1(1)]) (use Cons.prems(3,4) in auto)
  with Cons.IH [OF this st1(2)] st1(1) Cons.prems(3,4) show ?case by auto
qed simp

lemma drained_expected:
  assumes "watching K st" "steady K st" "drained st"
  shows "inf_indexer (fd_inf st) = expected wr (fd_store st)"
proof -
  have "expected wr (fd_store st) = shown K (fd_store st)"
    by (rule expected_shown) (rule steadyD(3) [OF assms(2)])
  then show ?thesis
    using assms(1,3) replica_drained [of "fd_inf st" "wr_key wr"] by (auto simp: watching_def watching_at_def drained_def)
qed

lemma steady_start: "reg_live r \<Longrightarrow> steady K (start_feed r) \<and> unlisted (start_feed r)"
  by (simp add: start_feed_def steady_def unlisted_def new_informer_def)

lemma stable_knows:
  assumes "stable_selection wr acts"
  shows "\<exists>K. \<forall>act \<in> set acts. knows K act"
proof -
  define K where "K = wr_name wr ` {x \<in> exports_of acts. selects wr x}"
  have K: "selects wr x = (wr_name wr x \<in> K)" if "x \<in> exports_of acts" for x
    using assms that unfolding stable_selection_def K_def by blast
  have "knows K act" if "act \<in> set acts" for act
    unfolding knows_def using that K by (simp add: exports_of_def) blast
  then show ?thesis by blast
qed

lemma roomy_append:
  "feed_run wr as st = Inr st1 \<Longrightarrow> roomy wr (as @ bs) st = (roomy wr as st \<and> roomy wr bs st1)"
  by (induction as arbitrary: st) (auto split: sum.splits)

lemma run_converges_from:
  assumes st0: "unlisted st0" "steady K st0"
    and acts: "\<forall>act \<in> set pre. emitter_side act"
      "\<forall>act \<in> set (mid @ post). act \<notin> {DoList, DoWatch}"
    and K: "\<forall>act \<in> set (pre @ mid @ post). knows K act"
    and gap: "\<And>st. feed_run wr pre st0 = Inr st \<Longrightarrow> count_list mid Notify \<le> length (fd_pend st)"
    and room: "roomy wr (pre @ DoList # mid @ DoWatch # post) st0"
  shows "\<exists>st. feed_run wr (pre @ DoList # mid @ DoWatch # post) st0 = Inr st \<and>
    (drained st \<longrightarrow> inf_indexer (fd_inf st) = expected wr (fd_store st))"
proof -
  obtain st1 where st1: "feed_run wr pre st0 = Inr st1" "unlisted st1" "steady K st1"
    using run_unlisted [OF st0, of pre] acts(1) K by auto
  obtain st2 where st2: "feed_step wr DoList st1 = Inr st2" "listed K (length (fd_pend st1)) st2" "steady K st2"
    using list_step [OF st1(2,3)] by blast
  obtain st3 n where st3: "feed_run wr mid st2 = Inr st3" "listed K n st3" "steady K st3"
    using run_listed [OF st2(2,3), of mid] acts(2) K gap [OF st1(1)] by auto
  obtain st4 where st4: "feed_step wr DoWatch st3 = Inr st4" "watching K st4" "steady K st4"
    using watch_step [OF st3(2,3)] by blast
  have "roomy wr post st4"
    using room st2(1) st3(1) st4(1) by (simp add: roomy_append [OF st1(1)] roomy_append)
  moreover have "\<forall>act \<in> set post. act \<notin> {DoList, DoWatch} \<and> knows K act" using acts(2) K by simp
  ultimately obtain st where st: "feed_run wr post st4 = Inr st" "watching K st" "steady K st"
    using run_watching [OF st4(2,3)] by blast
  then show ?thesis
    using drained_expected [OF st(2,3)] st1(1) st2(1) st3(1) st4(1) by (simp add: feed_run_append)
qed

lemma run_converges:
  assumes "reg_live r"
    and acts: "\<forall>act \<in> set pre. emitter_side act"
      "\<forall>act \<in> set (mid @ post). act \<notin> {DoList, DoWatch}"
    and stable: "stable_selection wr (pre @ mid @ post)"
    and gap: "\<And>st. feed_run wr pre (start_feed r) = Inr st \<Longrightarrow> count_list mid Notify \<le> length (fd_pend st)"
    and room: "roomy wr (pre @ DoList # mid @ DoWatch # post) (start_feed r)"
  shows "\<exists>st. feed_run wr (pre @ DoList # mid @ DoWatch # post) (start_feed r) = Inr st \<and>
    (drained st \<longrightarrow> inf_indexer (fd_inf st) = expected wr (fd_store st))"
proof -
  obtain K where K: "\<forall>act \<in> set (pre @ mid @ post). knows K act" using stable_knows [OF stable] by blast
  show ?thesis
    by (rule run_converges_from [OF _ _ acts K gap room]) (use steady_start [OF assms(1)] in simp_all)
qed

end

section \<open>The wiring of the exports\<close>

text \<open>The options and the namespace of the client are arguments; an object travels as the typed export,
  keyed and compared as such, and the stores are listed in the order of their keys.\<close>

definition plain_wiring :: "internal_list_options option \<Rightarrow> string \<Rightarrow> (service_export, service_export) wiring" where
  "plain_wiring opts ns =
     \<lparr>wr_store = export_store, wr_options = opts, wr_ns = ns, wr_srt = id,
      wr_items = (\<lambda>m. map (the \<circ> m) (sorted_list_of_set (dom m))),
      wr_encode = (\<lambda>it. case it of ItemExport se \<Rightarrow> se | _ \<Rightarrow> web_export),
      wr_umeta = se_meta, wr_key = se_name,
      wr_order = (\<lambda>m. sorted_list_of_set (dom m)), wr_same = (=)\<rparr>"

lemma plain_wiring_sel [simp]:
  "wr_store (plain_wiring opts ns) = export_store"
  "wr_options (plain_wiring opts ns) = opts" "wr_ns (plain_wiring opts ns) = ns"
  "wr_srt (plain_wiring opts ns) = id"
  "wr_items (plain_wiring opts ns) m = map (the \<circ> m) (sorted_list_of_set (dom m))"
  "wr_encode (plain_wiring opts ns) (ItemExport se) = se"
  "wr_umeta (plain_wiring opts ns) = se_meta" "wr_key (plain_wiring opts ns) = se_name"
  "wr_order (plain_wiring opts ns) idx = sorted_list_of_set (dom idx)"
  "wr_same (plain_wiring opts ns) = (=)"
  by (simp_all add: plain_wiring_def)

lemma wr_name_export [simp]: "wr_store wr = export_store \<Longrightarrow> wr_name wr x = se_name x"
  by (simp add: wr_name_def se_name_def)

interpretation plain_libs: feed_libs "plain_wiring opts ns"
  by unfold_locales (force simp: ran_def image_iff)+

text \<open>The feeds of the two stores.\<close>

abbreviation export_wiring :: "(service_export, 'u) wiring \<Rightarrow> bool" where
  "export_wiring wr \<equiv> feed_libs wr \<and> wr_store wr = export_store"

abbreviation slice_wiring :: "string set \<Rightarrow> (endpoint_slice, 'u) wiring \<Rightarrow> bool" where
  "slice_wiring exports wr \<equiv> feed_libs wr \<and> wr_store wr = slice_store exports"

lemma export_feed: "export_wiring wr \<Longrightarrow> feed_wiring wr"
  by (simp add: feed_wiring_def exports.store_laws_axioms)

lemma slice_feed: "slice_wiring exports wr \<Longrightarrow> feed_wiring wr"
  by (simp add: feed_wiring_def slices.store_laws_axioms)

lemma export_plain: "export_wiring (plain_wiring opts ns)"
  by (simp add: plain_libs.feed_libs_axioms)

interpretation plain: feed_wiring "plain_wiring opts ns"
  by (rule export_feed [OF export_plain])

lemma web_name [simp]: "se_name web_export = ''shop/web''"
  by (simp add: se_name_def meta_key_def web_export_def web_meta_def)

text \<open>For concrete runs: an export with a label, options that ask for it, and what a run unfolds to.\<close>

definition labelled_export :: service_export where
  "labelled_export = web_export\<lparr>se_meta := (se_meta web_export)\<lparr>om_Labels := [''tier'' \<mapsto> ''web'']\<rparr>\<rparr>"

definition tier_options :: internal_list_options where
  "tier_options = \<lparr>ilo_LabelSelector = Some (InternalSelector
     [\<lparr>r_key = ''tier'', r_operator = OpExists, r_strValues = []\<rparr>]), ilo_FieldSelector = None\<rparr>"

lemmas feed_defs = feed_step_def feed_list_def st_Watch_def feed_receive_def take_event_def
  start_feed_def new_informer_def se_handle_def se_OnAdd_def handler_def item_meta_def
  se_List_def ListAndWatch_def refl_list_def fifo_Replace_def queue_deletes_def queued_keys_def
  known_deletes_def addWatcher_def empty_registry_def Let_def sw_selects_def mergeSelectors_def
  defaultFieldSelector_def sel_Add_def sel_Matches_def Everything_def sel_Requirements_def matchNamespace_def
  nonBlockingSend_def chan_recv_def chan_cap_def fifo_put_def fifo_add_def wire_def fifo_Pop_def
  processDelta_def List.map_filter_def

section \<open>Properties\<close>

text \<open>C8. The informer of a watcher converges to the selected exports of the emitter: it lists and then
  watches while the emitter's informer goes on storing and delivering, in any interleaving. If no
  export moves in or out of its selection, the channel has room whenever an event is sent, and what is
  delivered between the list and the watch was already pending at the list, no step panics, and
  whenever nothing is on its way the indexer of the client holds exactly the selected exports.\<close>

theorem client_converges:
  assumes "export_wiring wr" "reg_live r"
    and "\<forall>act \<in> set pre. emitter_side act"
      "\<forall>act \<in> set (mid @ post). act \<notin> {DoList, DoWatch}"
    and "stable_selection wr (pre @ mid @ post)"
    and "\<And>st. feed_run wr pre (start_feed r) = Inr st \<Longrightarrow> count_list mid Notify \<le> length (fd_pend st)"
    and "roomy wr (pre @ DoList # mid @ DoWatch # post) (start_feed r)"
  shows "\<exists>st. feed_run wr (pre @ DoList # mid @ DoWatch # post) (start_feed r) = Inr st \<and>
    (drained st \<longrightarrow> inf_indexer (fd_inf st) = expected wr (fd_store st))"
  by (rule feed_wiring.run_converges [OF export_feed [OF assms(1)] assms(2-)])

theorem client_converges_witness:
  "case feed_run (plain_wiring None []) [DoList, DoWatch, Upsert web_export, Notify, Receive, PopDelta False]
        (start_feed empty_registry) of
     Inl p \<Rightarrow> False
   | Inr st \<Rightarrow> drained st \<and> inf_indexer (fd_inf st) ''shop/web'' = Some web_export"
proof -
  let ?wr = "plain_wiring None []" and ?post = "[Upsert web_export, Notify, Receive, PopDelta False]"
  have "\<exists>st. feed_run ?wr ([] @ DoList # [] @ DoWatch # ?post) (start_feed empty_registry) = Inr st \<and>
      (drained st \<longrightarrow> inf_indexer (fd_inf st) = expected ?wr (fd_store st))"
    by (rule client_converges [OF export_plain reg_live_empty])
       (simp_all add: stable_selection_def exports_of_def feed_defs has_room_def)
  then show ?thesis
    by (auto simp: feed_defs drained_def expected_def selects_def options_select_def)
qed

end
