(* ===== verification/Feed_Flow.thy ===== *)
theory Feed_Flow
  imports Feed
begin

text \<open>
  What is on its way from the emitter's informer to the client, step by step, and what never gets
  there: changes in the gap between the list and the watch, exports that leave the selection, and
  the whole content in the watch-list mode.
\<close>

section \<open>What is on its way\<close>

definition about :: "('o, 'u) wiring \<Rightarrow> string \<Rightarrow> 'o feed_action \<Rightarrow> bool" where
  "about wr k act = (\<exists>x. act \<in> {Upsert x, Remove x} \<and> wr_name wr x = k)"

text \<open>Everything between the emitter's informer and the client satisfies \<open>P\<close>.\<close>

definition flowing :: "('o, 'u) wiring \<Rightarrow> ('o \<Rightarrow> bool) \<Rightarrow> ('o, 'u) feed \<Rightarrow> bool" where
  "flowing wr P st =
     (reg_live (fd_reg st) \<and> (\<forall>e \<in> set (fd_pend st). P (snd e)) \<and>
      (\<forall>a. fd_watch st = Some a \<longrightarrow> a < length (reg_heap (fd_reg st)) \<and>
         (\<forall>et it. (et, it) \<in> set (ch_buf (sw_ch (reg_heap (fd_reg st) ! a))) \<longrightarrow>
            (\<exists>x. it = eo_item (wr_store wr) x \<and> P x))))"

abbreviation quiet :: "('o, 'u) wiring \<Rightarrow> string \<Rightarrow> ('o, 'u) feed \<Rightarrow> bool" where
  "quiet wr k \<equiv> flowing wr (\<lambda>x. wr_name wr x \<noteq> k)"

text \<open>What a step does to the informer of the client.\<close>

definition client_moves ::
  "('o, 'u) wiring \<Rightarrow> ('o \<Rightarrow> bool) \<Rightarrow> 'o feed_action \<Rightarrow> ('o, 'u) feed \<Rightarrow> ('o, 'u) feed \<Rightarrow> bool" where
  "client_moves wr P act st st1 =
     (case act of
        PopDelta b \<Rightarrow>
          (fd_inf st1, fd_notes st1) =
            map_prod id (append (fd_notes st)) (fifo_Pop (wr_key wr) (wr_same wr) b (fd_inf st))
      | _ \<Rightarrow>
          fd_notes st1 = fd_notes st \<and>
          (fd_inf st1 = fd_inf st \<or>
           (\<exists>et x. P x \<and> fd_inf st1 = fifo_put (wire et (wr_encode wr (eo_item (wr_store wr) x))) (fd_inf st))))"

definition store_moves ::
  "('o, 'u) wiring \<Rightarrow> 'o feed_action \<Rightarrow> (string \<rightharpoonup> 'o) \<Rightarrow> (string \<rightharpoonup> 'o)" where
  "store_moves wr act m =
     (case act of Upsert x \<Rightarrow> m(wr_name wr x \<mapsto> x) | Remove x \<Rightarrow> m(wr_name wr x := None) | _ \<Rightarrow> m)"

lemma addWatcher_new:
  "reg_live r \<Longrightarrow> fst (addWatcher ls fs ns r) = length (reg_heap r)"
  "reg_heap (snd (addWatcher ls fs ns r)) = reg_heap r @
     [\<lparr>sw_ch = \<lparr>ch_buf = [], ch_closed = False\<rparr>, sw_ls = ls, sw_fs = fs, sw_ns = ns,
       sw_idx = length (reg_ws r)\<rparr>]"
  by (simp_all add: addWatcher_def Let_def)

context feed_wiring
begin

definition flows_to :: "('o \<Rightarrow> bool) \<Rightarrow> 'o feed_action \<Rightarrow> ('o, 'u) feed \<Rightarrow> ('o, 'u) feed \<Rightarrow> bool" where
  "flows_to P act st st1 =
     (feed_step wr act st = Inr st1 \<and> flowing wr P st1 \<and>
      fd_store st1 = store_moves wr act (fd_store st) \<and> client_moves wr P act st st1)"

lemmas flows_defs = flows_to_def feed_step_def client_moves_def store_moves_def

lemma flowing_Notify:
  assumes q: "flowing wr P st"
  shows "\<exists>st1. flows_to P Notify st st1"
proof (cases "fd_pend st")
  case Nil
  then show ?thesis using q by (simp add: flows_defs)
next
  case (Cons e rest)
  obtain et x where e: "e = (et, x)" by (cases e)
  have live: "reg_live (fd_reg st)" using q by (simp add: flowing_def)
  obtain r1 where r1: "eo_handle (wr_store wr) (wr_umeta wr) et x (fd_reg st) = Inr r1" "reg_live r1"
      "length (reg_heap r1) = length (reg_heap (fd_reg st))"
      "\<forall>a < length (reg_heap (fd_reg st)). reg_heap r1 ! a =
         (if eo_serves (wr_store wr) x \<and> Some a \<in> set (reg_ws (fd_reg st)) \<and> sw_selects (reg_heap (fd_reg st) ! a) (eo_meta (wr_store wr) x)
          then push (et, eo_item (wr_store wr) x) (reg_heap (fd_reg st) ! a) else reg_heap (fd_reg st) ! a)"
    using handle_pushes [OF live, of "wr_umeta wr" et x] by blast
  have buf: "set (ch_buf (sw_ch (reg_heap r1 ! a))) \<subseteq>
      insert (et, eo_item (wr_store wr) x) (set (ch_buf (sw_ch (reg_heap (fd_reg st) ! a))))"
    if "a < length (reg_heap (fd_reg st))" for a
    using r1(4) that by (auto simp: push_buf)
  have x: "P x" "\<forall>e \<in> set rest. P (snd e)" using q Cons e by (auto simp: flowing_def)
  have "flowing wr P (st\<lparr>fd_pend := rest, fd_reg := r1\<rparr>)"
    using q r1(2,3) buf x by (fastforce simp: flowing_def)
  with r1(1) Cons e show ?thesis by (simp add: flows_defs)
qed

lemma flowing_Receive:
  assumes q: "flowing wr P st"
  shows "\<exists>st1. flows_to P Receive st st1"
proof (cases "fd_watch st")
  case None
  then show ?thesis using q by (simp add: flows_defs receive_simps(1))
next
  case (Some a)
  have a: "a < length (reg_heap (fd_reg st))" "reg_live (fd_reg st)" using q Some by (simp_all add: flowing_def)
  show ?thesis
  proof (cases "ch_buf (sw_ch (reg_heap (fd_reg st) ! a))")
    case Nil
    then show ?thesis using q Some by (simp add: flows_defs receive_simps(2))
  next
    case (Cons e rest)
    obtain et it where it: "e = (et, it)" by (cases e)
    have "(et, it) \<in> set (ch_buf (sw_ch (reg_heap (fd_reg st) ! a)))" using Cons it by simp
    then obtain x where "it = eo_item (wr_store wr) x" "P x" using q Some unfolding flowing_def by blast
    with it have e: "e = (et, eo_item (wr_store wr) x)" "P x" by simp_all
    let ?st1 = "st\<lparr>fd_reg := take_event a (fd_reg st), fd_inf := fifo_put (wire et (E x)) (fd_inf st)\<rparr>"
    have "feed_receive wr st = ?st1" by (rule receive_simps(3) [OF Some]) (simp add: Cons e)
    moreover have "flowing wr P ?st1"
      using q Some Cons a reg_live_take [OF a(2), of a]
      by (auto simp: flowing_def take_event_def Let_def chan_recv_def)
    moreover have "client_moves wr P Receive st ?st1" using e(2) by (auto simp: client_moves_def)
    ultimately show ?thesis by (simp add: flows_to_def feed_step_def store_moves_def)
  qed
qed

lemma flowing_step:
  assumes q: "flowing wr P st" and act: "\<And>x. act \<in> {Upsert x, Remove x} \<Longrightarrow> P x" "act \<noteq> DoList"
  shows "\<exists>st1. feed_step wr act st = Inr st1 \<and> flowing wr P st1 \<and>
    fd_store st1 = store_moves wr act (fd_store st) \<and> client_moves wr P act st st1"
proof -
  have "\<exists>st1. flows_to P act st st1"
  proof (cases act)
    case DoWatch
    have live: "reg_live (fd_reg st)" using q by (simp add: flowing_def)
    show ?thesis
      using q DoWatch reg_live_add(1) [OF live] addWatcher_new(1) [OF live]
      by (simp add: flows_defs watch_registers split_beta flowing_def addWatcher_new(2))
  next
    case (PopDelta b)
    then show ?thesis using q by (simp add: flows_defs split_beta flowing_def map_prod_def)
  qed (use flowing_Notify [OF q] flowing_Receive [OF q] q act in \<open>auto simp: flows_defs flowing_def\<close>)
  then show ?thesis by (simp add: flows_to_def)
qed

text \<open>A name nothing is on its way for stays as it is at the client.\<close>

lemma quiet_step:
  assumes "quiet wr k st" "\<not> about wr k act" "act \<noteq> DoList"
  shows "\<exists>st1. feed_step wr act st = Inr st1 \<and> quiet wr k st1 \<and> fd_store st1 k = fd_store st k \<and>
    replica (wr_key wr) (fd_inf st1) k = replica (wr_key wr) (fd_inf st) k"
proof -
  have P: "wr_name wr x \<noteq> k" if "act \<in> {Upsert x, Remove x}" for x
    using that assms(2) by (auto simp: about_def)
  obtain st1 where st1: "feed_step wr act st = Inr st1" "quiet wr k st1"
      "fd_store st1 = store_moves wr act (fd_store st)" "client_moves wr (\<lambda>x. wr_name wr x \<noteq> k) act st st1"
    using flowing_step [OF assms(1) P assms(3)] by blast
  have "replica (wr_key wr) (fd_inf st1) k = replica (wr_key wr) (fd_inf st) k"
  proof (cases "\<exists>b. act = PopDelta b")
    case True
    then show ?thesis
      using st1(4) replica_Pop by (auto simp: client_moves_def map_prod_def split_beta)
  next
    case False
    then have "fd_inf st1 = fd_inf st \<or>
        (\<exists>et x. wr_name wr x \<noteq> k \<and> fd_inf st1 = fifo_put (wire et (E x)) (fd_inf st))"
      using st1(4) by (cases act) (auto simp: client_moves_def)
    then show ?thesis by (auto simp: replica_put wire_cw cw_def)
  qed
  moreover have "fd_store st1 k = fd_store st k" unfolding st1(3) using P
    by (cases act) (auto simp: store_moves_def)
  ultimately show ?thesis using st1(1,2) by blast
qed

lemma quiet_run:
  assumes "quiet wr k st" "\<forall>act \<in> set acts. \<not> about wr k act \<and> act \<noteq> DoList"
  shows "\<exists>st1. feed_run wr acts st = Inr st1 \<and> fd_store st1 k = fd_store st k \<and>
    replica (wr_key wr) (fd_inf st1) k = replica (wr_key wr) (fd_inf st) k"
  using assms
proof (induction acts arbitrary: st)
  case (Cons act acts)
  obtain st1 where st1: "feed_step wr act st = Inr st1" "quiet wr k st1" "fd_store st1 k = fd_store st k"
      "replica (wr_key wr) (fd_inf st1) k = replica (wr_key wr) (fd_inf st) k"
    using quiet_step [OF Cons.prems(1), of act] Cons.prems(2) by auto
  with Cons.IH [OF st1(2)] Cons.prems(2) show ?case by auto
qed simp

text \<open>After an upstream change that was delivered before the client watched, or that it does not
  select, nothing is on its way.\<close>

lemma notified_quiet:
  assumes "reg_live (fd_reg st)" "fd_pend st = []" "fd_watch st = None"
  shows "\<exists>st1. feed_run wr [Upsert x, Notify] st = Inr st1 \<and> quiet wr k st1 \<and>
    fd_store st1 = (fd_store st)(wr_name wr x \<mapsto> x) \<and> fd_inf st1 = fd_inf st"
proof -
  define et where "et = (if fd_store st (wr_name wr x) = None then EventAdded else EventModified)"
  obtain r1 where "eo_handle (wr_store wr) (wr_umeta wr) et x (fd_reg st) = Inr r1" "reg_live r1"
    using handle_pushes [OF assms(1)] by blast
  then show ?thesis using assms by (simp add: feed_step_def flowing_def et_def [symmetric])
qed

lemma unselected_quiet:
  assumes "reg_live (fd_reg st)" "fd_pend st = []" "\<not> selects wr x"
  shows "\<exists>st1. feed_run wr [DoWatch, Upsert x, Notify] st = Inr st1 \<and> quiet wr k st1 \<and>
    fd_store st1 = (fd_store st)(wr_name wr x \<mapsto> x) \<and> fd_inf st1 = fd_inf st"
proof -
  let ?ls = "mergeSelectors (wr_srt wr) Everything (wr_options wr)"
  let ?fs = "defaultFieldSelector (wr_options wr)"
  define et where "et = (if fd_store st (wr_name wr x) = None then EventAdded else EventModified)"
  define r where "r = snd (addWatcher ?ls ?fs (wr_ns wr) (fd_reg st))"
  let ?a = "length (reg_heap (fd_reg st))"
  have r: "reg_live r" "?a < length (reg_heap r)" "ch_buf (sw_ch (reg_heap r ! ?a)) = []"
    using reg_live_add(1) [OF assms(1)] by (simp_all add: r_def addWatcher_new(2))
  obtain r1 where r1: "eo_handle (wr_store wr) (wr_umeta wr) et x r = Inr r1" "reg_live r1"
      "length (reg_heap r1) = length (reg_heap r)"
      "reg_heap r1 ! ?a = (if eo_serves (wr_store wr) x \<and> Some ?a \<in> set (reg_ws r) \<and> sw_selects (reg_heap r ! ?a) (eo_meta (wr_store wr) x)
        then push (et, eo_item (wr_store wr) x) (reg_heap r ! ?a) else reg_heap r ! ?a)"
    using handle_pushes [OF r(1), of "wr_umeta wr" et x] r(2) by blast
  have "\<not> (eo_serves (wr_store wr) x \<and> sw_selects (reg_heap r ! ?a) (eo_meta (wr_store wr) x))"
    using assms(3) by (simp add: r_def addWatcher_new(2) sw_selects_def helpers_select [OF srt] selects_def)
  with r1(4) have "reg_heap r1 ! ?a = reg_heap r ! ?a" by (auto split: if_splits)
  with r1(1-3) r show ?thesis
    using assms(2) addWatcher_new(1) [OF assms(1)]
    by (simp add: feed_step_def watch_registers split_beta flowing_def et_def [symmetric] r_def [symmetric])
qed

end

section \<open>Properties\<close>

text \<open>C30. The gap between the list and the watch: what the emitter's handler delivers after a client has
  listed and before it watches never reaches it. However the run goes on, as long as the export is not
  changed again and the client does not list again, a client that has received everything still
  holds what was there at the list.\<close>

theorem gap_loses_update:
  assumes "export_wiring wr" "reg_live (fd_reg st)" "fd_pend st = []" "fd_watch st = None"
    and "finite (dom (fd_store st))" "finite (dom (inf_indexer (fd_inf st)))"
    and keys: "\<And>k se. fd_store st k = Some se \<Longrightarrow> se_name se = k"
    and post: "\<forall>act \<in> set post. \<not> about wr (se_name se) act \<and> act \<noteq> DoList"
  shows "\<exists>st1. feed_run wr ([DoList, Upsert se, Notify, DoWatch] @ post) st = Inr st1 \<and>
    fd_store st1 (se_name se) = Some se \<and>
    (drained st1 \<longrightarrow> inf_indexer (fd_inf st1) (se_name se) = expected wr (fd_store st) (se_name se))"
proof -
  note wr = export_feed [OF assms(1)]
  have name: "wr_name wr = se_name" using assms(1) by (intro ext) simp
  let ?k = "se_name se" and ?key = "wr_key wr"
  let ?K = "{k. \<exists>se. fd_store st k = Some se \<and> selects wr se}"
  have sel: "selects wr se' = (k \<in> ?K)" if "fd_store st k = Some se'" for k se'
    using that by auto
  have "feed_wiring.steady wr ?K st"
    unfolding feed_wiring.steady_def [OF wr] using assms(2,3,5,6) keys sel by (simp add: name)
  from feed_wiring.list_ok [OF wr this] obtain nf where
    nf: "feed_list wr st = Inr (st\<lparr>fd_inf := nf\<rparr>)"
      "replica ?key nf = (\<lambda>k. map_option (\<lambda>se. wr_encode wr (eo_item (wr_store wr) se)) ((fd_store st |` ?K) k))"
    by blast
  have exp: "replica ?key nf = expected wr (fd_store st)"
    unfolding nf(2) by (rule feed_wiring.expected_shown [OF wr sel, symmetric])
  obtain st2 where st2: "feed_run wr [Upsert se, Notify] (st\<lparr>fd_inf := nf\<rparr>) = Inr st2" "quiet wr ?k st2"
      "fd_store st2 = (fd_store st)(?k \<mapsto> se)" "fd_inf st2 = nf"
    using feed_wiring.notified_quiet [OF wr, of "st\<lparr>fd_inf := nf\<rparr>" se ?k, unfolded name] assms(2,3,4) by (auto simp: name)
  have "\<forall>act \<in> set (DoWatch # post). \<not> about wr ?k act \<and> act \<noteq> DoList" using post by (simp add: about_def)
  from feed_wiring.quiet_run [OF wr st2(2) this] obtain st3 where
    st3: "feed_run wr (DoWatch # post) st2 = Inr st3" "fd_store st3 ?k = Some se"
      "replica ?key (fd_inf st3) ?k = expected wr (fd_store st) ?k"
    using st2(3,4) exp by auto
  have "feed_run wr [DoList] st = Inr (st\<lparr>fd_inf := nf\<rparr>)" by (simp add: feed_step_def nf(1))
  then have "feed_run wr ([DoList] @ [Upsert se, Notify] @ (DoWatch # post)) st = Inr st3"
    by (simp only: feed_run_append st2(1) st3(1) sum.case)
  then have "feed_run wr ([DoList, Upsert se, Notify, DoWatch] @ post) st = Inr st3"
    by (simp only: append_Cons append_Nil)
  with st3(2,3) show ?thesis by (auto simp: drained_def replica_drained [of "fd_inf st3" ?key, symmetric])
qed

theorem gap_loses_update_witness:
  "case feed_run (plain_wiring None []) [DoList, Upsert web_export, Notify, DoWatch] (start_feed empty_registry) of
     Inl p \<Rightarrow> False
   | Inr st \<Rightarrow> drained st \<and> fd_store st ''shop/web'' = Some web_export \<and>
       inf_indexer (fd_inf st) ''shop/web'' = None"
proof -
  let ?st = "start_feed empty_registry :: (service_export, service_export) feed"
  have "\<exists>st1. feed_run (plain_wiring None []) ([DoList, Upsert web_export, Notify, DoWatch] @ []) ?st = Inr st1 \<and>
      fd_store st1 (se_name web_export) = Some web_export \<and>
      (drained st1 \<longrightarrow> inf_indexer (fd_inf st1) (se_name web_export) =
         expected (plain_wiring None []) (fd_store ?st) (se_name web_export))"
    by (rule gap_loses_update [OF export_plain]) (simp_all add: start_feed_def new_informer_def)
  then show ?thesis
    by (auto simp: feed_defs drained_def expected_def)
qed

text \<open>An export that moves out of the selection of a client (a label change, say) is not taken from
  it: the event is not sent, since the new object is not selected, and no deletion is made up, so the
  client keeps what it had.\<close>

theorem unselected_stays:
  assumes "feed_wiring wr" "reg_live (fd_reg st)" "fd_pend st = []"
    and "\<not> selects wr se" "replica (wr_key wr) (fd_inf st) (wr_name wr se) = Some u"
    and "\<forall>act \<in> set post. \<not> about wr (wr_name wr se) act \<and> act \<noteq> DoList"
  shows "\<exists>st1. feed_run wr ([DoWatch, Upsert se, Notify] @ post) st = Inr st1 \<and>
    expected wr (fd_store st1) (wr_name wr se) = None \<and>
    (drained st1 \<longrightarrow> inf_indexer (fd_inf st1) (wr_name wr se) = Some u)"
proof -
  let ?k = "wr_name wr se" and ?key = "wr_key wr"
  obtain st2 where st2: "feed_run wr [DoWatch, Upsert se, Notify] st = Inr st2" "quiet wr ?k st2"
      "fd_store st2 = (fd_store st)(?k \<mapsto> se)" "fd_inf st2 = fd_inf st"
    using feed_wiring.unselected_quiet [OF assms(1-4)] by blast
  from feed_wiring.quiet_run [OF assms(1) st2(2) assms(6)] obtain st3 where
    st3: "feed_run wr post st2 = Inr st3" "fd_store st3 ?k = Some se" "replica ?key (fd_inf st3) ?k = Some u"
    using st2(3,4) assms(5) by auto
  have "feed_run wr ([DoWatch, Upsert se, Notify] @ post) st = Inr st3"
    by (simp only: feed_run_append st2(1) st3(1) sum.case)
  moreover have "expected wr (fd_store st3) ?k = None" using st3(2) assms(4) by (simp add: expected_def)
  ultimately show ?thesis
    using st3(3) by (auto simp: drained_def replica_drained [of "fd_inf st3" ?key, symmetric])
qed

theorem unselected_stays_witness:
  "case feed_run (plain_wiring (Some tier_options) []) [DoWatch, Upsert web_export, Notify]
        ((start_feed empty_registry)\<lparr>fd_inf := \<lparr>inf_indexer = [''shop/web'' \<mapsto> labelled_export], inf_items = []\<rparr>\<rparr>) of
     Inl p \<Rightarrow> False
   | Inr st \<Rightarrow> drained st \<and> expected (plain_wiring (Some tier_options) []) (fd_store st) ''shop/web'' = None \<and>
       inf_indexer (fd_inf st) ''shop/web'' = Some labelled_export"
proof -
  let ?wr = "plain_wiring (Some tier_options) []"
  let ?st = "(start_feed empty_registry)
    \<lparr>fd_inf := \<lparr>inf_indexer = [''shop/web'' \<mapsto> labelled_export], inf_items = []\<rparr>\<rparr>"
  have l: "om_Labels (se_meta web_export) = Map.empty"
    by (simp add: web_export_def web_meta_def empty_meta_def)
  have "\<exists>st1. feed_run ?wr ([DoWatch, Upsert web_export, Notify] @ []) ?st = Inr st1 \<and>
      expected ?wr (fd_store st1) (se_name web_export) = None \<and>
      (drained st1 \<longrightarrow> inf_indexer (fd_inf st1) (se_name web_export) = Some labelled_export)"
    by (rule unselected_stays [OF plain.feed_wiring_axioms, unfolded wr_name_export [OF plain_wiring_sel(1)]])
       (simp_all add: start_feed_def replica_def selects_def options_select_def tier_options_def
         sel_Matches_def req_Matches_def l)
  then show ?thesis
    by (auto simp: feed_defs drained_def tier_options_def req_Matches_def l)
qed

text \<open>C31. In the watch-list mode, which the vendored client turns on by default, the informer of a watcher
  never fills: the channel of the emitter only ever carries objects, so the stream of a watch brings no
  bookmark that ends the initial events. After any number of watches, each lasting a second or bringing
  an event, the reflector still waits, and neither the queue nor the indexer has changed, whatever a list
  request would return.\<close>

theorem watchlist_never_syncs:
  fixes wr :: "('o, 'u) wiring"
  assumes "set as \<subseteq> {Stream (served wr ch) wend | ch wend.
    wend \<noteq> ContextDone \<and> (wend = ChannelClosed True \<longrightarrow> ch_buf ch \<noteq> [])}"
  shows "ListAndWatch True (wr_key wr) (wr_order wr) retriable as listing nf = (FetchingInitial, nf)"
proof -
  have "plain_event (wire et u)" for et and u :: 'u
    by (cases et) (simp_all add: wire_def plain_event_def)
  then have "list_all plain_event (served wr ch)" for ch
    by (simp add: served_def list_all_iff split_beta)
  then have "list_all plain_attempt as"
    using assms by (fastforce simp: list_all_iff plain_attempt_def served_def)
  then show ?thesis by (rule ListAndWatch_plain)
qed

theorem watchlist_never_syncs_witness:
  "ListAndWatch True se_name (wr_order (plain_wiring None [])) (\<lambda>_. True)
     [Stream [WireAdded web_export] (ChannelClosed False)] (Inr [web_export]) new_informer =
   (FetchingInitial, new_informer)"
proof -
  let ?ch = "\<lparr>ch_buf = [(EventAdded, ItemExport web_export)], ch_closed = False\<rparr>"
  have "served (plain_wiring None []) ?ch = [WireAdded web_export]" by (simp add: served_def wire_def)
  then have "[WireAdded web_export] = served (plain_wiring None []) ?ch" by (rule sym)
  then show ?thesis
    using watchlist_never_syncs [of "[Stream (served (plain_wiring None []) ?ch) (ChannelClosed False)]"
        "plain_wiring None []" "\<lambda>_. True" "Inr [web_export]" new_informer]
    by force
qed

end
