(* ===== verification/Pipeline.thy ===== *)
theory Pipeline
  imports Feed_Flow Reflection
begin

text \<open>
  The whole path of an export: the emitter's store and its watch (\<open>pkg/storage/storage.go\<close>), the
  informer of a watcher, the watcher's handlers (\<open>pkg/controller/watcher.go\<close>) and the ServiceImports
  of the local cluster. What the handlers are told keeps the mirror in agreement with the indexer
  of the informer; where the indexer converges, so does the mirror.
\<close>

section \<open>A consumer behind the feed\<close>

context informer_consumer
begin

lemma agrees_view: "agrees idx s \<Longrightarrow> view_at s1 = view_at s \<Longrightarrow> agrees idx s1"
  by (simp add: agrees_def)

end

text \<open>The laws of the feed and of the handlers together; every sound object has an encoding the
  handlers can take.\<close>

locale feed_consumer = feed_wiring wr + informer_consumer "wr_key wr" good want handle view_at
  for wr :: "('o, 'u) wiring" and good :: "'u \<Rightarrow> bool" and want :: "'u \<Rightarrow> 'x option"
    and handle :: "'u informer_obj notification \<Rightarrow> 's \<Rightarrow> 's" and view_at :: "'s \<Rightarrow> string \<Rightarrow> 'x option" +
  fixes sound :: "'o \<Rightarrow> bool"
  assumes good_encoded: "sound x \<Longrightarrow> good (wr_encode wr (eo_item (wr_store wr) x))"
begin

text \<open>The invariant of the informer, and that of the whole feed.\<close>

definition sane :: "'u informer \<Rightarrow> bool" where
  "sane nf = (finite (dom (inf_indexer nf)) \<and> indexed (inf_indexer nf) \<and>
     list_all good_delta (inf_items nf))"

definition carries :: "'s \<Rightarrow> ('o, 'u) feed \<Rightarrow> bool" where
  "carries s0 st =
     (flowing wr sound st \<and> finite (dom (fd_store st)) \<and> (\<forall>x \<in> ran (fd_store st). sound x) \<and>
      sane (fd_inf st) \<and> agrees (inf_indexer (fd_inf st)) (fold handle (fd_notes st) s0))"

lemma sane_put:
  assumes "sane nf" "sound x"
  shows "sane (fifo_put (wire et (E x)) nf)"
  using assms good_encoded
  by (cases et) (simp_all add: sane_def wire_def fifo_put_def fifo_add_def)

text \<open>The deletions \<open>Replace\<close> makes up carry the last object known under the key.\<close>

lemma last_queuedD:
  "last_queued key ds k = Some d \<Longrightarrow> d \<in> set ds \<and> keyOf key (d_obj d) = Some k"
  using nth_mem [of _ "rev ds"] by (auto simp: last_queued_def find_Some_iff simp del: length_rev)

lemma good_tombstone:
  assumes "good_delta d" "d_type d \<noteq> DDeleted" "keyOf (wr_key wr) (d_obj d) = Some k"
  shows "good_delta \<lparr>d_type = DDeleted, d_obj = DeletedFinalStateUnknown k (d_obj d)\<rparr>"
  using assms by (auto split: informer_obj.splits)

lemma sane_Replace:
  assumes nf: "sane nf" and us: "\<forall>u \<in> set us. good u"
  shows "sane (fifo_Replace (wr_key wr) (wr_order wr) us nf)"
proof -
  have items: "\<forall>d \<in> set (inf_items nf). good_delta d" and idx: "indexed (inf_indexer nf)"
    and ord: "set (wr_order wr (inf_indexer nf)) = dom (inf_indexer nf)"
    using nf order by (auto simp: sane_def list_all_iff)
  have "good_delta d" if d: "d \<in> set (queue_deletes (wr_key wr) N (inf_items nf))" for d N
  proof -
    obtain k d0 where d0: "last_queued (wr_key wr) (inf_items nf) k = Some d0" "d_type d0 \<noteq> DDeleted"
        "d = \<lparr>d_type = DDeleted, d_obj = DeletedFinalStateUnknown k (d_obj d0)\<rparr>"
      using d by (auto simp: queue_deletes_def set_map_filter_iff split: if_splits option.splits)
    from last_queuedD [OF d0(1)] items show ?thesis unfolding d0(3) by (intro good_tombstone d0(2)) auto
  qed
  moreover have "good_delta d"
    if d: "d \<in> set (known_deletes (wr_key wr) (wr_order wr (inf_indexer nf)) N nf)" for d N
    using d idx unfolding known_deletes_def set_map_filter_iff ord
    by (auto simp: indexed_def split: if_splits)
  ultimately show ?thesis
    using nf us by (auto simp: sane_def fifo_Replace_def Let_def list_all_iff)
qed

lemma sane_Pop:
  assumes "sane nf" "agrees (inf_indexer nf) s" "fifo_Pop (wr_key wr) (wr_same wr) b nf = (nf1, ns)"
  shows "sane nf1 \<and> agrees (inf_indexer nf1) (fold handle ns s)"
proof (cases "inf_items nf")
  case Nil
  then show ?thesis using assms by (auto simp: fifo_Pop_def)
next
  case (Cons d ds)
  obtain idx where p: "processDelta (wr_key wr) (wr_same wr) b d (inf_indexer nf) = (idx, ns)"
      "nf1 = \<lparr>inf_indexer = idx, inf_items = ds\<rparr>"
    using assms(3) Cons by (auto simp: fifo_Pop_def split: prod.splits)
  have "good_delta d" "list_all good_delta ds" "indexed (inf_indexer nf)"
    using assms(1) Cons by (simp_all add: sane_def)
  moreover have "finite (dom idx)"
    using finite_Pop [of nf "wr_key wr" "wr_same wr" b] assms(1,3) p(2) by (simp add: sane_def)
  ultimately show ?thesis
    using process_agrees [OF _ assms(2) _ same p(1)] by (simp add: sane_def p(2))
qed

text \<open>No step panics, and each keeps the invariant.\<close>

lemma carries_step:
  assumes c: "carries s0 st" and act: "\<And>x. act \<in> {Upsert x, Remove x} \<Longrightarrow> sound x"
  shows "\<exists>st1. feed_step wr act st = Inr st1 \<and> carries s0 st1"
proof (cases "act = DoList")
  case True
  have "\<forall>u \<in> set (map E (filter (selects wr) (wr_items wr (fd_store st)))). good u"
    using c items [of "fd_store st"] good_encoded by (auto simp: carries_def)
  from sane_Replace [OF _ this, of "fd_inf st"] c show ?thesis
    by (auto simp: True feed_step_def list_request carries_def flowing_def fifo_Replace_def Let_def)
next
  case False
  have flow: "flowing wr sound st" using c by (simp add: carries_def)
  obtain st1 where st1: "feed_step wr act st = Inr st1" "flowing wr sound st1"
      "fd_store st1 = store_moves wr act (fd_store st)" "client_moves wr sound act st st1"
    using flowing_step [OF flow act False] by blast
  have "finite (dom (fd_store st1)) \<and> (\<forall>x \<in> ran (fd_store st1). sound x)"
    using c act unfolding st1(3)
    by (cases act) (auto simp: carries_def store_moves_def ran_def split: if_splits)
  moreover have "sane (fd_inf st1) \<and> agrees (inf_indexer (fd_inf st1)) (fold handle (fd_notes st1) s0)"
  proof (cases "\<exists>b. act = PopDelta b")
    case True
    then obtain b where b: "act = PopDelta b" by blast
    obtain nf1 ns where p: "fifo_Pop (wr_key wr) (wr_same wr) b (fd_inf st) = (nf1, ns)"
      by (cases "fifo_Pop (wr_key wr) (wr_same wr) b (fd_inf st)")
    then have "fd_inf st1 = nf1" "fd_notes st1 = fd_notes st @ ns"
      using st1(4) b by (simp_all add: client_moves_def)
    then show ?thesis using sane_Pop [OF _ _ p] c by (auto simp: carries_def)
  next
    case False
    then have "fd_notes st1 = fd_notes st \<and> (fd_inf st1 = fd_inf st \<or>
        (\<exists>et x. sound x \<and> fd_inf st1 = fifo_put (wire et (E x)) (fd_inf st)))"
      using st1(4) by (cases act) (auto simp: client_moves_def)
    then show ?thesis using c sane_put [of "fd_inf st"] by (auto simp: carries_def)
  qed
  ultimately show ?thesis using st1(1,2) by (auto simp: carries_def)
qed

lemma carries_run:
  assumes "carries s0 st" "\<forall>x \<in> exports_of acts. sound x"
  shows "\<exists>st1. feed_run wr acts st = Inr st1 \<and> carries s0 st1"
  using assms
proof (induction acts arbitrary: st)
  case (Cons act acts)
  have "\<And>x. act \<in> {Upsert x, Remove x} \<Longrightarrow> sound x"
    using Cons.prems(2) by (auto simp: exports_of_def)
  from carries_step [OF Cons.prems(1) this] obtain st1 where
    st1: "feed_step wr act st = Inr st1" "carries s0 st1" by blast
  have "\<forall>x \<in> exports_of acts. sound x" using Cons.prems(2) by (auto simp: exports_of_def)
  from Cons.IH [OF st1(2) this] st1(1) show ?case by simp
qed simp

lemma carries_start:
  assumes "reg_live r" "\<And>k. view_at s0 k = None"
  shows "carries s0 (start_feed r)"
  using assms
  by (simp add: carries_def start_feed_def flowing_def sane_def new_informer_def indexed_def agrees_def)

text \<open>A view that agrees with what the emitter selects shows, under each key, nothing for a missing or
  unselected object and what is wanted of a selected one.\<close>

lemma agrees_expected:
  assumes "agrees (expected wr m) s"
  shows "m k = None \<Longrightarrow> view_at s k = None"
    "m k = Some x \<Longrightarrow> \<not> selects wr x \<Longrightarrow> view_at s k = None"
    "m k = Some x \<Longrightarrow> selects wr x \<Longrightarrow> want (E x) = Some y \<Longrightarrow> view_at s k = Some y"
  using assms by (simp_all add: agrees_def expected_def)

end

section \<open>The handlers of a watcher are a consumer\<close>

text \<open>A key as \<open>SplitMetaNamespaceKey\<close> reads it, up to the first slash. Namespaces are not empty and have
  none, as the API server requires.\<close>

definition split_key :: "string \<Rightarrow> namespaced_name" where
  "split_key k =
     (if CHR ''/'' \<in> set k
      then NamespacedName (takeWhile (\<lambda>x. x \<noteq> CHR ''/'') k) (tl (dropWhile (\<lambda>x. x \<noteq> CHR ''/'') k))
      else NamespacedName '''' k)"

definition sound_namespace :: "string \<Rightarrow> bool" where
  "sound_namespace ns = (ns \<noteq> '''' \<and> CHR ''/'' \<notin> set ns)"

definition sound_export :: "service_export \<Rightarrow> bool" where
  "sound_export se = sound_namespace (om_Namespace (se_meta se))"

text \<open>\<open>V\<close> are the versions of exports there can be.\<close>

definition decodes_to ::
  "service_export set \<Rightarrow> ('u \<Rightarrow> string) \<Rightarrow> ('u \<Rightarrow> service_export option) \<Rightarrow> 'u \<Rightarrow> bool" where
  "decodes_to V key fromSE u =
     (case fromSE u of None \<Rightarrow> False | Some se \<Rightarrow> key u = se_name se \<and> sound_export se \<and> se \<in> V)"

definition wanted :: "('u \<Rightarrow> service_export option) \<Rightarrow> 'u \<Rightarrow> import_spec option" where
  "wanted fromSE u =
     Option.bind (fromSE u) (\<lambda>se. case extractAnnotations se of Inl _ \<Rightarrow> None | Inr x \<Rightarrow> Some x)"

definition import_at :: "mirror \<Rightarrow> string \<Rightarrow> import_spec option" where
  "import_at m k = fst m (split_key k)"

definition export_event ::
  "watcher \<Rightarrow> ('u \<Rightarrow> service_export option) \<Rightarrow> 'u informer_obj notification \<Rightarrow> mirror \<Rightarrow> mirror" where
  "export_event w fromSE n = spec_event w fromSE (\<lambda>_. None) (OnExport n)"

lemma split_key_String: "sound_namespace (Namespace nn) \<Longrightarrow> split_key (nn_String nn) = nn"
  by (cases nn) (simp add: split_key_def nn_String_def sound_namespace_def takeWhile_tail dropWhile_append)

lemma meta_key_String: "sound_namespace (om_Namespace m) \<Longrightarrow> meta_key m = nn_String (om_key m)"
  by (simp add: meta_key_def nn_String_def om_key_def sound_namespace_def)

lemma split_meta_key:
  assumes "sound_namespace (om_Namespace m)"
  shows "split_key k = om_key m \<longleftrightarrow> k = meta_key m"
proof
  assume k: "split_key k = om_key m"
  have ns: "Namespace (om_key m) = om_Namespace m" "om_Namespace m \<noteq> ''''"
    using assms by (simp_all add: om_key_def sound_namespace_def)
  have slash: "CHR ''/'' \<in> set k"
  proof (rule ccontr)
    assume "CHR ''/'' \<notin> set k"
    then have "Namespace (split_key k) = ''''" by (simp add: split_key_def)
    with k ns show False by simp
  qed
  let ?P = "\<lambda>x. x \<noteq> CHR ''/''"
  have "dropWhile ?P k \<noteq> []" using slash by simp
  then obtain rest where d: "dropWhile ?P k = CHR ''/'' # rest"
    using hd_dropWhile [of ?P k] by (cases "dropWhile ?P k") auto
  have "k = takeWhile ?P k @ CHR ''/'' # rest"
    using takeWhile_dropWhile_id [of ?P k] d by simp
  also have "\<dots> = nn_String (split_key k)" using slash d by (simp add: split_key_def nn_String_def)
  finally show "k = meta_key m" using k meta_key_String [OF assms] by simp
next
  assume "k = meta_key m"
  then show "split_key k = om_key m"
    using split_key_String [of "om_key m"] meta_key_String [OF assms] assms by (simp add: om_key_def)
qed

lemma se_name_String: "sound_export se \<Longrightarrow> se_name se = nn_String (se_key se)"
  by (simp add: se_name_def se_key_def sound_export_def meta_key_String)

lemma split_key_inj: "sound_export se \<Longrightarrow> split_key k = se_key se \<longleftrightarrow> k = se_name se"
  by (simp add: se_name_def se_key_def sound_export_def split_meta_key)

lemma import_at_upd:
  "sound_export se \<Longrightarrow> import_at ((fst m)(se_key se := v), l) k = (if k = se_name se then v else import_at m k)"
  by (simp add: import_at_def split_key_inj)

interpretation export_consumer: informer_consumer key "decodes_to V key fromSE" "wanted fromSE"
  "export_event w fromSE" import_at
proof unfold_locales
  fix u :: 'a and s :: mirror and k and old :: "'a informer_obj" and j :: string
  assume "decodes_to V key fromSE u"
  then obtain se where u: "fromSE u = Some se" "key u = se_name se" "sound_export se"
    by (auto simp: decodes_to_def split: option.splits)
  note defs = export_event_def spec_event_def spec_export_def spec_unexport_def toServiceExport_def
    deleted_obj_def wanted_def u(1)
  show "import_at (export_event w fromSE (Added (Unstructured u)) s) k =
      (if k = key u \<and> wanted fromSE u \<noteq> None then wanted fromSE u else import_at s k)"
    "import_at (export_event w fromSE (Updated old (Unstructured u)) s) k =
      (if k = key u \<and> wanted fromSE u \<noteq> None then wanted fromSE u else import_at s k)"
    by (cases "extractAnnotations se"; simp add: defs u(2) import_at_upd [OF u(3)])+
  show "import_at (export_event w fromSE (Deleted (Unstructured u)) s) k =
      (if k = key u then None else import_at s k)"
    "import_at (export_event w fromSE (Deleted (DeletedFinalStateUnknown j (Unstructured u))) s) k =
      (if k = key u then None else import_at s k)"
    by (simp_all add: defs u(2) import_at_upd [OF u(3)])
qed

lemma decode_item:
  assumes "export_wiring wr" "\<And>se. fromSE (wr_encode wr (ItemExport se)) = Some se"
  shows "fromSE (wr_encode wr (eo_item (wr_store wr) se)) = Some se"
  using assms by simp

lemma feed_consumer_exports:
  assumes "export_wiring wr" "\<And>se. fromSE (wr_encode wr (ItemExport se)) = Some se"
  shows "feed_consumer wr (decodes_to V (wr_key wr) fromSE) (wanted fromSE) (export_event w fromSE)
    import_at (\<lambda>se. sound_export se \<and> se \<in> V)"
  using export_feed [OF assms(1)] feed_libs.encoded_key [OF conjunct1 [OF assms(1)]] assms
  by (intro feed_consumer.intro feed_consumer_axioms.intro export_consumer.informer_consumer_axioms)
     (auto simp: decodes_to_def)

interpretation plain_pipeline: feed_consumer "plain_wiring opts ns" "decodes_to V se_name Some"
  "wanted Some" "export_event w Some" import_at "\<lambda>se. sound_export se \<and> se \<in> V"
  using feed_consumer_exports [OF export_plain, of Some] by simp

lemma consumer_agrees:
  assumes wr: "export_wiring wr" and decode: "\<And>se. fromSE (wr_encode wr (ItemExport se)) = Some se"
    and "reg_live r" "\<forall>se \<in> exports_of acts. sound_export se \<and> se \<in> V" "\<And>k. import_at m k = None"
    and run: "feed_run wr acts (start_feed r) = Inr st"
  shows "informer_consumer.agrees (wr_key wr) (decodes_to V (wr_key wr) fromSE) (wanted fromSE) import_at
    (inf_indexer (fd_inf st)) (fold (export_event w fromSE) (fd_notes st) m)"
proof -
  note F = feed_consumer_exports [OF wr decode, where w = w and V = V]
  note run' = feed_consumer.carries_run [OF F feed_consumer.carries_start [OF F assms(3,5)] assms(4)]
  show ?thesis using run' run by (auto simp: feed_consumer.carries_def [OF F])
qed

text \<open>What a cluster should show under a key: nothing without a selected export, its metadata where
  there is one that can be read, and where it cannot be read nothing, or what an earlier version of
  it said, since then the code leaves the import as it is.\<close>

definition mirrored ::
  "service_export set \<Rightarrow> (service_export, 'u) wiring \<Rightarrow> (string \<rightharpoonup> service_export) \<Rightarrow> namespaced_name \<Rightarrow>
   service_import option \<Rightarrow> bool" where
  "mirrored V wr m nn sip =
     (case m (nn_String nn) of
        None \<Rightarrow> sip = None
      | Some se \<Rightarrow>
          if selects wr se
          then (case extractAnnotations se of
                  Inr x \<Rightarrow> map_option import_view sip = Some x
                | Inl _ \<Rightarrow>
                    (case sip of
                       None \<Rightarrow> True
                     | Some si \<Rightarrow> \<exists>se' \<in> V. se_key se' = nn \<and> extractAnnotations se' = Inr (import_view si)))
          else sip = None)"

text \<open>Where the indexer is what the emitter selects, a view that agrees with it is the mirror.\<close>

lemma agrees_mirrored:
  assumes agree: "informer_consumer.agrees (wr_key wr) (decodes_to V (wr_key wr) fromSE) (wanted fromSE) import_at
      (expected wr m) (mirror_view i l)"
    and decode: "\<And>se. fromSE (wr_encode wr (eo_item (wr_store wr) se)) = Some se"
    and nn: "sound_namespace (Namespace nn)"
  shows "mirrored V wr m nn (i nn)"
proof -
  have view: "map_option import_view (i nn) = import_at (mirror_view i l) (nn_String nn)"
    by (simp add: import_at_def split_key_String [OF nn] mirror_view_def)
  have old: "\<exists>se' \<in> V. se_key se' = nn \<and> extractAnnotations se' = Inr (import_view si)" if "i nn = Some si" for si
  proof -
    have "import_at (mirror_view i l) (nn_String nn) = Some (import_view si)" using that view by simp
    from export_consumer.agreesD(3) [OF agree this] obtain u where
      u: "decodes_to V (wr_key wr) fromSE u" "wr_key wr u = nn_String nn" "wanted fromSE u = Some (import_view si)" by blast
    then obtain se' where se': "fromSE u = Some se'" "nn_String nn = se_name se'" "sound_export se'" "se' \<in> V"
      by (auto simp: decodes_to_def split: option.splits)
    moreover have "se_key se' = nn" using split_key_inj [OF se'(3)] se'(2) split_key_String [OF nn] by metis
    moreover have "extractAnnotations se' = Inr (import_view si)"
      using u(3) se'(1) by (simp add: wanted_def split: sum.splits)
    ultimately show ?thesis by blast
  qed
  show ?thesis
  proof (cases "expected wr m (nn_String nn)")
    case None
    then have "i nn = None" using export_consumer.agreesD(1) [OF agree None] view by simp
    with None show ?thesis by (auto simp: mirrored_def expected_def split: option.splits if_splits)
  next
    case (Some u)
    then obtain se where se: "m (nn_String nn) = Some se" "selects wr se" "fromSE u = Some se"
      using decode by (auto simp: expected_def split: option.splits if_splits)
    have "import_at (mirror_view i l) (nn_String nn) = Some x" if "extractAnnotations se = Inr x" for x
      using export_consumer.agreesD(2) [OF agree Some, of x] se(3) that by (simp add: wanted_def)
    then show ?thesis using se(1,2) view old by (auto simp: mirrored_def split: sum.split option.split)
  qed
qed

text \<open>What the handlers do to the local cluster, told \<open>ns\<close>.\<close>

lemma notes_view:
  assumes B: "synced_cluster c ex ex' sv sv' im im' sl sl' up settle"
    and s: "up s" "im' s = im s" "sl' s = sl s"
    and s1: "s1 = snd (run_events w fromSE (\<lambda>_. None) c settle (map OnExport ns) (cd, s))"
  shows "mirror_view (im s1) (sl s1) = fold (export_event w fromSE) ns (mirror_view (im s) (sl s))"
proof -
  have "synced_cluster.in_sync im im' sl sl' up s"
    using s by (simp add: synced_cluster.in_sync_def [OF B])
  from synced_cluster.run_refines [OF B this surjective_pairing, of w fromSE "\<lambda>_. None" "map OnExport ns" cd]
  show ?thesis by (simp add: s1 fold_map comp_def export_event_def [abs_def])
qed

text \<open>Where they were told what agrees with the selection of the emitter, the imports are its mirror.\<close>

lemma notes_mirrored:
  assumes B: "synced_cluster c ex ex' sv sv' im im' sl sl' up settle"
    and s: "up s" "im' s = im s" "sl' s = sl s" "im s = Map.empty"
    and decode: "\<And>se. fromSE (wr_encode wr (eo_item (wr_store wr) se)) = Some se"
    and agree: "\<And>m0. (\<And>k. import_at m0 k = None) \<Longrightarrow>
      informer_consumer.agrees (wr_key wr) (decodes_to V (wr_key wr) fromSE) (wanted fromSE) import_at (expected wr m)
        (fold (export_event w fromSE) ns m0)"
    and nn: "sound_namespace (Namespace nn)"
  shows "mirrored V wr m nn (im (snd (run_events w fromSE (\<lambda>_. None) c settle (map OnExport ns) (cd, s))) nn)"
  by (rule agrees_mirrored [OF _ decode nn], subst notes_view [OF B s(1-3) refl], rule agree)
     (simp add: import_at_def mirror_view_def s(4))

section \<open>Properties\<close>

text \<open>C4. The whole path: the exports of cluster A arrive in cluster B. The emitter of A stores, deletes and
  delivers exports while a watcher of B lists, watches, drains its queue and calls its handlers, in
  any interleaving that keeps to the conditions of \<open>client_converges\<close>; B answers its API calls, its
  cache catches up between events, and it starts without imports. Then no step panics, and whenever
  nothing is on its way the ServiceImports of B are the mirror of the exports of A that the watcher
  selects: none under the key of a missing or unselected export, and one with the metadata the
  export carries under every other, whenever that metadata can be read; where it cannot, there is none,
  or one that shows what an earlier version of the export said.\<close>

theorem pipeline_mirrors:
  assumes B: "synced_cluster c ex ex' sv sv' im im' sl sl' up settle"
    and s: "up s" "im' s = im s" "sl' s = sl s" "im s = Map.empty"
    and wr: "export_wiring wr" and decode: "\<And>se. fromSE (wr_encode wr (ItemExport se)) = Some se"
    and sound: "\<forall>se \<in> exports_of (pre @ mid @ post). sound_export se"
    and r: "reg_live r"
    and acts: "\<forall>act \<in> set pre. emitter_side act"
      "\<forall>act \<in> set (mid @ post). act \<notin> {DoList, DoWatch}"
    and stable: "stable_selection wr (pre @ mid @ post)"
    and gap: "\<And>st. feed_run wr pre (start_feed r) = Inr st \<Longrightarrow> count_list mid Notify \<le> length (fd_pend st)"
    and room: "roomy wr (pre @ DoList # mid @ DoWatch # post) (start_feed r)"
  shows "\<exists>st. feed_run wr (pre @ DoList # mid @ DoWatch # post) (start_feed r) = Inr st \<and>
    (drained st \<longrightarrow> (\<forall>nn. sound_namespace (Namespace nn) \<longrightarrow>
       mirrored (exports_of (pre @ mid @ post)) wr (fd_store st) nn
         (im (snd (run_events w fromSE (\<lambda>_. None) c settle (map OnExport (fd_notes st)) (cd, s))) nn)))"
proof -
  note decode' = decode_item [OF wr decode]
  obtain st where st: "feed_run wr (pre @ DoList # mid @ DoWatch # post) (start_feed r) = Inr st"
      "drained st \<longrightarrow> inf_indexer (fd_inf st) = expected wr (fd_store st)"
    using feed_wiring.run_converges [OF export_feed [OF wr] r acts stable gap room] by blast
  let ?V = "exports_of (pre @ mid @ post)"
  have sound': "\<forall>se \<in> exports_of (pre @ DoList # mid @ DoWatch # post). sound_export se \<and> se \<in> ?V"
    using sound by (auto simp: exports_of_def)
  have "mirrored ?V wr (fd_store st) nn
      (im (snd (run_events w fromSE (\<lambda>_. None) c settle (map OnExport (fd_notes st)) (cd, s))) nn)"
    if "sound_namespace (Namespace nn)" "drained st" for nn
    using notes_mirrored [OF B s decode' _ that(1)] consumer_agrees [OF wr decode r sound' _ st(1)] st(2) that(2)
    by metis
  with st(1) show ?thesis by blast
qed

theorem pipeline_mirrors_witness:
  "case feed_run (plain_wiring None []) [DoList, DoWatch, Upsert (annotate web_service web_export), Notify,
        Receive, PopDelta False] (start_feed empty_registry) of
     Inl p \<Rightarrow> False
   | Inr st \<Rightarrow>
       map_option import_view (v_Imports (snd (run_events (NewWatcher ''b'' ''a'' [] []) Some (\<lambda>_. None)
         mem_client sync (map OnExport (fd_notes st)) (None, empty_mem))) web) =
       Some (spec_of_service web_service)"
proof -
  let ?wr = "plain_wiring None []" and ?se = "annotate web_service web_export"
  let ?post = "[Upsert ?se, Notify, Receive, PopDelta False]"
  have utf8: "service_utf8 web_service"
    by simp
  have meta: "om_Namespace (se_meta ?se) = ''shop''" "om_Name (se_meta ?se) = ''web''"
      "om_Labels (se_meta ?se) = Map.empty"
    by (simp_all add: annotate_def web_export_def web_meta_def empty_meta_def)
  have em: "v_Imports empty_mem = Map.empty" by (simp add: empty_mem_def)
  have name: "se_name ?se = ''shop/web''" "nn_String web = ''shop/web''" "Namespace web = ''shop''"
    by (simp_all add: se_name_def meta_key_def meta nn_String_def web_def)
  have "\<exists>st. feed_run ?wr ([] @ DoList # [] @ DoWatch # ?post) (start_feed empty_registry) = Inr st \<and>
    (drained st \<longrightarrow> (\<forall>nn. sound_namespace (Namespace nn) \<longrightarrow>
       mirrored (exports_of ([] @ [] @ ?post)) ?wr (fd_store st) nn (v_Imports (snd (run_events (NewWatcher ''b'' ''a'' [] []) Some (\<lambda>_. None)
         mem_client sync (map OnExport (fd_notes st)) (None, empty_mem))) nn)))"
    by (rule pipeline_mirrors [OF mem_synced_cluster _ _ _ _ export_plain _ _ reg_live_empty])
       (simp_all add: stable_selection_def exports_of_def feed_defs has_room_def sound_export_def
         sound_namespace_def meta em)
  then obtain st where st: "feed_run ?wr (DoList # DoWatch # ?post) (start_feed empty_registry) = Inr st"
    "drained st \<Longrightarrow> mirrored (exports_of ([] @ [] @ ?post)) ?wr (fd_store st) web (v_Imports (snd (run_events (NewWatcher ''b'' ''a'' [] [])
       Some (\<lambda>_. None) mem_client sync (map OnExport (fd_notes st)) (None, empty_mem))) web)"
    by (auto simp: sound_namespace_def name simp del: feed_run.simps)
  have "drained st \<and> fd_store st ''shop/web'' = Some ?se"
    using st(1) by (auto simp: feed_defs drained_def name)
  then show ?thesis
    using st by (simp add: mirrored_def name selects_def options_select_def extract_annotate [OF utf8] del: feed_run.simps)
qed

end
