(* ===== verification/Batch.thy ===== *)
theory Batch
  imports Informer
begin

text \<open>
  How an informer of this version drains its queue: \<open>PopBatch\<close> of \<open>the_real_fifo.go\<close> takes deltas of
  different objects off the queue, and \<open>processDeltasInBatch\<close> of \<open>controller.go\<close> reads the old objects,
  writes all of them in one transaction and then tells the handlers. It does what \<open>Pop\<close> does, one
  delta after the other, so that the model of the pipeline may take single steps.
\<close>

section \<open>The batch\<close>

definition batchSize :: nat where "batchSize = 1000"

text \<open>While the items of the first \<open>Replace\<close> are popped, a batch does not reach past them.\<close>

definition batch_bound :: "nat \<Rightarrow> nat" where
  "batch_bound initialPopulationCount =
     (if 0 < initialPopulationCount then min batchSize initialPopulationCount else batchSize)"

fun take_batch :: "('u \<Rightarrow> string) \<Rightarrow> string set \<Rightarrow> nat \<Rightarrow> 'u delta list \<Rightarrow> 'u delta list" where
  "take_batch key unique (Suc n) (item # items) =
     (case keyOf key (d_obj item) of
        None \<Rightarrow> [item]
      | Some k \<Rightarrow> if k \<in> unique then [] else item # take_batch key (insert k unique) n items)"
| "take_batch key unique _ _ = []"

section \<open>The transaction\<close>

datatype 'u transaction =
  TransactionAdd "'u informer_obj" | TransactionUpdate "'u informer_obj" | TransactionDelete "'u informer_obj"

fun txn_obj :: "'u transaction \<Rightarrow> 'u informer_obj" where
  "txn_obj (TransactionAdd obj) = obj"
| "txn_obj (TransactionUpdate obj) = obj"
| "txn_obj (TransactionDelete obj) = obj"

text \<open>The transaction of a delta and its callback; \<open>clientState.Get\<close> fails for an object without a key.\<close>

definition delta_txn ::
  "('u \<Rightarrow> string) \<Rightarrow> (string \<rightharpoonup> 'u) \<Rightarrow> 'u delta \<Rightarrow> 'u transaction \<times> 'u informer_obj notification" where
  "delta_txn key idx d =
     (let obj = d_obj d
      in if d_type d = DDeleted then (TransactionDelete obj, Deleted obj)
         else
           (case keyOf key obj of
              None \<Rightarrow> (TransactionAdd obj, Added obj)
            | Some k \<Rightarrow>
                (case idx k of
                   Some old \<Rightarrow> (TransactionUpdate obj, Updated (Unstructured old) obj)
                 | None \<Rightarrow> (TransactionAdd obj, Added obj))))"

text \<open>\<open>Transaction\<close> of the store: what has no key is left out and its callback is not called.\<close>

definition txn_ok :: "('u \<Rightarrow> string) \<Rightarrow> 'u transaction \<Rightarrow> bool" where
  "txn_ok key t = (keyOf key (txn_obj t) \<noteq> None)"

definition apply_txn :: "('u \<Rightarrow> string) \<Rightarrow> 'u transaction \<Rightarrow> (string \<rightharpoonup> 'u) \<Rightarrow> (string \<rightharpoonup> 'u)" where
  "apply_txn key t idx =
     (case keyOf key (txn_obj t) of
        None \<Rightarrow> idx
      | Some k \<Rightarrow>
          (case t of
             TransactionDelete _ \<Rightarrow> idx(k := None)
           | _ \<Rightarrow> (case txn_obj t of Unstructured u \<Rightarrow> idx(k \<mapsto> u) | _ \<Rightarrow> idx)))"

text \<open>\<open>OnUpdate\<close> of the shared informer: a resync only reaches listeners that are syncing.\<close>

fun distributed :: "('u \<Rightarrow> 'u \<Rightarrow> bool) \<Rightarrow> bool \<Rightarrow> 'u informer_obj notification \<Rightarrow> bool" where
  "distributed same syncing (Updated (Unstructured old) (Unstructured u)) = (syncing \<or> \<not> same old u)"
| "distributed same syncing _ = True"

definition processDeltasInBatch ::
  "('u \<Rightarrow> string) \<Rightarrow> ('u \<Rightarrow> 'u \<Rightarrow> bool) \<Rightarrow> bool \<Rightarrow> 'u delta list \<Rightarrow> (string \<rightharpoonup> 'u) \<Rightarrow>
   (string \<rightharpoonup> 'u) \<times> 'u informer_obj notification list" where
  "processDeltasInBatch key same syncing deltas idx =
     (let txns = map (delta_txn key idx) deltas
      in (fold (apply_txn key) (map fst txns) idx,
          filter (distributed same syncing) (map snd (filter (\<lambda>tc. txn_ok key (fst tc)) txns))))"

definition PopBatch ::
  "('u \<Rightarrow> string) \<Rightarrow> ('u \<Rightarrow> 'u \<Rightarrow> bool) \<Rightarrow> bool \<Rightarrow> nat \<Rightarrow> 'u informer \<Rightarrow>
   ('u informer \<times> nat) \<times> 'u informer_obj notification list" where
  "PopBatch key same syncing initialPopulationCount nf =
     (let deltas = take_batch key {} (batch_bound initialPopulationCount) (inf_items nf);
          (idx, ns) = processDeltasInBatch key same syncing deltas (inf_indexer nf)
      in ((\<lparr>inf_indexer = idx, inf_items = drop (length deltas) (inf_items nf)\<rparr>,
           initialPopulationCount - length deltas), ns))"

definition batch_length :: "('u \<Rightarrow> string) \<Rightarrow> nat \<Rightarrow> 'u informer \<Rightarrow> nat" where
  "batch_length key initialPopulationCount nf =
     length (take_batch key {} (batch_bound initialPopulationCount) (inf_items nf))"

section \<open>Single steps\<close>

fun fifo_Pops ::
  "('u \<Rightarrow> string) \<Rightarrow> ('u \<Rightarrow> 'u \<Rightarrow> bool) \<Rightarrow> bool \<Rightarrow> nat \<Rightarrow> 'u informer \<Rightarrow>
   'u informer \<times> 'u informer_obj notification list" where
  "fifo_Pops key same syncing 0 nf = (nf, [])"
| "fifo_Pops key same syncing (Suc n) nf =
     (let (nf1, ns) = fifo_Pop key same syncing nf; (nf2, ms) = fifo_Pops key same syncing n nf1
      in (nf2, ns @ ms))"

text \<open>What the queue holds: only a deletion is told by a tombstone. Every operation of the queue
  keeps this.\<close>

definition delta_ok :: "'u delta \<Rightarrow> bool" where
  "delta_ok d = (d_type d = DDeleted \<or> (case d_obj d of DeletedFinalStateUnknown _ _ \<Rightarrow> False | _ \<Rightarrow> True))"

abbreviation queue_ok :: "'u informer \<Rightarrow> bool" where "queue_ok nf \<equiv> list_all delta_ok (inf_items nf)"

lemma queue_ok_new [simp]: "queue_ok new_informer"
  by (simp add: new_informer_def)

lemma queue_ok_put [simp]: "queue_ok nf \<Longrightarrow> queue_ok (fifo_put e nf)"
  by (cases e) (simp_all add: fifo_put_def fifo_add_def delta_ok_def)

lemma queue_ok_Replace [simp]: "queue_ok nf \<Longrightarrow> queue_ok (fifo_Replace key order us nf)"
  using deletes_delete by (fastforce simp: fifo_Replace_def Let_def list_all_iff delta_ok_def)

lemma queue_ok_Pop [simp]: "queue_ok nf \<Longrightarrow> queue_ok (fst (fifo_Pop key same syncing nf))"
  by (auto simp: fifo_Pop_def split: list.splits prod.splits)

section \<open>Lemmas\<close>

text \<open>One delta: its transaction and its callback are what \<open>processDelta\<close> does.\<close>

definition callback ::
  "('u \<Rightarrow> string) \<Rightarrow> ('u \<Rightarrow> 'u \<Rightarrow> bool) \<Rightarrow> bool \<Rightarrow> (string \<rightharpoonup> 'u) \<Rightarrow> 'u delta \<Rightarrow>
   'u informer_obj notification list" where
  "callback key same syncing idx d =
     (if txn_ok key (fst (delta_txn key idx d)) \<and> distributed same syncing (snd (delta_txn key idx d))
      then [snd (delta_txn key idx d)] else [])"

lemma processDelta_txn:
  "delta_ok d \<Longrightarrow> processDelta key same syncing d idx =
     (apply_txn key (fst (delta_txn key idx d)) idx, callback key same syncing idx d)"
  by (cases "d_obj d")
     (auto simp: processDelta_def delta_txn_def callback_def txn_ok_def apply_txn_def delta_ok_def Let_def
       split: option.split)

lemma processDeltasInBatch_concat:
  "processDeltasInBatch key same syncing ds idx =
     (fold (apply_txn key) (map (fst \<circ> delta_txn key idx) ds) idx,
      concat (map (callback key same syncing idx) ds))"
proof -
  have "filter (distributed same syncing) (map snd (filter (\<lambda>tc. txn_ok key (fst tc)) (map (delta_txn key idx) ds))) =
      concat (map (callback key same syncing idx) ds)"
    by (induction ds) (simp_all add: callback_def)
  then show ?thesis by (simp add: processDeltasInBatch_def Let_def)
qed

text \<open>What was read before the transaction is still there when the turn of its delta comes.\<close>

lemma delta_txn_cong:
  "(\<And>k. keyOf key (d_obj d) = Some k \<Longrightarrow> idx k = idx0 k) \<Longrightarrow> delta_txn key idx d = delta_txn key idx0 d"
  by (simp add: delta_txn_def Let_def split: option.split)

lemma apply_txn_other:
  "keyOf key (d_obj d) \<noteq> Some k \<Longrightarrow> apply_txn key (fst (delta_txn key idx0 d)) idx k = idx k"
  by (auto simp: apply_txn_def delta_txn_def Let_def split: option.splits informer_obj.splits)

lemma fifo_Pops_batch:
  assumes "list_all delta_ok ds" "batch = take_batch key unique n ds"
    and "\<And>k. k \<notin> unique \<Longrightarrow> idx k = idx0 k"
  shows "fifo_Pops key same syncing (length batch) \<lparr>inf_indexer = idx, inf_items = ds\<rparr> =
    (\<lparr>inf_indexer = fold (apply_txn key) (map (fst \<circ> delta_txn key idx0) batch) idx,
      inf_items = drop (length batch) ds\<rparr>,
     concat (map (callback key same syncing idx0) batch))"
  using assms
proof (induction key unique n ds arbitrary: batch idx rule: take_batch.induct)
  case (1 key unique n d ds)
  let ?t = "fst (delta_txn key idx0 d)"
  have step: "fifo_Pop key same syncing \<lparr>inf_indexer = idx, inf_items = d # ds\<rparr> =
      (\<lparr>inf_indexer = apply_txn key ?t idx, inf_items = ds\<rparr>, callback key same syncing idx0 d)"
    if "\<And>k. keyOf key (d_obj d) = Some k \<Longrightarrow> k \<notin> unique"
  proof -
    have "delta_txn key idx d = delta_txn key idx0 d" by (rule delta_txn_cong) (use that 1(4) in blast)
    with 1(2) show ?thesis by (simp add: fifo_Pop_def processDelta_txn callback_def)
  qed
  show ?case
  proof (cases "keyOf key (d_obj d)")
    case None
    with 1(3) step show ?thesis by simp
  next
    case (Some k)
    show ?thesis
    proof (cases "k \<in> unique")
      case True
      with 1(3) Some show ?thesis by simp
    next
      case False
      let ?b = "take_batch key (insert k unique) n ds"
      have b: "batch = d # ?b" using 1(3) Some False by simp
      have "list_all delta_ok ds" using 1(2) by simp
      moreover have "apply_txn key ?t idx j = idx0 j" if "j \<notin> insert k unique" for j
        using that Some 1(4) by (subst apply_txn_other) auto
      ultimately show ?thesis
        using 1(1) [OF Some False _ refl, of "apply_txn key ?t idx"] step Some False by (simp add: b)
    qed
  qed
qed simp_all

lemma take_batch_le: "length (take_batch key unique n ds) \<le> length ds"
  by (induction key unique n ds rule: take_batch.induct) (auto split: option.split)

lemma take_batch_length: "length (take_batch key unique n ds) \<le> n"
  by (induction key unique n ds rule: take_batch.induct) (auto split: option.split)

section \<open>Property\<close>

text \<open>C26. A batch does what single steps do: \<open>PopBatch\<close> with \<open>processDeltasInBatch\<close> leaves the indexer, the
  queue and the notifications, in their order, as that many calls of \<open>Pop\<close> with \<open>processDeltas\<close> do. It
  takes at least one delta off a queue that is not empty, and at most a thousand.\<close>

theorem batch_equals_pops:
  assumes "queue_ok nf"
  shows "PopBatch key same syncing initial nf =
      (case fifo_Pops key same syncing (batch_length key initial nf) nf of
         (nf1, ns) \<Rightarrow> ((nf1, initial - batch_length key initial nf), ns)) \<and>
    batch_length key initial nf \<le> min batchSize (length (inf_items nf)) \<and>
    (inf_items nf \<noteq> [] \<longrightarrow> 0 < batch_length key initial nf)"
proof -
  let ?b = "take_batch key {} (batch_bound initial) (inf_items nf)"
  have pops: "fifo_Pops key same syncing (length ?b) nf =
      (\<lparr>inf_indexer = fold (apply_txn key) (map (fst \<circ> delta_txn key (inf_indexer nf)) ?b) (inf_indexer nf),
        inf_items = drop (length ?b) (inf_items nf)\<rparr>,
       concat (map (callback key same syncing (inf_indexer nf)) ?b))"
    using fifo_Pops_batch [OF assms refl refl, of key same syncing "{}" "batch_bound initial" "inf_indexer nf"]
    by (cases nf) simp
  have "0 < batch_bound initial" by (simp add: batch_bound_def batchSize_def)
  then have "?b \<noteq> []" if "inf_items nf \<noteq> []"
    using that by (cases "inf_items nf"; cases "batch_bound initial") (auto split: option.split)
  moreover have "length ?b \<le> batchSize"
    using take_batch_length [of key "{}" "batch_bound initial" "inf_items nf"] by (simp add: batch_bound_def split: if_splits)
  ultimately show ?thesis
    using pops take_batch_le [of key "{}" "batch_bound initial" "inf_items nf"]
    by (simp add: batch_length_def PopBatch_def processDeltasInBatch_concat Let_def)
qed

text \<open>Two objects are added and the first is then changed: the change waits for the next batch.\<close>

theorem batch_equals_pops_witness:
  "PopBatch id (=) False 3 (fifo_put (WireModified ''a'') (fifo_put (WireAdded ''b'')
       (fifo_put (WireAdded ''a'') new_informer))) =
     ((fst (fifo_Pops id (=) False 2 (fifo_put (WireModified ''a'') (fifo_put (WireAdded ''b'')
         (fifo_put (WireAdded ''a'') new_informer)))), 1),
      [Added (Unstructured ''a''), Added (Unstructured ''b'')])"
proof -
  let ?nf = "fifo_put (WireModified ''a'') (fifo_put (WireAdded ''b'') (fifo_put (WireAdded ''a'') new_informer))"
  have b: "batch_bound 3 = Suc (Suc (Suc 0))" by (simp add: batch_bound_def batchSize_def)
  have n: "batch_length id 3 ?nf = Suc (Suc 0)"
    by (simp add: batch_length_def b fifo_put_def fifo_add_def new_informer_def)
  have "queue_ok ?nf" by simp
  from batch_equals_pops [OF this, of id "(=)" False 3, unfolded n] show ?thesis
    by (simp add: fifo_put_def fifo_add_def new_informer_def fifo_Pop_def processDelta_def numeral_2_eq_2)
qed

end
