(* ===== verification/Resync.thy ===== *)
theory Resync
  imports Pipeline Batch
begin

text \<open>
  The resync of an informer: every five minutes (\<open>resyncPeriod\<close> of \<open>pkg/controller/watcher.go\<close>) the
  reflector calls \<open>Resync\<close> of its queue (\<open>the_real_fifo.go\<close>), and the handlers see again every object
  the indexer holds. This repairs what a failed API call or another client left behind, but an
  import whose export is gone is in no indexer any more.
\<close>

section \<open>\<open>Resync\<close>\<close>

text \<open>A delta for every known object without one; nothing when an item of the queue has no key.\<close>

definition fifo_Resync ::
  "('u \<Rightarrow> string) \<Rightarrow> ((string \<rightharpoonup> 'u) \<Rightarrow> string list) \<Rightarrow> 'u informer \<Rightarrow> 'u informer" where
  "fifo_Resync key order nf =
     (if list_ex (\<lambda>d. keyOf key (d_obj d) = None) (inf_items nf) then nf
      else
        nf\<lparr>inf_items := inf_items nf @
             List.map_filter (\<lambda>k.
               if k \<in> set (queued_keys key (inf_items nf)) then None
               else map_option (\<lambda>u. \<lparr>d_type = DSync, d_obj = Unstructured u\<rparr>) (inf_indexer nf k))
             (order (inf_indexer nf))\<rparr>)"

lemma queue_ok_Resync [simp]: "queue_ok nf \<Longrightarrow> queue_ok (fifo_Resync key order nf)"
  by (auto simp: fifo_Resync_def list_all_iff set_map_filter_iff delta_ok_def split: if_splits)

text \<open>The resync of an informer with nothing queued.\<close>

definition sync_deltas :: "(string \<rightharpoonup> 'u) \<Rightarrow> string list \<Rightarrow> 'u delta list" where
  "sync_deltas idx ks = List.map_filter (\<lambda>k. map_option (\<lambda>u. \<lparr>d_type = DSync, d_obj = Unstructured u\<rparr>) (idx k)) ks"

lemma Resync_drained:
  "inf_items nf = [] \<Longrightarrow> fifo_Resync key order nf =
     \<lparr>inf_indexer = inf_indexer nf, inf_items = sync_deltas (inf_indexer nf) (order (inf_indexer nf))\<rparr>"
  by (cases nf) (simp add: fifo_Resync_def sync_deltas_def queued_keys_def List.map_filter_simps)

section \<open>What the handlers see\<close>

context informer_consumer
begin

text \<open>Draining a resync: the indexer stays, and the handlers see every object as it is.\<close>

lemma drain_sync:
  assumes "indexed idx"
  shows "\<exists>ns. fifo_Pops key same True (length (sync_deltas idx ks)) \<lparr>inf_indexer = idx, inf_items = sync_deltas idx ks\<rparr> =
      (\<lparr>inf_indexer = idx, inf_items = []\<rparr>, ns) \<and>
    (\<forall>s k. view_at (fold handle ns s) k =
       (case Option.bind (if k \<in> set ks then idx k else None) want of None \<Rightarrow> view_at s k | Some x \<Rightarrow> Some x))"
proof (induction ks)
  case (Cons k ks)
  then obtain ns where ns:
    "fifo_Pops key same True (length (sync_deltas idx ks)) \<lparr>inf_indexer = idx, inf_items = sync_deltas idx ks\<rparr> =
      (\<lparr>inf_indexer = idx, inf_items = []\<rparr>, ns)"
    "\<And>s j. view_at (fold handle ns s) j =
       (case Option.bind (if j \<in> set ks then idx j else None) want of None \<Rightarrow> view_at s j | Some x \<Rightarrow> Some x)"
    by blast
  show ?case
  proof (cases "idx k")
    case None
    then show ?thesis
      using ns by (intro exI [of _ ns]) (auto simp: sync_deltas_def List.map_filter_simps)
  next
    case (Some u)
    then have u: "key u = k" "good u" "idx(k \<mapsto> u) = idx" using assms by (auto simp: indexed_def)
    let ?n = "Updated (Unstructured u) (Unstructured u)"
    have d: "sync_deltas idx (k # ks) = \<lparr>d_type = DSync, d_obj = Unstructured u\<rparr> # sync_deltas idx ks"
      using Some by (simp add: sync_deltas_def List.map_filter_simps)
    have "view_at (fold handle (?n # ns) s) j =
       (case Option.bind (if j \<in> set (k # ks) then idx j else None) want of None \<Rightarrow> view_at s j | Some x \<Rightarrow> Some x)"
      for s j
      using Some u(1) by (auto simp: ns(2) handle_update [OF u(2)] split: option.split)
    then show ?thesis
      using ns(1) Some u by (intro exI [of _ "?n # ns"]) (simp add: d fifo_Pop_def processDelta_def)
  qed
qed (simp add: sync_deltas_def List.map_filter_simps)

text \<open>A resync shows what the indexer holds, whatever was there before, and changes nothing else.\<close>

lemma resync_shows:
  assumes "indexed (inf_indexer nf)" "inf_items nf = []" "set (order (inf_indexer nf)) = dom (inf_indexer nf)"
    and "rs = fifo_Resync key order nf"
  shows "\<exists>ns. fifo_Pops key same True (length (inf_items rs)) rs = (nf, ns) \<and>
    (\<forall>s k. view_at (fold handle ns s) k =
       (case Option.bind (inf_indexer nf k) want of None \<Rightarrow> view_at s k | Some x \<Rightarrow> Some x))"
proof -
  have "nf = \<lparr>inf_indexer = inf_indexer nf, inf_items = []\<rparr>" using assms(2) by simp
  moreover have "(if k \<in> set (order (inf_indexer nf)) then inf_indexer nf k else None) = inf_indexer nf k" for k
    using assms(3) by auto
  ultimately show ?thesis
    using drain_sync [OF assms(1), of same "order (inf_indexer nf)"]
    by (simp add: assms(4) Resync_drained [OF assms(2)])
qed

end

section \<open>Property\<close>

text \<open>C24. A resync repairs the imports. Let the informer of a watcher hold the exports the emitter
  selects, with nothing queued, and let the local cluster be in any state, as failed calls or other
  clients may have left it. Once it answers again, a resync brings every import with a readable
  export to what the export says, and leaves all other imports as they are; in particular an import
  whose deletion failed once is left in place by every resync.\<close>

theorem resync_repairs:
  assumes B: "synced_cluster c ex ex' sv sv' im im' sl sl' up settle"
    and s: "up s" "im' s = im s" "sl' s = sl s"
    and wr: "export_wiring wr" and decode: "\<And>se. fromSE (wr_encode wr (ItemExport se)) = Some se"
    and m: "finite (dom m)" "\<And>k se. m k = Some se \<Longrightarrow> k = se_name se \<and> sound_export se"
    and nf: "inf_indexer nf = expected wr m" "inf_items nf = []"
    and rs: "rs = fifo_Resync (wr_key wr) (wr_order wr) nf"
  shows "\<exists>ns. fifo_Pops (wr_key wr) (wr_same wr) True (length (inf_items rs)) rs = (nf, ns) \<and>
    (\<forall>nn. sound_namespace (Namespace nn) \<longrightarrow>
       map_option import_view
         (im (snd (run_events w fromSE (\<lambda>_. None) c settle (map OnExport ns) (cd, s))) nn) =
       (case Option.bind (expected wr m (nn_String nn)) (wanted fromSE) of
          None \<Rightarrow> map_option import_view (im s nn)
        | Some x \<Rightarrow> Some x))"
proof -
  let ?good = "decodes_to UNIV (wr_key wr) fromSE"
  note store = conjunct2 [OF wr]
  have "informer_consumer.indexed (wr_key wr) ?good (inf_indexer nf)"
    using m(2) feed_libs.encoded_key [OF conjunct1 [OF wr]] decode
    by (auto simp: store wr_name_export [OF store] export_consumer.indexed_def nf(1) expected_def decodes_to_def split: option.splits if_splits)
  moreover have "finite (dom (inf_indexer nf))"
    by (rule finite_subset [OF _ m(1)]) (auto simp: nf(1) expected_def split: option.splits)
  then have "set (wr_order wr (inf_indexer nf)) = dom (inf_indexer nf)"
    using feed_libs.order [OF conjunct1 [OF wr]] by blast
  ultimately obtain ns where ns: "fifo_Pops (wr_key wr) (wr_same wr) True (length (inf_items rs)) rs = (nf, ns)"
    "\<And>m0 k. import_at (fold (export_event w fromSE) ns m0) k =
       (case Option.bind (expected wr m k) (wanted fromSE) of None \<Rightarrow> import_at m0 k | Some x \<Rightarrow> Some x)"
    using export_consumer.resync_shows [OF _ nf(2) _ rs, of UNIV fromSE "wr_same wr" w] unfolding nf(1) by blast
  let ?s1 = "snd (run_events w fromSE (\<lambda>_. None) c settle (map OnExport ns) (cd, s))"
  note view = notes_view [OF B s refl, of w fromSE ns cd]
  have at: "import_at (mirror_view (im t) (sl t)) (nn_String nn) = map_option import_view (im t nn)"
    if "sound_namespace (Namespace nn)" for t nn
    by (simp add: import_at_def mirror_view_def split_key_String [OF that])
  have "map_option import_view (im ?s1 nn) =
      (case Option.bind (expected wr m (nn_String nn)) (wanted fromSE) of
         None \<Rightarrow> map_option import_view (im s nn) | Some x \<Rightarrow> Some x)"
    if "sound_namespace (Namespace nn)" for nn
    using ns(2) [of "mirror_view (im s) (sl s)" "nn_String nn", folded view, unfolded at [OF that]] .
  with ns(1) show ?thesis by blast
qed

text \<open>An import that another client removed is back after the resync.\<close>

theorem resync_repairs_witness:
  "\<exists>ns. fifo_Pops se_name (=) True 1 (fifo_Resync se_name (\<lambda>idx. sorted_list_of_set (dom idx))
       \<lparr>inf_indexer = [''shop/web'' \<mapsto> annotate web_service web_export], inf_items = []\<rparr>) =
     (\<lparr>inf_indexer = [''shop/web'' \<mapsto> annotate web_service web_export], inf_items = []\<rparr>, ns) \<and>
   map_option import_view (v_Imports (snd (run_events (NewWatcher ''b'' ''a'' [] []) Some (\<lambda>_. None)
     mem_client sync (map OnExport ns) (None, empty_mem))) web) = Some (spec_of_service web_service)"
proof -
  let ?wr = "plain_wiring None []" and ?se = "annotate web_service web_export"
  let ?m = "[''shop/web'' \<mapsto> ?se]" and ?nf = "\<lparr>inf_indexer = [''shop/web'' \<mapsto> ?se], inf_items = []\<rparr>"
  let ?rs = "fifo_Resync (wr_key ?wr) (wr_order ?wr) ?nf"
  have utf8: "service_utf8 web_service"
    by simp
  have meta: "om_Namespace (se_meta ?se) = ''shop''" "om_Name (se_meta ?se) = ''web''"
    by (simp_all add: annotate_def web_export_def web_meta_def empty_meta_def)
  have name: "se_name ?se = ''shop/web''" "nn_String web = ''shop/web''" "Namespace web = ''shop''"
    by (simp_all add: se_name_def meta_key_def meta nn_String_def web_def)
  have sel: "selects ?wr ?se" by (simp add: selects_def options_select_def)
  have exp: "expected ?wr ?m = ?m" by (rule ext) (simp add: expected_def sel)
  have len: "length (inf_items ?rs) = 1"
    by (simp add: Resync_drained sync_deltas_def List.map_filter_simps)
  have sound: "?m k = Some se \<Longrightarrow> k = se_name se \<and> sound_export se" for k se
    by (auto simp: sound_export_def sound_namespace_def name meta split: if_splits)
  have sns: "sound_namespace (Namespace web)" by (simp add: sound_namespace_def name)
  have "\<exists>ns. fifo_Pops (wr_key ?wr) (wr_same ?wr) True (length (inf_items ?rs)) ?rs = (?nf, ns) \<and>
    (\<forall>nn. sound_namespace (Namespace nn) \<longrightarrow>
       map_option import_view (v_Imports (snd (run_events (NewWatcher ''b'' ''a'' [] []) Some (\<lambda>_. None)
         mem_client sync (map OnExport ns) (None, empty_mem))) nn) =
       (case Option.bind (expected ?wr ?m (nn_String nn)) (wanted Some) of
          None \<Rightarrow> map_option import_view (v_Imports empty_mem nn) | Some x \<Rightarrow> Some x))"
    by (rule resync_repairs [OF mem_synced_cluster _ _ _ export_plain _ _ sound _ _ refl])
       (simp_all add: exp)
  then obtain ns where ns: "fifo_Pops (wr_key ?wr) (wr_same ?wr) True (length (inf_items ?rs)) ?rs = (?nf, ns)"
    "map_option import_view (v_Imports (snd (run_events (NewWatcher ''b'' ''a'' [] []) Some (\<lambda>_. None)
         mem_client sync (map OnExport ns) (None, empty_mem))) web) =
       (case Option.bind (expected ?wr ?m (nn_String web)) (wanted Some) of
          None \<Rightarrow> map_option import_view (v_Imports empty_mem web) | Some x \<Rightarrow> Some x)"
    using sns by blast
  have "Option.bind (expected ?wr ?m (nn_String web)) (wanted Some) = Some (spec_of_service web_service)"
    by (simp add: exp name wanted_def extract_annotate [OF utf8])
  moreover have "wr_order ?wr = (\<lambda>idx. sorted_list_of_set (dom idx))" by (simp add: plain_wiring_def)
  ultimately show ?thesis using ns unfolding len by (intro exI [of _ ns]) simp
qed

end
