(* ===== verification/List_Watch.thy ===== *)
theory List_Watch
  imports Storage
begin

text \<open>
  \<open>List\<close> against \<open>Watch\<close>, the two ways in which a client reads a store of \<open>pkg/storage/storage.go\<close>:
  where they agree, and where a watcher misses what a list shows.
\<close>

section \<open>A new watcher\<close>

text \<open>An event right after the registration is in the channel of the new watcher if and only if its
  selectors and its namespace select the object.\<close>

lemma new_watcher_event:
  assumes "reg_live r" "addWatcher ls fs ns r = (a, r1)" "item_meta u_meta obj = Some m"
  shows "\<exists>r2. handler u_meta (reg_ws r1) et obj r1 = Inr r2 \<and>
    ch_buf (sw_ch (reg_heap r2 ! a)) =
      (if sel_Matches ls (om_Labels m) \<and> field_Matches fs (ObjectMetaFieldsSet m True) \<and>
          matchNamespace ns m then [(et, obj)] else [])"
proof -
  have r1: "reg_live r1" "reg_ws r1 = reg_ws r @ [Some a]" "a = length (reg_heap r)"
    using reg_live_add [OF assms(1), of ls fs ns] assms(2) by simp_all
  have w: "reg_heap r1 ! a = \<lparr>sw_ch = \<lparr>ch_buf = [], ch_closed = False\<rparr>, sw_ls = ls, sw_fs = fs,
      sw_ns = ns, sw_idx = length (reg_ws r)\<rparr>" "a < length (reg_heap r1)"
    using assms(2) by (auto simp: addWatcher_def Let_def)
  show ?thesis
    using handler_ok [OF r1(1) assms(3), of et] r1(2) w
    by (auto simp: push_buf sw_selects_def chan_cap_def)
qed

text \<open>What is listed is in the store and selected, for slices with an export.\<close>

lemma listed_export:
  assumes "\<And>rs. set (srt rs) = set rs" "se_List srt True store ns options = Listed ses"
    and "ItemExport se \<in> set store"
  shows "se \<in> set ses \<longleftrightarrow> options_select options ns (se_meta se)"
proof -
  obtain all where all: "typed_exports store = Some all"
      "ses = filter (\<lambda>se. options_select options ns (se_meta se)) all"
    using assms(2) helpers_select [OF assms(1), of options, symmetric]
    by (auto simp: se_List_def se_list_items_typed split: option.splits)
  have "se \<in> set all"
    using all(1) assms(3) by (induction store arbitrary: all) (auto simp: typed_exports_def split: item.splits)
  then show ?thesis by (simp add: all(2))
qed

lemma listed_slice:
  assumes "\<And>rs. set (srt rs) = set rs" "es_List srt True True keys store ns options = Listed ess"
    and "ItemSlice es \<in> set store"
  shows "es \<in> set ess \<longleftrightarrow> options_select options ns (es_meta es) \<and> hasExport keys es"
proof -
  obtain all where all: "typed_slices store = Some all"
      "ess = filter (\<lambda>es. options_select options ns (es_meta es) \<and> hasExport keys es) all"
    using assms(2) helpers_select [OF assms(1), of options, symmetric]
    by (auto simp: es_List_def es_list_items_typed split: option.splits)
  have "es \<in> set all"
    using all(1) assms(3) by (induction store arbitrary: all) (auto simp: typed_slices_def split: item.splits)
  then show ?thesis by (simp add: all(2))
qed

section \<open>Properties\<close>

text \<open>C25. The two ways to read a store agree: for the same options and namespace, the event of an object
  that is in the store reaches the channel of a watcher just registered exactly when a list returns
  the object, for exports and for slices.\<close>

theorem watch_agrees_with_list:
  assumes srt: "\<And>rs. set (srt rs) = set rs" and live: "reg_live r"
    and se: "se_List srt True exports ns options = Listed ses" "ItemExport se \<in> set exports"
      "st_Watch srt ns options r = (a, r1)"
    and es: "es_List srt True True keys slices ns options = Listed ess" "ItemSlice es \<in> set slices"
      "es_Watch srt ns options r = (b, r2)"
  shows "\<exists>r3 r4. se_OnAdd u_meta (ItemExport se) r1 = Inr r3 \<and> es_OnAdd u_meta keys (ItemSlice es) r2 = Inr r4 \<and>
    ch_buf (sw_ch (reg_heap r3 ! a)) = (if se \<in> set ses then [(EventAdded, ItemExport se)] else []) \<and>
    ch_buf (sw_ch (reg_heap r4 ! b)) = (if es \<in> set ess then [(EventAdded, ItemSlice es)] else [])"
proof -
  have new: "ch_buf (sw_ch (reg_heap r2 ! b)) = []"
    using es(3) by (auto simp: es_Watch_def addWatcher_def Let_def)
  obtain r3 where r3: "se_OnAdd u_meta (ItemExport se) r1 = Inr r3"
      "ch_buf (sw_ch (reg_heap r3 ! a)) = (if se \<in> set ses then [(EventAdded, ItemExport se)] else [])"
    using new_watcher_event [OF live se(3) [unfolded st_Watch_def], of u_meta "ItemExport se" "se_meta se" EventAdded]
      helpers_select [OF srt, of options "se_meta se" ns] listed_export [OF srt se(1,2)]
    by (auto simp: item_meta_def se_OnAdd_def)
  obtain r4 where r4: "es_OnAdd u_meta keys (ItemSlice es) r2 = Inr r4"
      "ch_buf (sw_ch (reg_heap r4 ! b)) = (if es \<in> set ess then [(EventAdded, ItemSlice es)] else [])"
  proof (cases "hasExport keys es")
    case True
    then show ?thesis
      using that new_watcher_event [OF live es(3) [unfolded es_Watch_def], of u_meta "ItemSlice es" "es_meta es" EventAdded]
        helpers_select [OF srt, of options "es_meta es" ns] listed_slice [OF srt es(1,2)]
      by (auto simp: item_meta_def es_OnAdd_def)
  next
    case False
    then show ?thesis using that [of r2] new listed_slice [OF srt es(1,2)] by (simp add: es_OnAdd_def)
  qed
  from r3 r4 show ?thesis by blast
qed

theorem watch_agrees_with_list_witness:
  "case se_OnAdd (\<lambda>u. u) (ItemExport web_export) (snd (st_Watch id ''shop'' None empty_registry)) of
     Inl p \<Rightarrow> False
   | Inr r3 \<Rightarrow> ch_buf (sw_ch (reg_heap r3 ! 0)) = [(EventAdded, ItemExport web_export)]"
proof -
  have l: "se_List id True [ItemExport web_export :: object_meta item] ''shop'' None = Listed [web_export]"
    "es_List id True True {''shop/web''} [ItemSlice web_slice :: object_meta item] ''shop'' None = Listed [web_slice]"
    by (simp_all add: se_List_def es_List_def mergeSelectors_def sel_Add_def Everything_def
        sel_Requirements_def sel_Matches_def defaultFieldSelector_def matchNamespace_def web_export_def
        web_meta_def web_slice_def hasExport_def get0_def api_const_defs)
  let ?r = "empty_registry :: object_meta registry"
  have "fst (st_Watch id ''shop'' None ?r) = 0"
    by (simp add: st_Watch_def addWatcher_def Let_def empty_registry_def)
  then show ?thesis
    using watch_agrees_with_list [of id ?r, OF _ _ l(1) _ surjective_pairing l(2) _ surjective_pairing, of web_export web_slice
        "\<lambda>u. u"]
    by auto
qed

text \<open>A slice that is stored before its export never reaches the watchers: the event of the slice is
  dropped, since its Service has no export yet, and the export, when it comes, only goes to the
  watchers of exports. From then on a list shows the slice, while the channel of every watcher of
  slices is as it was, so that its mirror is missing until the slice changes.\<close>

theorem late_export_not_sent:
  assumes srt: "\<And>rs. set (srt rs) = set rs" and live: "reg_live er"
    and before: "\<not> hasExport keys es" and after: "hasExport (insert (nn_String (se_key se)) keys) es"
    and listed: "es_List srt True True (insert (nn_String (se_key se)) keys) slices ns options = Listed ess"
      "ItemSlice es \<in> set slices" "options_select options ns (es_meta es)"
  shows "es_OnAdd u_meta keys (ItemSlice es) r = Inr r \<and> es_OnUpdate u_meta keys (ItemSlice es) r = Inr r \<and>
    (\<exists>er1. se_OnAdd u_meta (ItemExport se) er = Inr er1) \<and> es \<in> set ess"
proof -
  have "\<exists>er1. se_OnAdd u_meta (ItemExport se) er = Inr er1"
    using handler_ok [OF live, of u_meta "ItemExport se" "se_meta se" EventAdded]
    by (auto simp: se_OnAdd_def item_meta_def)
  with before after listed_slice [OF srt listed(1,2)] listed(3) show ?thesis
    by (simp add: es_OnAdd_def es_OnUpdate_def)
qed

theorem late_export_not_sent_witness:
  "es_OnAdd (\<lambda>u. u) {} (ItemSlice web_slice) (snd (es_Watch id ''shop'' None empty_registry)) =
     Inr (snd (es_Watch id ''shop'' None (empty_registry :: object_meta registry))) \<and>
   es_List id True True {''shop/web''} [ItemSlice web_slice :: object_meta item] ''shop'' None = Listed [web_slice]"
proof -
  have k: "nn_String web = ''shop/web''" by (simp add: nn_String_def web_def)
  have slice: "get0 (om_Labels (es_meta web_slice)) LabelServiceName = ''web''"
    "om_Namespace (es_meta web_slice) = ''shop''"
    by (simp_all add: web_slice_def get0_def api_const_defs)
  have l: "es_List id True True (insert (nn_String (se_key web_export)) {}) [ItemSlice web_slice :: object_meta item]
      ''shop'' None = Listed [web_slice]"
    by (simp add: k es_List_def mergeSelectors_def sel_Add_def Everything_def sel_Requirements_def
        sel_Matches_def defaultFieldSelector_def matchNamespace_def slice hasExport_def)
  have p: "\<not> hasExport {} web_slice" "hasExport (insert (nn_String (se_key web_export)) {}) web_slice"
    "options_select None ''shop'' (es_meta web_slice)"
    by (simp_all add: k hasExport_def slice options_select_def)
  have s: "reg_live (empty_registry :: object_meta registry)" "\<And>rs. set (id rs) = set rs" by simp_all
  have i: "ItemSlice web_slice \<in> set [ItemSlice web_slice :: object_meta item]" by simp
  show ?thesis
    using late_export_not_sent [OF s(2,1) p(1,2) l i p(3), of "\<lambda>u. u"] l k by auto
qed

end
