(* ===== verification/Registry_Runs.thy ===== *)
theory Registry_Runs
  imports Feed
begin

text \<open>
  The registry of watchers of \<open>pkg/storage/storage.go\<close> over its whole life: clients watch, the informer
  notifies, clients read their channels, and clients stop. A notification is two steps, as in the code: the
  argument \<open>s.ws\<close> of \<open>handler\<close> is read before the lock is taken, the delivery happens under it, and anything
  may happen in between. The slice that was read shares its array with the registry until an \<open>append\<close>
  moves the registry to a new one; up to then \<open>stop\<close> and \<open>append\<close> write into what was read. The informer
  calls the handlers of a storage one after the other, so there is one notification at a time. (The
  read of the slice header is taken as one read, although nothing in the code makes it one.)
\<close>

section \<open>Runs\<close>

record 'u in_flight =
  fl_type :: event_type
  fl_obj :: "'u item"
  fl_ws :: "nat option list"
  fl_shared :: bool

record 'u reg_state =
  rs_reg :: "'u registry"
  rs_flight :: "'u in_flight option"

text \<open>\<open>grows\<close> says that the array is full and \<open>append\<close> allocates a new one.\<close>

datatype 'u reg_op =
  RegWatch bool label_selector field_selector string
| RegRead event_type "'u item"
| RegDeliver
| RegReceive nat
| RegStop nat

definition start_registry :: "'u reg_state" where
  "start_registry = \<lparr>rs_reg = empty_registry, rs_flight = None\<rparr>"

text \<open>What \<open>append\<close> and \<open>stop\<close> do to a slice that was read before.\<close>

definition flight_append :: "bool \<Rightarrow> nat \<Rightarrow> nat option list \<Rightarrow> 'u in_flight \<Rightarrow> 'u in_flight" where
  "flight_append grows a ws fl =
     (if \<not> fl_shared fl then fl
      else if grows then fl\<lparr>fl_shared := False\<rparr>
      else fl\<lparr>fl_ws := (fl_ws fl)[length ws := Some a]\<rparr>)"

definition flight_stop :: "nat \<Rightarrow> nat option list \<Rightarrow> 'u in_flight \<Rightarrow> 'u in_flight" where
  "flight_stop i ws fl =
     (if fl_shared fl then fl\<lparr>fl_ws := ((fl_ws fl)[i := last ws])[length ws - 1 := None]\<rparr> else fl)"

definition reg_step :: "('u \<Rightarrow> object_meta) \<Rightarrow> 'u reg_op \<Rightarrow> 'u reg_state \<Rightarrow> panic + 'u reg_state" where
  "reg_step u_meta rop st =
     (let r = rs_reg st
      in case rop of
        RegWatch grows ls fs ns \<Rightarrow>
          (case addWatcher ls fs ns r of
             (a, r1) \<Rightarrow> Inr \<lparr>rs_reg = r1, rs_flight = map_option (flight_append grows a (reg_ws r)) (rs_flight st)\<rparr>)
      | RegRead et obj \<Rightarrow>
          Inr (if rs_flight st \<noteq> None then st
               else st\<lparr>rs_flight := Some \<lparr>fl_type = et, fl_obj = obj, fl_ws = reg_ws r, fl_shared = True\<rparr>\<rparr>)
      | RegDeliver \<Rightarrow>
          (case rs_flight st of
             None \<Rightarrow> Inr st
           | Some fl \<Rightarrow>
               (case handler u_meta (fl_ws fl) (fl_type fl) (fl_obj fl) r of
                  Inl p \<Rightarrow> Inl p
                | Inr r1 \<Rightarrow> Inr \<lparr>rs_reg = r1, rs_flight = None\<rparr>))
      | RegReceive a \<Rightarrow> Inr (if a < length (reg_heap r) then st\<lparr>rs_reg := take_event a r\<rparr> else st)
      | RegStop a \<Rightarrow>
          if a < length (reg_heap r)
          then (case Stop a r of
                  Inl p \<Rightarrow> Inl p
                | Inr r1 \<Rightarrow>
                    Inr \<lparr>rs_reg = r1, rs_flight = map_option (flight_stop (sw_idx (reg_heap r ! a)) (reg_ws r)) (rs_flight st)\<rparr>)
          else Inr st)"

fun reg_run :: "('u \<Rightarrow> object_meta) \<Rightarrow> 'u reg_op list \<Rightarrow> 'u reg_state \<Rightarrow> panic + 'u reg_state" where
  "reg_run u_meta [] st = Inr st"
| "reg_run u_meta (rop # rops) st =
     (case reg_step u_meta rop st of Inl p \<Rightarrow> Inl p | Inr st1 \<Rightarrow> reg_run u_meta rops st1)"

text \<open>Only the newest watcher stops, and not between a read that saw it and the delivery.\<close>

definition in_order :: "'u reg_op \<Rightarrow> 'u reg_state \<Rightarrow> bool" where
  "in_order rop st =
     (case rop of
        RegStop a \<Rightarrow>
          reg_ws (rs_reg st) \<noteq> [] \<and> last (reg_ws (rs_reg st)) = Some a \<and>
          (case rs_flight st of None \<Rightarrow> True | Some fl \<Rightarrow> Some a \<notin> set (fl_ws fl))
      | _ \<Rightarrow> True)"

fun orderly :: "('u \<Rightarrow> object_meta) \<Rightarrow> 'u reg_op list \<Rightarrow> 'u reg_state \<Rightarrow> bool" where
  "orderly u_meta [] st = True"
| "orderly u_meta (rop # rops) st =
     (in_order rop st \<and> (case reg_step u_meta rop st of Inl p \<Rightarrow> True | Inr st1 \<Rightarrow> orderly u_meta rops st1))"

section \<open>The invariant\<close>

text \<open>A channel holds at most what fits, and only events of objects its watcher selects.\<close>

definition sw_wants :: "('u \<Rightarrow> object_meta) \<Rightarrow> 'u swatcher \<Rightarrow> 'u event \<Rightarrow> bool" where
  "sw_wants u_meta w e = (case item_meta u_meta (snd e) of None \<Rightarrow> False | Some m \<Rightarrow> sw_selects w m)"

definition sw_clean :: "('u \<Rightarrow> object_meta) \<Rightarrow> 'u swatcher \<Rightarrow> bool" where
  "sw_clean u_meta w =
     (length (ch_buf (sw_ch w)) \<le> chan_cap \<and> list_all (sw_wants u_meta w) (ch_buf (sw_ch w)))"

definition reg_inv :: "('u \<Rightarrow> object_meta) \<Rightarrow> 'u registry \<Rightarrow> bool" where
  "reg_inv u_meta r = (reg_live r \<and> (\<forall>a < length (reg_heap r). sw_clean u_meta (reg_heap r ! a)))"

lemma sw_wants_only [simp]:
  "sw_wants u_meta (w\<lparr>sw_ch := ch\<rparr>) = sw_wants u_meta w" "sw_wants u_meta (push e w) = sw_wants u_meta w"
  by (rule ext, simp add: sw_wants_def sw_selects_def push_def Let_def split: option.split)+

lemma sw_clean_push:
  "sw_clean u_meta w \<Longrightarrow> item_meta u_meta obj = Some m \<Longrightarrow> sw_selects w m \<Longrightarrow> sw_clean u_meta (push (et, obj) w)"
  by (simp add: sw_clean_def push_buf) (simp add: sw_wants_def)

lemma reg_inv_watch: "reg_inv u_meta r \<Longrightarrow> reg_inv u_meta (snd (addWatcher ls fs ns r))"
  using reg_live_add(1) [of r ls fs ns]
  by (auto simp: reg_inv_def addWatcher_def Let_def nth_append less_Suc_eq sw_clean_def)

lemma reg_inv_deliver:
  assumes "reg_inv u_meta r" "reg_ws r = ws @ xs"
  shows "\<exists>r1. handler u_meta ws et obj r = Inr r1 \<and> reg_inv u_meta r1 \<and> reg_ws r1 = reg_ws r"
proof (cases "item_meta u_meta obj")
  case None
  then show ?thesis using assms by (simp add: handler_other)
next
  case (Some m)
  have live: "reg_live r" using assms by (simp add: reg_inv_def)
  have "distinct ws" using reg_live_distinct [OF live] assms(2) by simp
  moreover have "\<exists>a. x = Some a \<and> a < length (reg_heap r) \<and> \<not> ch_closed (sw_ch (reg_heap r ! a))" if "x \<in> set ws" for x
    using reg_live_at [OF live, of x] that assms(2) by simp
  ultimately obtain heap where h: "deliver ws m (et, obj) (reg_heap r) = Inr heap" "length heap = length (reg_heap r)"
      "\<And>a. a < length (reg_heap r) \<Longrightarrow> heap ! a =
         (if Some a \<in> set ws \<and> sw_selects (reg_heap r ! a) m then push (et, obj) (reg_heap r ! a) else reg_heap r ! a)"
    using deliver_ok [of ws "reg_heap r" m "(et, obj)"] by auto
  let ?r1 = "r\<lparr>reg_heap := heap\<rparr>"
  have "sw_live ?r1 j a" if "sw_live r j a" for j a using that h(2,3) by (simp add: sw_live_def)
  then have "reg_live ?r1" using live by (fastforce simp: reg_live_def)
  moreover have "sw_clean u_meta (heap ! a)" if "a < length (reg_heap r)" for a
    using assms(1) that sw_clean_push [OF _ Some, of "reg_heap r ! a"] h(3) [OF that] by (simp add: reg_inv_def)
  ultimately show ?thesis using h(1,2) Some by (simp add: handler_def reg_inv_def)
qed

lemma reg_inv_receive:
  assumes "reg_inv u_meta r" "a < length (reg_heap r)"
  shows "reg_inv u_meta (take_event a r)"
proof -
  have "sw_clean u_meta (reg_heap r ! a)" using assms by (simp add: reg_inv_def)
  then have "sw_clean u_meta (reg_heap (take_event a r) ! a)"
    using assms(2)
    by (cases "ch_buf (sw_ch (reg_heap r ! a))")
       (auto simp: take_event_def chan_recv_def sw_clean_def Let_def)
  moreover have "reg_heap (take_event a r) ! b = reg_heap r ! b" if "b \<noteq> a" for b
    using that by (simp add: take_event_def Let_def)
  moreover have "length (reg_heap (take_event a r)) = length (reg_heap r)"
    by (simp add: take_event_def Let_def)
  ultimately show ?thesis
    using assms reg_live_take [of r a] by (metis reg_inv_def)
qed

lemma reg_inv_stop:
  assumes "reg_inv u_meta r" "reg_ws r = ws @ [Some a]"
  shows "\<exists>r1. Stop a r = Inr r1 \<and> reg_inv u_meta r1 \<and> reg_ws r1 = ws"
proof -
  let ?w = "reg_heap r ! a"
  obtain r1 where r1: "Stop a r = Inr r1" "reg_live r1" "reg_ws r1 = ws"
    using Stop_newest [OF _ assms(2)] assms(1) by (auto simp: reg_inv_def)
  then have heap: "reg_heap r1 = (reg_heap r)[a := ?w\<lparr>sw_ch := (sw_ch ?w)\<lparr>ch_closed := True\<rparr>\<rparr>]"
    by (auto simp: Stop_def stop_watcher_def close_chan_def Let_def split: if_splits)
  have "sw_clean u_meta (reg_heap r1 ! b)" if "b < length (reg_heap r1)" for b
  proof -
    have "sw_clean u_meta (reg_heap r ! b)" using assms(1) that by (simp add: reg_inv_def heap)
    then show ?thesis using that by (cases "b = a") (simp_all add: heap sw_clean_def)
  qed
  with r1 show ?thesis by (simp add: reg_inv_def)
qed

text \<open>A slice that was read is the beginning of the registry.\<close>

definition run_inv :: "('u \<Rightarrow> object_meta) \<Rightarrow> 'u reg_state \<Rightarrow> bool" where
  "run_inv u_meta st =
     (reg_inv u_meta (rs_reg st) \<and> (\<forall>fl. rs_flight st = Some fl \<longrightarrow> (\<exists>xs. reg_ws (rs_reg st) = fl_ws fl @ xs)))"

lemma run_inv_watch:
  assumes "run_inv u_meta st"
  shows "\<exists>st1. reg_step u_meta (RegWatch grows ls fs ns) st = Inr st1 \<and> run_inv u_meta st1"
proof -
  let ?r = "rs_reg st"
  have "reg_ws (snd (addWatcher ls fs ns ?r)) = reg_ws ?r @ [Some (fst (addWatcher ls fs ns ?r))]"
    by (simp add: addWatcher_def Let_def)
  then show ?thesis
    using assms reg_inv_watch [of u_meta ?r ls fs ns]
    by (auto simp: reg_step_def run_inv_def flight_append_def split_beta Let_def list_update_beyond)
qed

lemma run_inv_deliver:
  assumes "run_inv u_meta st"
  shows "\<exists>st1. reg_step u_meta RegDeliver st = Inr st1 \<and> run_inv u_meta st1"
proof (cases "rs_flight st")
  case (Some fl)
  then obtain xs where "reg_inv u_meta (rs_reg st)" "reg_ws (rs_reg st) = fl_ws fl @ xs"
    using assms by (auto simp: run_inv_def)
  from reg_inv_deliver [OF this, of "fl_type fl" "fl_obj fl"] Some show ?thesis
    by (auto simp: reg_step_def run_inv_def)
qed (use assms in \<open>simp add: reg_step_def\<close>)

lemma run_inv_stop:
  assumes inv: "run_inv u_meta st" and order: "in_order (RegStop a) st"
  shows "\<exists>st1. reg_step u_meta (RegStop a) st = Inr st1 \<and> run_inv u_meta st1"
proof -
  let ?r = "rs_reg st"
  obtain ws where ws: "reg_ws ?r = ws @ [Some a]"
    using order by (cases "reg_ws ?r" rule: rev_cases) (auto simp: in_order_def)
  have r: "reg_inv u_meta ?r" "reg_live ?r" using inv by (simp_all add: run_inv_def reg_inv_def)
  obtain r1 where r1: "Stop a ?r = Inr r1" "reg_inv u_meta r1" "reg_ws r1 = ws" using reg_inv_stop [OF r(1) ws] by blast
  have a: "sw_live ?r (length ws) a" using r(2) ws by (auto simp: reg_live_def dest!: spec [of _ "length ws"])
  have "\<exists>ys. ws = fl_ws (flight_stop (length ws) (ws @ [Some a]) fl) @ ys" if fl: "rs_flight st = Some fl" for fl
  proof -
    obtain xs where xs: "ws @ [Some a] = fl_ws fl @ xs" using inv fl ws by (auto simp: run_inv_def)
    have "Some a \<notin> set (fl_ws fl)" using order fl by (simp add: in_order_def)
    moreover have "Some a \<in> set (fl_ws fl @ xs)" unfolding xs [symmetric] by simp
    ultimately have "xs \<noteq> []" by auto
    then obtain ys where "xs = ys @ [Some a]" using xs by (metis append_butlast_last_id last_appendR last_snoc)
    then have "ws = fl_ws fl @ ys" using xs by simp
    then show ?thesis by (simp add: flight_stop_def list_update_beyond)
  qed
  then show ?thesis using r1 a ws by (auto simp: reg_step_def run_inv_def sw_live_def Let_def)
qed

lemma run_inv_step:
  assumes "run_inv u_meta st" "in_order rop st"
  shows "\<exists>st1. reg_step u_meta rop st = Inr st1 \<and> run_inv u_meta st1"
proof (cases rop)
  case (RegReceive a)
  have "reg_ws (take_event a r) = reg_ws r" for r :: "'a registry" by (simp add: take_event_def Let_def)
  then show ?thesis using assms(1) RegReceive reg_inv_receive by (auto simp: reg_step_def run_inv_def Let_def)
next
  case (RegRead et obj)
  then show ?thesis using assms(1) by (auto simp: reg_step_def run_inv_def Let_def)
qed (use assms run_inv_watch run_inv_deliver run_inv_stop in auto)

lemma run_inv_run:
  "run_inv u_meta st \<Longrightarrow> orderly u_meta rops st \<Longrightarrow> \<exists>st1. reg_run u_meta rops st = Inr st1 \<and> run_inv u_meta st1"
proof (induction rops arbitrary: st)
  case (Cons rop rops)
  then show ?case using run_inv_step [OF Cons.prems(1), of rop] by fastforce
qed simp

lemma run_inv_start: "run_inv u_meta start_registry"
  by (simp add: run_inv_def start_registry_def reg_inv_def) (simp add: empty_registry_def)

section \<open>Properties\<close>

text \<open>C21. The invariant of the registry: let clients watch, the informer notify, reading the list of
  watchers first and delivering to it later, clients read their channels and stop, in any order in which
  only the newest watcher stops, and not between a read that saw it and the delivery. Then nothing panics, the
  registered watchers are open and know their indices, and every channel holds at most a hundred
  events, each of an object that its watcher selects. (\<open>stop_between_panics\<close> is the rest.)\<close>

theorem registry_invariant:
  assumes "orderly u_meta rops start_registry"
  shows "\<exists>st. reg_run u_meta rops start_registry = Inr st \<and> reg_live (rs_reg st) \<and>
    list_all (\<lambda>w. length (ch_buf (sw_ch w)) \<le> 100 \<and> list_all (sw_wants u_meta w) (ch_buf (sw_ch w))) (reg_heap (rs_reg st))"
  using run_inv_run [OF run_inv_start assms]
  by (force simp: run_inv_def reg_inv_def sw_clean_def chan_cap_def list_all_length)

lemmas reg_defs = reg_step_def start_registry_def addWatcher_def empty_registry_def in_order_def flight_append_def
  flight_stop_def handler_def item_meta_def Stop_def stop_watcher_def stop_array_def close_chan_def nonBlockingSend_def
  sw_selects_def matchNamespace_def chan_cap_def Let_def

text \<open>A client comes and goes between the read and the delivery, the other gets the event.\<close>

theorem registry_invariant_witness:
  "let watch = RegWatch False Everything (AndTerm []) [];
       rops = [watch, RegRead EventAdded (ItemExport web_export), watch, RegStop 1, RegDeliver, RegStop 0]
   in case reg_run (\<lambda>u :: object_meta. u) rops start_registry of
        Inl p \<Rightarrow> False
      | Inr st \<Rightarrow> length (ch_buf (sw_ch (reg_heap (rs_reg st) ! 0))) = 1 \<and> reg_live (rs_reg st)"
proof -
  let ?watch = "RegWatch False Everything (AndTerm []) []"
  let ?rops = "[?watch, RegRead EventAdded (ItemExport web_export), ?watch, RegStop 1, RegDeliver, RegStop 0]"
  have "orderly (\<lambda>u :: object_meta. u) ?rops start_registry" by (simp add: reg_defs)
  from registry_invariant [OF this] obtain st where
    st: "reg_run (\<lambda>u :: object_meta. u) ?rops start_registry = Inr st" "reg_live (rs_reg st)" by blast
  then show ?thesis by (auto simp: reg_defs)
qed

text \<open>Without the condition it panics: at the nil pointer that the stop wrote into the shared array, or,
  where \<open>append\<close> had left the array behind, at the closed channel.\<close>

theorem stop_between_panics:
  "let watch = (\<lambda>grows. RegWatch grows Everything (AndTerm []) []); read = RegRead EventAdded (ItemExport web_export)
   in reg_run (\<lambda>u :: object_meta. u) [watch True, read, RegStop 0, RegDeliver] start_registry = Inl NilDereference \<and>
      reg_run (\<lambda>u :: object_meta. u) [watch True, read, watch True, RegStop 1, RegStop 0, RegDeliver] start_registry =
        Inl SendOnClosed"
  by (simp add: reg_defs)

end
