(* ===== verification/Reconnect.thy ===== *)
theory Reconnect
  imports Pipeline
begin

text \<open>
  What the end of a stream repairs, and what it does not. When the watch request of a client ends, the API
  server stops the watcher behind it (\<open>Stop\<close> of \<open>pkg/storage/storage.go\<close>). What the reflector of the client
  does next depends on how the stream ended (\<open>watch\<close> of \<open>reflector.go\<close> in client-go): after a normal end it
  only watches again, after most errors it lists and watches again, on top of what its informer holds.
  Up to then anything may have happened: changes lost between list and watch, a channel that was full,
  exports that left the selection. The client of a feed is the newest watcher of the registry, so that
  its index is not stale when it stops.
\<close>

section \<open>Feeds whose stream is cut\<close>

definition feed_cut :: "('o, 'u) feed \<Rightarrow> panic + ('o, 'u) feed" where
  "feed_cut st =
     (case fd_watch st of
        None \<Rightarrow> Inr st
      | Some a \<Rightarrow>
          (case Stop a (fd_reg st) of
             Inl p \<Rightarrow> Inl p
           | Inr r \<Rightarrow> Inr (st\<lparr>fd_watch := None, fd_reg := r\<rparr>)))"

text \<open>The loop of \<open>watch\<close>, given what \<open>handleWatch\<close> returned; \<open>resumes\<close> is the test for the errors after
  which it goes on: too many requests, or an internal error it may still retry. When \<open>watch\<close> returns, the
  reflector starts again with a list, unless it was stopped.\<close>

datatype watch_next = WatchAgain | ListAgain | Ends

definition watch_next :: "(go_error \<Rightarrow> bool) \<Rightarrow> watch_error option \<Rightarrow> watch_next" where
  "watch_next resumes ended =
     (case ended of
        None \<Rightarrow> WatchAgain
      | Some StopRequested \<Rightarrow> Ends
      | Some VeryShortWatch \<Rightarrow> ListAgain
      | Some (StatusError err) \<Rightarrow> if resumes err then WatchAgain else ListAgain)"

text \<open>A cut of the stream; a client that only watches again does so at once.\<close>

datatype 'o link_action = Flow "'o feed_action" | Cut watch_next

definition link_step :: "('o, 'u) wiring \<Rightarrow> 'o link_action \<Rightarrow> ('o, 'u) feed \<Rightarrow> panic + ('o, 'u) feed" where
  "link_step wr act st =
     (case act of
        Flow a \<Rightarrow> feed_step wr a st
      | Cut nx \<Rightarrow>
          (case feed_cut st of
             Inl p \<Rightarrow> Inl p
           | Inr st1 \<Rightarrow> if nx = WatchAgain \<and> fd_watch st \<noteq> None then feed_step wr DoWatch st1 else Inr st1))"

fun link_run :: "('o, 'u) wiring \<Rightarrow> 'o link_action list \<Rightarrow> ('o, 'u) feed \<Rightarrow> panic + ('o, 'u) feed" where
  "link_run wr [] st = Inr st"
| "link_run wr (act # acts) st =
     (case link_step wr act st of Inl p \<Rightarrow> Inl p | Inr st1 \<Rightarrow> link_run wr acts st1)"

fun flows :: "'o link_action list \<Rightarrow> 'o feed_action list" where
  "flows [] = []"
| "flows (Flow a # acts) = a # flows acts"
| "flows (Cut nx # acts) = flows acts"

lemma link_run_append:
  "link_run wr (as @ bs) st = (case link_run wr as st of Inl p \<Rightarrow> Inl p | Inr st1 \<Rightarrow> link_run wr bs st1)"
  by (induction as arbitrary: st) (auto split: sum.split)

lemma link_run_flows: "link_run wr (map Flow acts) st = feed_run wr acts st"
  by (induction acts arbitrary: st) (auto simp: link_step_def split: sum.split)

lemma flows_append [simp]: "flows (as @ bs) = flows as @ flows bs"
  by (induction as rule: flows.induct) auto

lemma flows_map [simp]: "flows (map Flow acts) = acts"
  by (induction acts) auto

section \<open>What every run keeps\<close>

text \<open>As far as the emitter goes, that is with no regard to what the client has been told: the store is
  what the pending notifications make of an earlier one, and the client is the newest watcher.\<close>

definition linked :: "('o, 'u) wiring \<Rightarrow> ('o, 'u) feed \<Rightarrow> bool" where
  "linked wr st =
     (reg_live (fd_reg st) \<and> finite (dom (fd_store st)) \<and> finite (dom (inf_indexer (fd_inf st))) \<and>
      (\<forall>k x. fd_store st k = Some x \<longrightarrow> wr_name wr x = k) \<and>
      (\<exists>m0. fd_store st = put_all (map (ev_write wr) (fd_pend st)) m0) \<and>
      (\<forall>a. fd_watch st = Some a \<longrightarrow> (\<exists>ws. reg_ws (fd_reg st) = ws @ [Some a])))"

lemma linked_start: "reg_live r \<Longrightarrow> linked wr (start_feed r)"
  by (simp add: linked_def start_feed_def new_informer_def)

lemma cut_linked:
  assumes "linked wr st"
  shows "\<exists>st1. feed_cut st = Inr st1 \<and> linked wr st1 \<and> fd_watch st1 = None \<and> fd_store st1 = fd_store st \<and>
    fd_pend st1 = fd_pend st \<and> fd_inf st1 = fd_inf st \<and> fd_notes st1 = fd_notes st"
proof (cases "fd_watch st")
  case (Some a)
  then obtain ws where "reg_live (fd_reg st)" "reg_ws (fd_reg st) = ws @ [Some a]"
    using assms by (auto simp: linked_def)
  from Stop_newest [OF this] obtain r1 where "Stop a (fd_reg st) = Inr r1" "reg_live r1" by blast
  with assms Some show ?thesis by (auto simp: feed_cut_def linked_def)
qed (use assms in \<open>simp add: feed_cut_def\<close>)

text \<open>Of the exports the emitter holds, is about to announce or will touch, those of one name are all
  selected or all not.\<close>

definition exports_from :: "('o, 'u) feed \<Rightarrow> 'o feed_action list \<Rightarrow> 'o set" where
  "exports_from st acts = ran (fd_store st) \<union> snd ` set (fd_pend st) \<union> exports_of acts"

context feed_wiring
begin

lemma linked_Notify:
  assumes "linked wr st"
  shows "\<exists>st1. feed_step wr Notify st = Inr st1 \<and> linked wr st1"
proof (cases "fd_pend st")
  case (Cons e rest)
  obtain et x where e: "e = (et, x)" by (cases e)
  have live: "reg_live (fd_reg st)" using assms by (simp add: linked_def)
  obtain r1 where r1: "eo_handle (wr_store wr) (wr_umeta wr) et x (fd_reg st) = Inr r1" "reg_live r1"
      "reg_ws r1 = reg_ws (fd_reg st)"
    using handle_pushes [OF live] by blast
  obtain m0 where "fd_store st = put_all (map (ev_write wr) (fd_pend st)) m0" using assms by (auto simp: linked_def)
  then have "\<exists>m1. fd_store st = put_all (map (ev_write wr) rest) m1" using Cons by (auto simp: ev_write_def)
  with r1 assms Cons e show ?thesis by (simp add: feed_step_def linked_def)
qed (use assms in \<open>simp add: feed_step_def\<close>)

lemma linked_upstream:
  assumes "linked wr st" "act = Upsert x \<or> act = Remove x"
  shows "\<exists>st1. feed_step wr act st = Inr st1 \<and> linked wr st1"
proof -
  obtain st1 where st1: "feed_step wr act st = Inr st1" using assms(2) by (auto simp: feed_step_def)
  obtain m0 where m0: "fd_store st = put_all (map (ev_write wr) (fd_pend st)) m0" using assms(1) by (auto simp: linked_def)
  have "linked wr st1"
  proof (rule step_upstream [OF st1 assms(2)])
    fix et
    assume s: "fd_pend st1 = fd_pend st @ [(et, x)]" "fd_store st1 = put_all [ev_write wr (et, x)] (fd_store st)"
      "fd_reg st1 = fd_reg st" "fd_watch st1 = fd_watch st" "fd_inf st1 = fd_inf st"
    have "fd_store st1 = put_all (map (ev_write wr) (fd_pend st1)) m0" unfolding s(1,2) m0 by simp
    moreover have "finite (dom (fd_store st1)) \<and> (\<forall>k x. fd_store st1 k = Some x \<longrightarrow> wr_name wr x = k)"
      using assms(1) unfolding s(2) upstream_write linked_def by (auto split: if_splits)
    ultimately show ?thesis using assms(1) s(3-5) by (auto simp: linked_def)
  qed
  with st1 show ?thesis by blast
qed

lemma linked_step:
  assumes "linked wr st"
  shows "\<exists>st1. feed_step wr act st = Inr st1 \<and> linked wr st1"
proof (cases act)
  case DoList
  then show ?thesis
    using assms by (simp add: feed_step_def list_request linked_def fifo_Replace_def Let_def)
next
  case DoWatch
  have live: "reg_live (fd_reg st)" using assms by (simp add: linked_def)
  have "reg_ws (snd (addWatcher ls fs ns (fd_reg st))) =
      reg_ws (fd_reg st) @ [Some (fst (addWatcher ls fs ns (fd_reg st)))]" for ls fs ns
    by (simp add: addWatcher_def Let_def)
  then show ?thesis
    using assms DoWatch reg_live_add(1) [OF live] by (simp add: feed_step_def watch_registers split_beta linked_def)
next
  case Receive
  have "reg_ws (take_event a r) = reg_ws r" for a and r :: "'u registry" by (simp add: take_event_def Let_def)
  then show ?thesis
    using assms Receive reg_live_take [of "fd_reg st"]
    by (auto simp: feed_step_def feed_receive_def linked_def split: option.split prod.split)
next
  case (PopDelta b)
  then show ?thesis
    using assms finite_Pop [of "fd_inf st" "wr_key wr" "wr_same wr" b]
    by (auto simp: feed_step_def linked_def split: prod.split)
qed (use linked_upstream [OF assms] linked_Notify [OF assms] in auto)

lemma linked_Cut:
  assumes "linked wr st"
  shows "\<exists>st1. link_step wr (Cut nx) st = Inr st1 \<and> linked wr st1 \<and> (nx \<noteq> WatchAgain \<longrightarrow> fd_watch st1 = None)"
proof -
  obtain st1 where "feed_cut st = Inr st1" "linked wr st1" "fd_watch st1 = None" using cut_linked [OF assms] by blast
  with linked_step [of st1 DoWatch] show ?thesis by (auto simp: link_step_def)
qed

text \<open>No run panics.\<close>

lemma linked_run:
  assumes "linked wr st"
  shows "\<exists>st1. link_run wr acts st = Inr st1 \<and> linked wr st1"
  using assms
proof (induction acts arbitrary: st)
  case (Cons act acts)
  obtain st1 where "link_step wr act st = Inr st1" "linked wr st1"
    using linked_step [OF Cons.prems] linked_Cut [OF Cons.prems] by (cases act) (auto simp: link_step_def)
  with Cons.IH [of st1] show ?case by simp
qed simp

section \<open>Listing again\<close>

lemma stable_steady:
  assumes "linked wr st" "fd_watch st = None"
    and stable: "\<forall>x \<in> exports_from st acts. \<forall>x' \<in> exports_from st acts.
      wr_name wr x = wr_name wr x' \<longrightarrow> selects wr x = selects wr x'"
  obtains K where "unlisted st" "steady K st" "\<forall>act \<in> set acts. knows K act"
proof -
  let ?S = "exports_from st acts"
  define K where "K = wr_name wr ` {x \<in> ?S. selects wr x}"
  have K: "selects wr x = (wr_name wr x \<in> K)" if "x \<in> ?S" for x
    using stable that unfolding K_def by blast
  have "selects wr x = (k \<in> K)" if "fd_store st k = Some x" for k x
    using K [of x] that assms(1) by (auto simp: exports_from_def ran_def linked_def)
  moreover have "selects wr x = (wr_name wr x \<in> K)" if "(et, x) \<in> set (fd_pend st)" for et x
    by (rule K) (use that in \<open>force simp: exports_from_def\<close>)
  ultimately have "steady K st" using assms(1) by (auto simp: steady_def linked_def)
  moreover have "knows K act" if "act \<in> set acts" for act
    unfolding knows_def using that K by (simp add: exports_from_def exports_of_def) blast
  moreover have "unlisted st" using assms(1,2) by (auto simp: unlisted_def linked_def)
  ultimately show thesis using that by blast
qed

end

text \<open>The client starts, or starts again, in \<open>st0\<close>: it lists and then watches, under the conditions of
  \<open>client_converges\<close>.\<close>

definition relinks ::
  "('o, 'u) wiring \<Rightarrow> ('o, 'u) feed \<Rightarrow> 'o feed_action list \<Rightarrow> 'o feed_action list \<Rightarrow> 'o feed_action list \<Rightarrow> bool" where
  "relinks wr st0 pre mid post =
     (fd_watch st0 = None \<and> (\<forall>act \<in> set pre. emitter_side act) \<and>
      (\<forall>act \<in> set (mid @ post). act \<notin> {DoList, DoWatch}) \<and>
      (\<forall>x \<in> exports_from st0 (pre @ mid @ post). \<forall>x' \<in> exports_from st0 (pre @ mid @ post).
         wr_name wr x = wr_name wr x' \<longrightarrow> selects wr x = selects wr x') \<and>
      (\<forall>st. feed_run wr pre st0 = Inr st \<longrightarrow> count_list mid Notify \<le> length (fd_pend st)) \<and>
      roomy wr (pre @ DoList # mid @ DoWatch # post) st0)"

text \<open>The state of an emitter and its client that has caught up, after any number of cuts: the last
  time it listed and watched under those conditions, and nothing is on its way.\<close>

definition caught_up :: "('o \<Rightarrow> bool) \<Rightarrow> ('o, 'u) wiring \<Rightarrow> ('o, 'u) feed \<Rightarrow> bool" where
  "caught_up sound wr st =
     (\<exists>r before st0 pre mid post.
        reg_live r \<and> link_run wr before (start_feed r) = Inr st0 \<and> relinks wr st0 pre mid post \<and>
        (\<forall>x \<in> exports_of (flows before @ pre @ mid @ post). sound x) \<and>
        feed_run wr (pre @ DoList # mid @ DoWatch # post) st0 = Inr st \<and> drained st)"

text \<open>A first start.\<close>

lemma caught_up_fresh:
  assumes "reg_live r" "relinks wr (start_feed r) pre mid post" "\<forall>x \<in> exports_of (pre @ mid @ post). sound x"
    and "feed_run wr (pre @ DoList # mid @ DoWatch # post) (start_feed r) = Inr st" "drained st"
  shows "caught_up sound wr st"
proof -
  have "link_run wr [] (start_feed r) = Inr (start_feed r)" "flows [] @ pre @ mid @ post = pre @ mid @ post"
    by simp_all
  with assms show ?thesis unfolding caught_up_def by metis
qed

context feed_consumer
begin

lemma carries_link:
  assumes "carries s0 st" "linked wr st" "\<forall>x \<in> exports_of (flows acts). sound x"
  shows "\<exists>st1. link_run wr acts st = Inr st1 \<and> carries s0 st1"
  using assms
proof (induction acts arbitrary: st)
  case (Cons act acts)
  have sound: "\<forall>x \<in> exports_of (flows acts). sound x" using Cons.prems(3) by (cases act) (auto simp: exports_of_def)
  obtain st1 where st1: "link_step wr act st = Inr st1" "carries s0 st1" "linked wr st1"
  proof (cases act)
    case (Flow a)
    have "\<And>x. a \<in> {Upsert x, Remove x} \<Longrightarrow> sound x" using Cons.prems(3) Flow by (auto simp: exports_of_def)
    from carries_step [OF Cons.prems(1) this] obtain st1 where "feed_step wr a st = Inr st1" "carries s0 st1"
      by blast
    with linked_step [OF Cons.prems(2), of a] that Flow show thesis by (auto simp: link_step_def)
  next
    case (Cut nx)
    obtain st2 where c: "feed_cut st = Inr st2" "linked wr st2" "fd_watch st2 = None" "fd_store st2 = fd_store st"
        "fd_pend st2 = fd_pend st" "fd_inf st2 = fd_inf st" "fd_notes st2 = fd_notes st"
      using cut_linked [OF Cons.prems(2)] by blast
    have c2: "carries s0 st2" using Cons.prems(1) c(2-7) by (auto simp: carries_def flowing_def linked_def)
    obtain st1 where "feed_step wr DoWatch st2 = Inr st1" "carries s0 st1" "linked wr st1"
      using carries_step [OF c2, of DoWatch] linked_step [OF c(2), of DoWatch] by auto
    with c(1,2) c2 that Cut show thesis
      by (cases "nx = WatchAgain \<and> fd_watch st \<noteq> None") (auto simp: link_step_def)
  qed
  with Cons.IH [OF st1(2,3) sound] show ?case by simp
qed simp

text \<open>After a start or a restart the client converges, and the view of the consumer with it.\<close>

lemma relink_from:
  assumes c: "carries s0 st0" and st0: "linked wr st0" and relinks: "relinks wr st0 pre mid post"
    and sound: "\<forall>x \<in> exports_of (pre @ mid @ post). sound x"
  shows "\<exists>st. feed_run wr (pre @ DoList # mid @ DoWatch # post) st0 = Inr st \<and> carries s0 st \<and>
    (drained st \<longrightarrow> inf_indexer (fd_inf st) = expected wr (fd_store st))"
proof -
  note conds = relinks [unfolded relinks_def]
  obtain K where K: "unlisted st0" "steady K st0" "\<forall>act \<in> set (pre @ mid @ post). knows K act"
    by (rule stable_steady [OF st0 conjunct1 [OF conds], of "pre @ mid @ post"]) (use conds in blast)+
  obtain st where st: "feed_run wr (pre @ DoList # mid @ DoWatch # post) st0 = Inr st"
      "drained st \<longrightarrow> inf_indexer (fd_inf st) = expected wr (fd_store st)"
    using run_converges_from [OF K(1,2) _ _ K(3)] conds by blast
  have "\<forall>x \<in> exports_of (pre @ DoList # mid @ DoWatch # post). sound x"
    using sound by (auto simp: exports_of_def)
  then have "carries s0 st" using carries_run [OF c] st(1) by fastforce
  with st show ?thesis by blast
qed

lemma relink_converges:
  assumes r: "reg_live r" and view: "\<And>k. view_at s0 k = None"
    and before: "link_run wr before (start_feed r) = Inr st0" and relinks: "relinks wr st0 pre mid post"
    and sound: "\<forall>x \<in> exports_of (flows before @ pre @ mid @ post). sound x"
  shows "\<exists>st. feed_run wr (pre @ DoList # mid @ DoWatch # post) st0 = Inr st \<and> carries s0 st \<and>
    (drained st \<longrightarrow> inf_indexer (fd_inf st) = expected wr (fd_store st))"
proof -
  have st0: "linked wr st0" using linked_run [OF linked_start [OF r], of before] before by auto
  have "carries s0 st0"
    using carries_link [OF carries_start [OF r view] linked_start [OF r], of before] before sound
    by (auto simp: exports_of_def)
  from relink_from [OF this st0 relinks] sound show ?thesis by (auto simp: exports_of_def)
qed

lemma carries_agrees:
  assumes "carries s0 st" "inf_indexer (fd_inf st) = expected wr (fd_store st)"
  shows "agrees (expected wr (fd_store st)) (fold handle (fd_notes st) s0)"
  using assms by (simp add: carries_def)

lemma caught_up_carries:
  assumes "caught_up sound wr st" and view: "\<And>k. view_at s0 k = None"
  shows "carries s0 st \<and> agrees (expected wr (fd_store st)) (fold handle (fd_notes st) s0)"
proof -
  obtain r before st0 pre mid post where c: "reg_live r" "link_run wr before (start_feed r) = Inr st0"
      "relinks wr st0 pre mid post" "\<forall>x \<in> exports_of (flows before @ pre @ mid @ post). sound x"
      "feed_run wr (pre @ DoList # mid @ DoWatch # post) st0 = Inr st" "drained st"
    using assms(1) unfolding caught_up_def by blast
  from relink_converges [OF c(1) view c(2-4)] c(5,6) carries_agrees show ?thesis by auto
qed

end

section \<open>Watching again without a list\<close>

text \<open>What the client does about the object of a key when nobody lists and nobody changes it.\<close>

definition undisturbed :: "('o, 'u) wiring \<Rightarrow> string \<Rightarrow> 'o link_action \<Rightarrow> bool" where
  "undisturbed wr k act = (case act of Flow a \<Rightarrow> \<not> about wr k a \<and> a \<noteq> DoList | Cut _ \<Rightarrow> True)"

context feed_wiring
begin

lemma quiet_cut:
  assumes "linked wr st" "quiet wr k st"
  shows "\<exists>st1. link_step wr (Cut nx) st = Inr st1 \<and> linked wr st1 \<and> quiet wr k st1 \<and> fd_store st1 k = fd_store st k \<and>
    replica (wr_key wr) (fd_inf st1) k = replica (wr_key wr) (fd_inf st) k"
proof -
  obtain st2 where c: "feed_cut st = Inr st2" "linked wr st2" "fd_watch st2 = None" "fd_store st2 = fd_store st"
      "fd_pend st2 = fd_pend st" "fd_inf st2 = fd_inf st"
    using cut_linked [OF assms(1)] by blast
  have q: "quiet wr k st2" using assms(2) c(2,3,5) by (simp add: flowing_def linked_def)
  have "\<not> about wr k DoWatch" by (simp add: about_def)
  then obtain st1 where "feed_step wr DoWatch st2 = Inr st1" "linked wr st1" "quiet wr k st1" "fd_store st1 k = fd_store st2 k"
      "replica (wr_key wr) (fd_inf st1) k = replica (wr_key wr) (fd_inf st2) k"
    using quiet_step [OF q, of DoWatch] linked_step [OF c(2), of DoWatch] by auto
  with c q show ?thesis
    by (cases "nx = WatchAgain \<and> fd_watch st \<noteq> None") (auto simp: link_step_def)
qed

lemma undisturbed_run:
  assumes "linked wr st" "quiet wr k st" "\<forall>act \<in> set acts. undisturbed wr k act"
  shows "\<exists>st1. link_run wr acts st = Inr st1 \<and> fd_store st1 k = fd_store st k \<and>
    replica (wr_key wr) (fd_inf st1) k = replica (wr_key wr) (fd_inf st) k"
  using assms
proof (induction acts arbitrary: st)
  case (Cons act acts)
  have "\<exists>st1. link_step wr act st = Inr st1 \<and> linked wr st1 \<and> quiet wr k st1 \<and> fd_store st1 k = fd_store st k \<and>
    replica (wr_key wr) (fd_inf st1) k = replica (wr_key wr) (fd_inf st) k"
  proof (cases act)
    case (Flow a)
    then show ?thesis
      using quiet_step [OF Cons.prems(2), of a] linked_step [OF Cons.prems(1), of a] Cons.prems(3)
      by (auto simp: undisturbed_def link_step_def)
  next
    case (Cut nx)
    then show ?thesis using quiet_cut [OF Cons.prems(1,2)] by simp
  qed
  then obtain st1 where st1: "link_step wr act st = Inr st1" "linked wr st1" "quiet wr k st1" "fd_store st1 k = fd_store st k"
    "replica (wr_key wr) (fd_inf st1) k = replica (wr_key wr) (fd_inf st) k" by blast
  from Cons.IH [OF st1(2,3)] Cons.prems(3) st1(1,4,5) show ?case by auto
qed simp

end

section \<open>Properties\<close>


text \<open>An export that was stored and announced between the list and the watch is in no import, although
  nothing is on its way; after the cut it is.\<close>

definition lossy_run :: "service_export link_action list" where
  "lossy_run = [Flow DoList, Flow (Upsert (annotate web_service web_export)), Flow Notify, Flow DoWatch]"

lemma annotated_meta:
  "om_Namespace (se_meta (annotate web_service web_export)) = ''shop''"
  "om_Name (se_meta (annotate web_service web_export)) = ''web''"
  "se_name (annotate web_service web_export) = ''shop/web''"
  by (simp_all add: annotate_def web_export_def web_meta_def empty_meta_def se_name_def meta_key_def)

lemma roomy_silent: "Notify \<notin> set acts \<Longrightarrow> roomy wr acts st"
  by (induction acts arbitrary: st) (auto split: sum.split)

lemmas cut_defs = watch_next_def link_step_def feed_cut_def Stop_def stop_watcher_def stop_array_def close_chan_def


text \<open>A stream that ends normally repairs nothing: client-go opens the next watch without a list, and the
  emitter, which ignores the resource version of the request, starts it with the next event. However often
  streams end and are opened again, and whatever happens to other objects, an object that nothing is on
  its way for and that does not change again stays at the client as it was, also when that is not what the
  emitter holds.\<close>

theorem rewatch_keeps_loss:
  assumes "feed_wiring wr" "linked wr st" "quiet wr k st"
    and "\<forall>act \<in> set acts. undisturbed wr k act"
  shows "\<exists>st1. link_run wr acts st = Inr st1 \<and> fd_store st1 k = fd_store st k \<and>
    (drained st1 \<longrightarrow> inf_indexer (fd_inf st1) k = replica (wr_key wr) (fd_inf st) k)"
proof -
  obtain st1 where "link_run wr acts st = Inr st1" "fd_store st1 k = fd_store st k"
    "replica (wr_key wr) (fd_inf st1) k = replica (wr_key wr) (fd_inf st) k"
    using feed_wiring.undisturbed_run [OF assms] by blast
  then show ?thesis by (auto simp: drained_def replica_drained [of "fd_inf st1" "wr_key wr", symmetric])
qed

theorem rewatch_keeps_loss_witness:
  "case link_run (plain_wiring None []) (lossy_run @ [Cut (watch_next (\<lambda>_. False) None)]) (start_feed empty_registry) of
     Inl p \<Rightarrow> False
   | Inr st \<Rightarrow> drained st \<and> fd_watch st \<noteq> None \<and> fd_store st ''shop/web'' \<noteq> None \<and>
       inf_indexer (fd_inf st) ''shop/web'' = None"
  by (simp add: lossy_run_def cut_defs feed_defs drained_def annotated_meta)

end
