(* ===== verification/Emitter_Site.thy ===== *)
theory Emitter_Site
  imports Reconnect
begin

text \<open>
  One emitter with both its stores. The slice store looks into the informer of the exports whenever it
  lists or delivers (\<open>hasExport\<close> of \<open>pkg/storage/storage.go\<close>; \<open>pkg/apiserver/apiserver.go\<close> hands both storages
  the same informer), so the set of exports of the slice feed is what the export feed of the same emitter
  holds at that moment. The slice client converges when, from its last list on, no export of a Service
  comes or goes that owns one of the slices in question; before, the exports may do anything.
\<close>

section \<open>The two feeds of an emitter\<close>

definition at_exports :: "string set \<Rightarrow> (endpoint_slice, 'v) wiring \<Rightarrow> (endpoint_slice, 'v) wiring" where
  "at_exports X wr = wr\<lparr>wr_store := slice_store X\<rparr>"

record ('u, 'v) emitter_site =
  em_exports :: "(service_export, 'u) feed"
  em_slices :: "(endpoint_slice, 'v) feed"

datatype site_action = OnExports "service_export link_action" | OnSlices "endpoint_slice link_action"

definition start_site :: "'u registry \<Rightarrow> 'v registry \<Rightarrow> ('u, 'v) emitter_site" where
  "start_site rE rS = \<lparr>em_exports = start_feed rE, em_slices = start_feed rS\<rparr>"

definition exports_now :: "('u, 'v) emitter_site \<Rightarrow> string set" where
  "exports_now s = dom (fd_store (em_exports s))"

definition site_step ::
  "(service_export, 'u) wiring \<Rightarrow> (endpoint_slice, 'v) wiring \<Rightarrow> site_action \<Rightarrow> ('u, 'v) emitter_site \<Rightarrow>
   panic + ('u, 'v) emitter_site" where
  "site_step wrE wrS act s =
     (case act of
        OnExports a \<Rightarrow>
          (case link_step wrE a (em_exports s) of Inl p \<Rightarrow> Inl p | Inr st \<Rightarrow> Inr (s\<lparr>em_exports := st\<rparr>))
      | OnSlices a \<Rightarrow>
          (case link_step (at_exports (exports_now s) wrS) a (em_slices s) of
             Inl p \<Rightarrow> Inl p | Inr st \<Rightarrow> Inr (s\<lparr>em_slices := st\<rparr>)))"

fun site_run ::
  "(service_export, 'u) wiring \<Rightarrow> (endpoint_slice, 'v) wiring \<Rightarrow> site_action list \<Rightarrow> ('u, 'v) emitter_site \<Rightarrow>
   panic + ('u, 'v) emitter_site" where
  "site_run wrE wrS [] s = Inr s"
| "site_run wrE wrS (act # acts) s =
     (case site_step wrE wrS act s of Inl p \<Rightarrow> Inl p | Inr s1 \<Rightarrow> site_run wrE wrS acts s1)"

fun export_acts :: "site_action list \<Rightarrow> service_export link_action list" where
  "export_acts [] = []"
| "export_acts (OnExports a # acts) = a # export_acts acts"
| "export_acts (OnSlices a # acts) = export_acts acts"

fun slice_acts :: "site_action list \<Rightarrow> endpoint_slice link_action list" where
  "slice_acts [] = []"
| "slice_acts (OnExports a # acts) = slice_acts acts"
| "slice_acts (OnSlices a # acts) = a # slice_acts acts"

text \<open>The versions of exports and of slices in a run.\<close>

definition export_versions :: "site_action list \<Rightarrow> service_export set" where
  "export_versions acts = exports_of (flows (export_acts acts))"

definition slice_versions :: "site_action list \<Rightarrow> endpoint_slice set" where
  "slice_versions acts = exports_of (flows (slice_acts acts))"

lemma acts_append [simp]:
  "export_acts (as @ bs) = export_acts as @ export_acts bs" "slice_acts (as @ bs) = slice_acts as @ slice_acts bs"
  by (induction as rule: export_acts.induct) simp_all

lemma acts_of [simp]:
  "export_acts (map OnExports es) = es" "slice_acts (map OnExports es) = []"
  "export_acts (map OnSlices ss) = []" "slice_acts (map OnSlices ss) = ss"
  by (induction es; simp)+ (induction ss; simp)+

lemma exports_of_append [simp]: "exports_of (as @ bs) = exports_of as \<union> exports_of bs"
  by (auto simp: exports_of_def)

lemma slice_versions_append [simp]: "slice_versions (as @ bs) = slice_versions as \<union> slice_versions bs"
  by (simp add: slice_versions_def)

lemma start_site_sel [simp]:
  "em_exports (start_site rE rS) = start_feed rE" "em_slices (start_site rE rS) = start_feed rS"
  by (simp_all add: start_site_def)

lemma site_run_append:
  "site_run wrE wrS (as @ bs) s =
     (case site_run wrE wrS as s of Inl p \<Rightarrow> Inl p | Inr s1 \<Rightarrow> site_run wrE wrS bs s1)"
  by (induction as arbitrary: s) (auto split: sum.split)

text \<open>The slices do not matter to the exports.\<close>

lemma site_run_exports:
  "site_run wrE wrS acts s = Inr s1 \<Longrightarrow> link_run wrE (export_acts acts) (em_exports s) = Inr (em_exports s1)"
proof (induction acts arbitrary: s)
  case (Cons act acts)
  obtain s2 where s2: "site_step wrE wrS act s = Inr s2" "site_run wrE wrS acts s2 = Inr s1"
    using Cons.prems by (auto split: sum.splits)
  from Cons.IH [OF s2(2)] s2(1) show ?case by (cases act) (auto simp: site_step_def split: sum.splits)
qed simp

text \<open>What depends on the wiring but not on the exports.\<close>

lemma at_exports_sel [simp]:
  "wr_store (at_exports X wr) = slice_store X" "wr_srt (at_exports X wr) = wr_srt wr"
  "wr_items (at_exports X wr) = wr_items wr" "wr_order (at_exports X wr) = wr_order wr"
  "wr_encode (at_exports X wr) = wr_encode wr" "wr_key (at_exports X wr) = wr_key wr"
  "wr_same (at_exports X wr) = wr_same wr" "wr_options (at_exports X wr) = wr_options wr"
  "wr_ns (at_exports X wr) = wr_ns wr" "wr_umeta (at_exports X wr) = wr_umeta wr"
  by (simp_all add: at_exports_def)

lemma wr_name_at [simp]: "wr_name (at_exports X wr) es = es_name es"
  by (simp add: wr_name_def es_name_def)

lemma at_exports_wiring:
  assumes "slice_wiring X wr"
  shows "slice_wiring Y (at_exports Y wr)"
proof -
  have "wr_name wr es = es_name es" for es using assms by (simp add: wr_name_def es_name_def)
  with assms show ?thesis by (auto simp: feed_libs_def)
qed

lemma linked_at: "linked (at_exports X wr) st = linked (at_exports Y wr) st"
  by (simp add: linked_def ev_write_def [abs_def])

section \<open>Exports that do not matter to the slices\<close>

text \<open>Two sets of exports serve the same of the slices in \<open>S\<close>.\<close>

definition serve_alike :: "string set \<Rightarrow> string set \<Rightarrow> endpoint_slice set \<Rightarrow> bool" where
  "serve_alike X Y S = (\<forall>es \<in> S. hasExport X es = hasExport Y es)"

lemma serve_alike_selects: "serve_alike X Y S \<Longrightarrow> es \<in> S \<Longrightarrow> selects (at_exports X wr) es = selects (at_exports Y wr) es"
  by (simp add: serve_alike_def selects_def)

lemma serve_alike_expected:
  "serve_alike X Y S \<Longrightarrow> ran m \<subseteq> S \<Longrightarrow> expected (at_exports X wr) m = expected (at_exports Y wr) m"
  by (rule ext) (auto simp: expected_def serve_alike_def selects_def subset_iff ranI split: option.split)

text \<open>Then a step does not tell them apart.\<close>

lemma step_alike:
  assumes wr: "feed_libs (at_exports X wr)" "feed_libs (at_exports Y wr)" and same: "serve_alike X Y (exports_from st [act])" and fin: "finite (dom (fd_store st))"
  shows "feed_step (at_exports X wr) act st = feed_step (at_exports Y wr) act st"
proof (cases act)
  case DoList
  have at: "feed_wiring (at_exports X wr)" "feed_wiring (at_exports Y wr)" by (rule slice_feed; simp add: wr)+
  have "filter (selects (at_exports X wr)) (wr_items wr (fd_store st)) = filter (selects (at_exports Y wr)) (wr_items wr (fd_store st))"
  proof (rule filter_cong [OF refl])
    fix es assume "es \<in> set (wr_items wr (fd_store st))"
    then have "es \<in> exports_from st [act]" using feed_libs.items [OF wr(1) fin] by (simp add: exports_from_def)
    then show "selects (at_exports X wr) es = selects (at_exports Y wr) es" by (rule serve_alike_selects [OF same])
  qed
  then show ?thesis by (simp add: DoList feed_step_def feed_wiring.list_request [OF at(1)] feed_wiring.list_request [OF at(2)])
next
  case Notify
  have "es_handle X um et es r = es_handle Y um et es r" if "(et, es) \<in> set (fd_pend st)" for um :: "'a \<Rightarrow> object_meta" and et es r
  proof -
    have "es \<in> exports_from st [act]" using that by (force simp: exports_from_def)
    then have "hasExport X es = hasExport Y es" using same by (simp add: serve_alike_def)
    then show ?thesis by (simp add: es_handle_handler)
  qed
  then show ?thesis by (auto simp: Notify feed_step_def split: list.split)
qed (simp_all add: feed_step_def feed_receive_def cong: option.case_cong)

text \<open>From here on no export of a Service that owns a slice in \<open>S\<close> comes or goes.\<close>

fun settled ::
  "(service_export, 'u) wiring \<Rightarrow> (endpoint_slice, 'v) wiring \<Rightarrow> endpoint_slice set \<Rightarrow> site_action list \<Rightarrow>
   ('u, 'v) emitter_site \<Rightarrow> bool" where
  "settled wrE wrS S [] s = True"
| "settled wrE wrS S (act # acts) s =
     (case site_step wrE wrS act s of
        Inl p \<Rightarrow> True
      | Inr s1 \<Rightarrow> serve_alike (exports_now s) (exports_now s1) S \<and> settled wrE wrS S acts s1)"

lemma feed_list_keeps: "feed_list wr st = Inr st1 \<Longrightarrow> fd_store st1 = fd_store st \<and> fd_pend st1 = fd_pend st"
  by (auto simp: feed_list_def split: list_result.splits)

lemma feed_receive_keeps [simp]: "fd_store (feed_receive wr st) = fd_store st" "fd_pend (feed_receive wr st) = fd_pend st"
  by (simp_all add: feed_receive_def split: option.split prod.split)

lemma step_store: "feed_step wr act st = Inr st1 \<Longrightarrow> fd_store st1 = store_moves wr act (fd_store st)"
  by (cases act) (auto simp: feed_step_def store_moves_def dest: feed_list_keeps split: list.splits sum.splits prod.splits)

lemma exports_from_step:
  assumes "feed_step wr act st = Inr st1"
  shows "exports_from st1 acts \<subseteq> exports_from st (act # acts)"
proof (cases act)
  case DoList
  then show ?thesis using assms feed_list_keeps [of wr st st1] by (auto simp: feed_step_def exports_from_def exports_of_def)
next
  case Notify
  then show ?thesis
    using assms by (auto 0 3 simp: feed_step_def exports_from_def exports_of_def image_iff split: list.splits sum.splits)
qed (use assms in \<open>auto simp: feed_step_def exports_from_def exports_of_def ran_def split: if_splits prod.splits\<close>)

text \<open>The client of one of the stores last listed and watched under the conditions of \<open>client_converges\<close>;
  that of the slices moreover while the exports were settled, as far as the slices go that the emitter
  then holds, is about to announce or will touch.\<close>

definition restarted :: "('o, 'u) wiring \<Rightarrow> 'o link_action list \<Rightarrow> ('o, 'u) feed \<Rightarrow> bool" where
  "restarted wr acts st =
     (\<exists>before st0 pre mid post.
        acts = before @ map Flow (pre @ DoList # mid @ DoWatch # post) \<and>
        link_run wr before st = Inr st0 \<and> relinks wr st0 pre mid post)"

definition slices_restarted ::
  "(service_export, 'u) wiring \<Rightarrow> (endpoint_slice, 'v) wiring \<Rightarrow> site_action list \<Rightarrow> ('u, 'v) emitter_site \<Rightarrow> bool" where
  "slices_restarted wrE wrS acts s =
     (\<exists>before onward s0 pre mid post.
        acts = before @ onward \<and> site_run wrE wrS before s = Inr s0 \<and>
        slice_acts onward = map Flow (pre @ DoList # mid @ DoWatch # post) \<and>
        relinks (at_exports (exports_now s0) wrS) (em_slices s0) pre mid post \<and>
        settled wrE wrS (exports_from (em_slices s0) (pre @ mid @ post)) onward s0)"

text \<open>Runs in which only one of the two stores is used.\<close>

lemma site_run_only_exports:
  "site_run wrE wrS (map OnExports es) s =
     (case link_run wrE es (em_exports s) of Inl p \<Rightarrow> Inl p | Inr st \<Rightarrow> Inr (s\<lparr>em_exports := st\<rparr>))"
  by (induction es arbitrary: s) (auto simp: site_step_def split: sum.split)

lemma site_run_only_slices:
  "site_run wrE wrS (map OnSlices ss) s =
     (case link_run (at_exports (exports_now s) wrS) ss (em_slices s) of
        Inl p \<Rightarrow> Inl p | Inr st \<Rightarrow> Inr (s\<lparr>em_slices := st\<rparr>))"
  by (induction ss arbitrary: s) (auto simp: site_step_def exports_now_def split: sum.split)

lemma settled_only: "settled wrE wrS S (map OnSlices ss) s"
  by (induction ss arbitrary: s) (auto simp: site_step_def exports_now_def serve_alike_def split: sum.split)

lemma slices_restarted_only:
  assumes "site_run wrE wrS (map OnExports es) s = Inr s0"
    and "relinks (at_exports (exports_now s0) wrS) (em_slices s0) pre mid post"
  shows "slices_restarted wrE wrS (map OnExports es @ map OnSlices (map Flow (pre @ DoList # mid @ DoWatch # post))) s"
  unfolding slices_restarted_def
  by (intro exI [of _ "map OnExports es"] exI [of _ "map OnSlices (map Flow (pre @ DoList # mid @ DoWatch # post))"]
      exI [of _ s0] exI [of _ pre] exI [of _ mid] exI [of _ post])
     (simp add: assms settled_only del: map_append list.map map_map)

text \<open>A client of the exports that restarted and has caught up.\<close>

context feed_consumer
begin

lemma restarted_agrees:
  assumes r: "reg_live r" and view: "\<And>k. view_at s0 k = None" and restarted: "restarted wr acts (start_feed r)"
    and run: "link_run wr acts (start_feed r) = Inr st" and d: "drained st"
    and sound: "\<forall>x \<in> exports_of (flows acts). sound x"
  shows "agrees (expected wr (fd_store st)) (fold handle (fd_notes st) s0)"
proof -
  obtain before st0 pre mid post where acts: "acts = before @ map Flow (pre @ DoList # mid @ DoWatch # post)"
      "link_run wr before (start_feed r) = Inr st0" "relinks wr st0 pre mid post"
    using restarted unfolding restarted_def by blast
  have "\<forall>x \<in> exports_of (flows before @ pre @ mid @ post). sound x"
    using sound by (auto simp: acts(1) exports_of_def simp del: map_append list.map)
  from relink_converges [OF r view acts(2,3) this] run acts(1,2) show ?thesis
    using carries_agrees d by (auto simp: link_run_append link_run_flows simp del: map_append list.map)
qed

end

section \<open>The client of the slices, whatever the exports do\<close>

text \<open>A consumer that keeps its laws whatever the exports are.\<close>

locale site_consumer =
  fixes wrE :: "(service_export, 'u) wiring" and wrS :: "(endpoint_slice, 'v) wiring"
    and good :: "'v \<Rightarrow> bool" and want :: "'v \<Rightarrow> 'x option"
    and handle :: "'v informer_obj notification \<Rightarrow> 's \<Rightarrow> 's" and view_at :: "'s \<Rightarrow> string \<Rightarrow> 'x option"
    and sound :: "endpoint_slice \<Rightarrow> bool"
  assumes exports: "export_wiring wrE"
    and slices: "feed_consumer (at_exports X wrS) good want handle view_at sound"
begin

abbreviation carried :: "'s \<Rightarrow> (endpoint_slice, 'v) feed \<Rightarrow> bool" where
  "carried \<equiv> feed_consumer.carries (at_exports {} wrS) good want handle view_at sound"

lemma feed_at: "feed_wiring (at_exports X wrS)"
  using slices [of X] by (simp add: feed_consumer_def)

lemma libs_at: "feed_libs (at_exports X wrS)"
  using feed_at by (simp add: feed_wiring_def)

lemma carried_at: "feed_consumer.carries (at_exports X wrS) good want handle view_at sound s0 st = carried s0 st"
  by (simp add: feed_consumer.carries_def [OF slices] feed_consumer.sane_def [OF slices] flowing_def)

definition site_ok :: "'s \<Rightarrow> ('u, 'v) emitter_site \<Rightarrow> bool" where
  "site_ok s0 s = (linked wrE (em_exports s) \<and> linked (at_exports {} wrS) (em_slices s) \<and> carried s0 (em_slices s))"

lemma site_ok_start:
  assumes "reg_live rE" "reg_live rS" "\<And>k. view_at s0 k = None"
  shows "site_ok s0 (start_site rE rS)"
  by (simp add: site_ok_def linked_start assms(1,2) feed_consumer.carries_start [OF slices assms(2,3)])

lemma site_ok_step:
  assumes ok: "site_ok s0 s" and sound: "\<forall>es \<in> slice_versions [act]. sound es"
  shows "\<exists>s1. site_step wrE wrS act s = Inr s1 \<and> site_ok s0 s1"
proof (cases act)
  case (OnExports a)
  obtain st where "link_run wrE [a] (em_exports s) = Inr st" "linked wrE st"
    using feed_wiring.linked_run [OF export_feed [OF exports], of "em_exports s" "[a]"] ok by (auto simp: site_ok_def)
  then show ?thesis using ok OnExports by (auto simp: site_step_def site_ok_def split: sum.splits)
next
  case (OnSlices a)
  let ?X = "exports_now s"
  have l: "linked (at_exports ?X wrS) (em_slices s)" using ok linked_at [of ?X wrS _ "{}"] by (simp add: site_ok_def)
  have s: "\<forall>es \<in> exports_of (flows [a]). sound es" using sound OnSlices by (simp add: slice_versions_def)
  have c: "feed_consumer.carries (at_exports ?X wrS) good want handle view_at sound s0 (em_slices s)"
    using ok by (simp only: carried_at [of ?X] site_ok_def)
  obtain st where st: "link_run (at_exports ?X wrS) [a] (em_slices s) = Inr st" "carried s0 st"
    using feed_consumer.carries_link [OF slices c l s] unfolding carried_at [of ?X] by blast
  obtain st' where "link_run (at_exports ?X wrS) [a] (em_slices s) = Inr st'" "linked (at_exports ?X wrS) st'"
    using feed_wiring.linked_run [OF feed_at l] by blast
  then have "linked (at_exports {} wrS) st" using st(1) linked_at [of ?X wrS st "{}"] by simp
  moreover have "link_step (at_exports ?X wrS) a (em_slices s) = Inr st" using st(1) by (simp split: sum.splits)
  ultimately show ?thesis using st(2) ok OnSlices by (simp add: site_step_def site_ok_def)
qed

text \<open>No run of an emitter with both its stores panics.\<close>

lemma site_ok_run:
  assumes "site_ok s0 s" "\<forall>es \<in> slice_versions acts. sound es"
  shows "\<exists>s1. site_run wrE wrS acts s = Inr s1 \<and> site_ok s0 s1"
  using assms
proof (induction acts arbitrary: s)
  case (Cons act acts)
  have "slice_versions (act # acts) = slice_versions [act] \<union> slice_versions acts"
    using slice_versions_append [of "[act]" acts] by simp
  with Cons.prems(2) have v: "\<forall>es \<in> slice_versions [act]. sound es" "\<forall>es \<in> slice_versions acts. sound es" by auto
  obtain s1 where "site_step wrE wrS act s = Inr s1" "site_ok s0 s1" using site_ok_step [OF Cons.prems(1) v(1)] by blast
  with Cons.IH [OF _ v(2)] show ?case by auto
qed simp

text \<open>Where the exports are settled, the slice feed is one whose exports stay.\<close>

lemma settled_slices:
  assumes "site_run wrE wrS acts s = Inr s1" "settled wrE wrS S acts s" "slice_acts acts = map Flow fs"
    and "serve_alike X (exports_now s) S" "exports_from (em_slices s) fs \<subseteq> S" "finite (dom (fd_store (em_slices s)))"
  shows "feed_run (at_exports X wrS) fs (em_slices s) = Inr (em_slices s1) \<and>
    serve_alike X (exports_now s1) S \<and> ran (fd_store (em_slices s1)) \<subseteq> S"
  using assms
proof (induction acts arbitrary: s fs)
  case Nil
  then show ?case by (auto simp: exports_from_def)
next
  case (Cons act acts)
  obtain s2 where s2: "site_step wrE wrS act s = Inr s2" "site_run wrE wrS acts s2 = Inr s1"
    using Cons.prems(1) by (auto split: sum.splits)
  have settled: "serve_alike (exports_now s) (exports_now s2) S" "settled wrE wrS S acts s2"
    using Cons.prems(2) s2(1) by auto
  have X: "serve_alike X (exports_now s2) S" using settled(1) Cons.prems(4) by (simp add: serve_alike_def)
  show ?case
  proof (cases act)
    case (OnExports a)
    then have "em_slices s2 = em_slices s" using s2(1) by (auto simp: site_step_def split: sum.splits)
    with Cons.IH [OF s2(2) settled(2) _ X] Cons.prems(3,5,6) OnExports show ?thesis by simp
  next
    case (OnSlices a)
    then obtain f fs' where f: "fs = f # fs'" "a = Flow f" "slice_acts acts = map Flow fs'"
      using Cons.prems(3) by (cases fs) auto
    let ?Y = "exports_now s"
    have "feed_step (at_exports ?Y wrS) f (em_slices s) = Inr (em_slices s2)"
      using s2(1) OnSlices f(2) by (auto simp: site_step_def link_step_def split: sum.splits)
    moreover have "serve_alike X ?Y (exports_from (em_slices s) [f])"
      using Cons.prems(4,5) f(1) by (auto simp: serve_alike_def exports_from_def exports_of_def)
    ultimately have step: "feed_step (at_exports X wrS) f (em_slices s) = Inr (em_slices s2)"
      using step_alike [OF libs_at libs_at _ Cons.prems(6)] by simp
    have "exports_from (em_slices s2) fs' \<subseteq> S"
      using exports_from_step [OF step, of fs'] Cons.prems(5) f(1) by blast
    moreover have "finite (dom (fd_store (em_slices s2)))"
      unfolding step_store [OF step] using Cons.prems(6) by (cases f) (auto simp: store_moves_def)

    ultimately show ?thesis using Cons.IH [OF s2(2) settled(2) f(3) X] step f(1) by simp
  qed
qed

text \<open>Then, whenever nothing is on its way, the view of the consumer is what the emitter serves and the
  client selects, by the exports the emitter holds.\<close>

lemma slices_converge:
  assumes live: "reg_live rE" "reg_live rS" and view: "\<And>k. view_at v0 k = None"
    and restarted: "slices_restarted wrE wrS acts (start_site rE rS)"
    and sound: "\<forall>es \<in> slice_versions acts. sound es"
  shows "\<exists>s1. site_run wrE wrS acts (start_site rE rS) = Inr s1 \<and>
    (drained (em_slices s1) \<longrightarrow>
      informer_consumer.agrees (wr_key wrS) good want view_at
        (expected (at_exports (exports_now s1) wrS) (fd_store (em_slices s1)))
        (fold handle (fd_notes (em_slices s1)) v0))"
proof -
  obtain before onward s0 pre mid post where acts: "acts = before @ onward"
      "site_run wrE wrS before (start_site rE rS) = Inr s0"
      "slice_acts onward = map Flow (pre @ DoList # mid @ DoWatch # post)"
      "relinks (at_exports (exports_now s0) wrS) (em_slices s0) pre mid post"
      "settled wrE wrS (exports_from (em_slices s0) (pre @ mid @ post)) onward s0"
    using restarted unfolding slices_restarted_def by blast
  let ?X = "exports_now s0" and ?fs = "pre @ DoList # mid @ DoWatch # post"
  let ?S = "exports_from (em_slices s0) (pre @ mid @ post)"
  have sounds: "\<forall>es \<in> slice_versions before. sound es" "\<forall>es \<in> slice_versions onward. sound es"
    using sound acts(1) by auto
  have ok0: "site_ok v0 s0" using site_ok_run [OF site_ok_start [OF live view] sounds(1)] acts(2) by auto
  obtain s1 where s1: "site_run wrE wrS onward s0 = Inr s1" "site_ok v0 s1"
    using site_ok_run [OF ok0 sounds(2)] by blast
  have S: "exports_from (em_slices s0) ?fs \<subseteq> ?S" by (auto simp: exports_from_def exports_of_def)
  have fin: "finite (dom (fd_store (em_slices s0)))" using ok0 by (simp add: site_ok_def linked_def)
  have "serve_alike ?X ?X ?S" by (simp add: serve_alike_def)
  from settled_slices [OF s1(1) acts(5,3) this S fin] have run: "feed_run (at_exports ?X wrS) ?fs (em_slices s0) = Inr (em_slices s1)"
    and alike: "serve_alike ?X (exports_now s1) ?S" "ran (fd_store (em_slices s1)) \<subseteq> ?S" by blast+
  have c0: "feed_consumer.carries (at_exports ?X wrS) good want handle view_at sound v0 (em_slices s0)"
    "linked (at_exports ?X wrS) (em_slices s0)"
    using ok0 linked_at [of ?X wrS _ "{}"] by (simp_all only: carried_at [of ?X] site_ok_def)
  have "\<forall>es \<in> exports_of (pre @ mid @ post). sound es"
    using sounds(2) acts(3) by (auto simp: slice_versions_def exports_of_def simp del: map_append)
  from feed_consumer.relink_from [OF slices c0 acts(4) this] run obtain st where
    c1: "feed_consumer.carries (at_exports ?X wrS) good want handle view_at sound v0 (em_slices s1)"
      "drained (em_slices s1) \<longrightarrow> inf_indexer (fd_inf (em_slices s1)) = expected (at_exports ?X wrS) (fd_store (em_slices s1))"
    by auto
  have "informer_consumer.agrees (wr_key wrS) good want view_at
        (expected (at_exports (exports_now s1) wrS) (fd_store (em_slices s1))) (fold handle (fd_notes (em_slices s1)) v0)"
    if d: "drained (em_slices s1)"
    using feed_consumer.carries_agrees [OF slices c1(1)] c1(2) d serve_alike_expected [OF alike, of wrS] by simp
  with s1(1) acts(1,2) show ?thesis by (auto simp: site_run_append)
qed

end

end
