(* ===== verification/Slice_Pipeline.thy ===== *)
theory Slice_Pipeline
  imports Emitter_Site
begin

text \<open>
  The whole path of an EndpointSlice, and then of a watcher with both its informers: the slice store of
  the emitter (\<open>endpointSliceStorage\<close> of \<open>pkg/storage/storage.go\<close>), which serves the slices of exported
  Services, the second informer of a watcher, its handlers (\<open>onEndpointSliceAdd\<close>, \<open>onEndpointSliceDelete\<close>
  of \<open>pkg/controller/watcher.go\<close>), and the mirrored slices of the local cluster. The slice store looks up
  the exports its own emitter holds (\<open>Emitter_Site\<close>), and the names of the slices fit behind the name of
  the remote, so that mirrors do not collide (\<open>mirror_name_bound\<close>).
\<close>

section \<open>The handlers of slices are a consumer\<close>

definition name_fits :: "watcher \<Rightarrow> namespaced_name \<Rightarrow> bool" where
  "name_fits w nn = (length (w_remoteID w) + length (Name nn) < 63)"

definition sound_slice :: "watcher \<Rightarrow> endpoint_slice \<Rightarrow> bool" where
  "sound_slice w es = (sound_namespace (om_Namespace (es_meta es)) \<and> name_fits w (es_key es))"

definition mirror_name :: "watcher \<Rightarrow> namespaced_name \<Rightarrow> namespaced_name" where
  "mirror_name w nn = NamespacedName (Namespace nn) (localEndpointSliceName (w_remoteID w) (Name nn))"

text \<open>What is to be shown of a slice: nothing of one that the controller of Kubernetes manages
  (\<open>controller_slice_not_mirrored\<close>) or that no Service owns.\<close>

definition slice_wanted :: "watcher \<Rightarrow> endpoint_slice \<Rightarrow> slice_view option" where
  "slice_wanted w es =
     (if localShouldIgnoreEndpointSlice es then None
      else map_option (\<lambda>owner. (mirror_labels w (Name owner), es_AddressType es, es_Endpoints es, es_Ports es))
        (localServiceImportOwner es))"

text \<open>\<open>V\<close> are the versions of slices there can be.\<close>

definition decodes_slice ::
  "endpoint_slice set \<Rightarrow> watcher \<Rightarrow> ('u \<Rightarrow> string) \<Rightarrow> ('u \<Rightarrow> endpoint_slice option) \<Rightarrow> 'u \<Rightarrow> bool" where
  "decodes_slice V w key fromES u =
     (case fromES u of None \<Rightarrow> False | Some es \<Rightarrow> key u = es_name es \<and> sound_slice w es \<and> es \<in> V)"

definition wanted_slice :: "watcher \<Rightarrow> ('u \<Rightarrow> endpoint_slice option) \<Rightarrow> 'u \<Rightarrow> slice_view option" where
  "wanted_slice w fromES u = Option.bind (fromES u) (slice_wanted w)"

definition slice_at :: "watcher \<Rightarrow> mirror \<Rightarrow> string \<Rightarrow> slice_view option" where
  "slice_at w m k = (if name_fits w (split_key k) then snd m (mirror_name w (split_key k)) else None)"

definition slice_event ::
  "watcher \<Rightarrow> ('u \<Rightarrow> endpoint_slice option) \<Rightarrow> 'u informer_obj notification \<Rightarrow> mirror \<Rightarrow> mirror" where
  "slice_event w fromES n = spec_event w (\<lambda>_. None) fromES (OnSlice n)"

lemma mirror_key_name: "mirror_key w es = mirror_name w (es_key es)"
  by (simp add: mirror_key_def mirror_name_def es_key_def om_key_def)

lemma mirror_name_inj:
  "name_fits w n1 \<Longrightarrow> name_fits w n2 \<Longrightarrow> mirror_name w n1 = mirror_name w n2 \<longleftrightarrow> n1 = n2"
  using mirror_name_bound [of "w_remoteID w" "Name n1" "Name n2"]
  by (cases n1; cases n2) (auto simp: name_fits_def mirror_name_def)

lemma es_name_String: "sound_slice w es \<Longrightarrow> es_name es = nn_String (es_key es)"
  by (simp add: es_name_def es_key_def sound_slice_def meta_key_String)

lemma slice_at_upd:
  assumes "sound_slice w es"
  shows "slice_at w (i, (snd m)(mirror_key w es := v)) k = (if k = es_name es then v else slice_at w m k)"
proof (cases "k = es_name es")
  case True
  then have "split_key k = es_key es"
    using assms split_meta_key [of "es_meta es"] by (simp add: sound_slice_def es_name_def es_key_def)
  then show ?thesis using assms True by (simp add: slice_at_def mirror_key_name sound_slice_def)
next
  case False
  then have "split_key k \<noteq> es_key es"
    using assms split_meta_key [of "es_meta es"] by (simp add: sound_slice_def es_name_def es_key_def)
  then show ?thesis using assms False mirror_name_inj [of w "split_key k" "es_key es"]
    by (simp add: slice_at_def mirror_key_name sound_slice_def)
qed

lemma slice_at_spec:
  assumes "sound_slice w es"
  shows "slice_at w (spec_slice w (Some es) m) k =
      (if k = es_name es \<and> slice_wanted w es \<noteq> None then slice_wanted w es else slice_at w m k)"
    "slice_at w (spec_unslice w (Some es) m) k = (if k = es_name es then None else slice_at w m k)"
  using slice_at_upd [OF assms] by (auto simp: spec_slice_def spec_unslice_def slice_wanted_def split: option.split)

interpretation slice_consumer: informer_consumer key "decodes_slice V w key fromES" "wanted_slice w fromES"
  "slice_event w fromES" "slice_at w"
proof unfold_locales
  fix u :: 'a and s :: mirror and k and old :: "'a informer_obj" and j :: string
  assume "decodes_slice V w key fromES u"
  then obtain es where u: "fromES u = Some es" "key u = es_name es" "sound_slice w es"
    by (auto simp: decodes_slice_def split: option.splits)
  note defs = slice_event_def spec_event_def toEndpointSlice_def deleted_obj_def wanted_slice_def u(1,2)
    slice_at_spec [OF u(3)]
  show "slice_at w (slice_event w fromES (Added (Unstructured u)) s) k =
      (if k = key u \<and> wanted_slice w fromES u \<noteq> None then wanted_slice w fromES u else slice_at w s k)"
    "slice_at w (slice_event w fromES (Updated old (Unstructured u)) s) k =
      (if k = key u \<and> wanted_slice w fromES u \<noteq> None then wanted_slice w fromES u else slice_at w s k)"
    "slice_at w (slice_event w fromES (Deleted (Unstructured u)) s) k =
      (if k = key u then None else slice_at w s k)"
    "slice_at w (slice_event w fromES (Deleted (DeletedFinalStateUnknown j (Unstructured u))) s) k =
      (if k = key u then None else slice_at w s k)"
    by (cases "slice_wanted w es"; simp add: defs)+
qed

lemma wr_name_slice [simp]: "wr_store wr = slice_store exports \<Longrightarrow> wr_name wr x = es_name x"
  by (simp add: wr_name_def es_name_def)

lemma decode_slice_item:
  assumes "slice_wiring exports wr" "\<And>es. fromES (wr_encode wr (ItemSlice es)) = Some es"
  shows "fromES (wr_encode wr (eo_item (wr_store wr) es)) = Some es"
  using assms by simp

lemma feed_consumer_slices:
  assumes "slice_wiring exports wr" "\<And>es. fromES (wr_encode wr (ItemSlice es)) = Some es"
  shows "feed_consumer wr (decodes_slice V w (wr_key wr) fromES) (wanted_slice w fromES) (slice_event w fromES)
    (slice_at w) (\<lambda>es. sound_slice w es \<and> es \<in> V)"
  using slice_feed [OF assms(1)] feed_libs.encoded_key [OF conjunct1 [OF assms(1)]] assms
  by (intro feed_consumer.intro feed_consumer_axioms.intro slice_consumer.informer_consumer_axioms)
     (auto simp: decodes_slice_def)

text \<open>They are so whatever the exports of the emitter are.\<close>

lemma site_consumer_slices:
  assumes "export_wiring wrE" "slice_wiring exports wrS" "\<And>es. fromES (wr_encode wrS (ItemSlice es)) = Some es"
  shows "site_consumer wrE wrS (decodes_slice V w (wr_key wrS) fromES) (wanted_slice w fromES) (slice_event w fromES)
    (slice_at w) (\<lambda>es. sound_slice w es \<and> es \<in> V)"
proof (rule site_consumer.intro [OF assms(1)])
  fix X show "feed_consumer (at_exports X wrS) (decodes_slice V w (wr_key wrS) fromES) (wanted_slice w fromES)
    (slice_event w fromES) (slice_at w) (\<lambda>es. sound_slice w es \<and> es \<in> V)"
    using feed_consumer_slices [OF at_exports_wiring [OF assms(2)], of fromES X V w] assms(3) by simp
qed

section \<open>Both informers of a watcher\<close>

fun export_notes :: "'n watch_event list \<Rightarrow> 'n notification list" where
  "export_notes [] = []"
| "export_notes (OnExport n # evs) = n # export_notes evs"
| "export_notes (OnSlice n # evs) = export_notes evs"

fun slice_notes :: "'n watch_event list \<Rightarrow> 'n notification list" where
  "slice_notes [] = []"
| "slice_notes (OnExport n # evs) = slice_notes evs"
| "slice_notes (OnSlice n # evs) = n # slice_notes evs"

lemma notes_only [simp]:
  "export_notes (map OnExport ns) = ns" "slice_notes (map OnExport ns) = []"
  "export_notes (map OnSlice ns) = []" "slice_notes (map OnSlice ns) = ns"
  by (induction ns) simp_all

lemma notes_append [simp]:
  "export_notes (as @ bs) = export_notes as @ export_notes bs"
  "slice_notes (as @ bs) = slice_notes as @ slice_notes bs"
  by (induction as rule: export_notes.induct) simp_all

text \<open>The two kinds of events do not touch what the other is about.\<close>

lemma spec_event_apart:
  "fst (spec_event w fromSE fromES (OnSlice n) m) = fst m"
  "snd (spec_event w fromSE fromES (OnExport n) m) = snd m"
  "fst m = fst m' \<Longrightarrow> fst (spec_event w fromSE fromES (OnExport n) m) = fst (export_event w fromSE n m')"
  "snd m = snd m' \<Longrightarrow> snd (spec_event w fromSE fromES (OnSlice n) m) = snd (slice_event w fromES n m')"
  by (auto simp: spec_event_def export_event_def slice_event_def spec_export_def spec_unexport_def spec_slice_def
      spec_unslice_def split: notification.split option.split sum.split)

lemma fold_apart:
  "fst m = fst m' \<Longrightarrow>
   fst (fold (spec_event w fromSE fromES) evs m) = fst (fold (export_event w fromSE) (export_notes evs) m')"
  "snd m = snd m' \<Longrightarrow>
   snd (fold (spec_event w fromSE fromES) evs m) = snd (fold (slice_event w fromES) (slice_notes evs) m')"
  by (induction evs arbitrary: m m' rule: export_notes.induct) (simp_all add: spec_event_apart)

text \<open>What the handlers do to the local cluster, in the two views.\<close>

lemma events_view:
  assumes B: "synced_cluster c ex ex' sv sv' im im' sl sl' up settle"
    and s: "up s" "im' s = im s" "sl' s = sl s"
    and s1: "s1 = snd (run_events w fromSE fromES c settle evs (cd, s))"
  shows "import_at (mirror_view (im s1) (sl s1)) =
      import_at (fold (export_event w fromSE) (export_notes evs) (mirror_view (im s) (sl s)))"
    "slice_at w (mirror_view (im s1) (sl s1)) =
      slice_at w (fold (slice_event w fromES) (slice_notes evs) (mirror_view (im s) (sl s)))"
proof -
  have "synced_cluster.in_sync im im' sl sl' up s"
    using s by (simp add: synced_cluster.in_sync_def [OF B])
  from synced_cluster.run_refines [OF B this surjective_pairing, of w fromSE fromES evs cd]
  have "mirror_view (im s1) (sl s1) = fold (spec_event w fromSE fromES) evs (mirror_view (im s) (sl s))"
    by (simp add: s1)
  then show "import_at (mirror_view (im s1) (sl s1)) =
      import_at (fold (export_event w fromSE) (export_notes evs) (mirror_view (im s) (sl s)))"
    "slice_at w (mirror_view (im s1) (sl s1)) =
      slice_at w (fold (slice_event w fromES) (slice_notes evs) (mirror_view (im s) (sl s)))"
    by (simp_all add: fun_eq_iff import_at_def slice_at_def fold_apart [OF refl])
qed

text \<open>What a cluster should show of the slice \<open>nn\<close> of the remote: no mirror of a slice that is missing or
  that the emitter does not serve or select; the endpoints, the ports and the address type of one that
  is, under the labels of a mirror, whenever a Service owns it and the controller of Kubernetes does not
  manage it. Of a served slice that is not to be mirrored there is no mirror either, unless it is what an
  earlier version of it was to show, since then the code leaves the mirror as it is.\<close>

definition slice_mirrored ::
  "endpoint_slice set \<Rightarrow> watcher \<Rightarrow> (endpoint_slice, 'u) wiring \<Rightarrow> (string \<rightharpoonup> endpoint_slice) \<Rightarrow> namespaced_name \<Rightarrow>
   endpoint_slice option \<Rightarrow> bool" where
  "slice_mirrored V w wr m nn slp =
     (case m (nn_String nn) of
        None \<Rightarrow> slp = None
      | Some es \<Rightarrow>
          if selects wr es
          then (case slice_wanted w es of
                  Some v \<Rightarrow> map_option slice_view slp = Some v
                | None \<Rightarrow>
                    (case slp of
                       None \<Rightarrow> True
                     | Some sl \<Rightarrow> \<exists>es' \<in> V. es_key es' = nn \<and> slice_wanted w es' = Some (slice_view sl)))
          else slp = None)"

lemma slice_at_mirror:
  "sound_namespace (Namespace nn) \<Longrightarrow> name_fits w nn \<Longrightarrow>
   slice_at w (mirror_view i l) (nn_String nn) = map_option slice_view (l (mirror_name w nn))"
  by (simp add: slice_at_def split_key_String mirror_view_def)

lemma agrees_slice_mirrored:
  assumes agree: "informer_consumer.agrees (wr_key wr) (decodes_slice V w (wr_key wr) fromES) (wanted_slice w fromES)
      (slice_at w) (expected wr m) (mirror_view i l)"
    and decode: "\<And>es. fromES (wr_encode wr (eo_item (wr_store wr) es)) = Some es"
    and nn: "sound_namespace (Namespace nn)" "name_fits w nn"
  shows "slice_mirrored V w wr m nn (l (mirror_name w nn))"
proof -
  note view = slice_at_mirror [OF nn, of i l]
  have old: "\<exists>es' \<in> V. es_key es' = nn \<and> slice_wanted w es' = Some (slice_view sl)" if "l (mirror_name w nn) = Some sl" for sl
  proof -
    have "slice_at w (mirror_view i l) (nn_String nn) = Some (slice_view sl)" using that view by simp
    from slice_consumer.agreesD(3) [OF agree this] obtain u where
      u: "decodes_slice V w (wr_key wr) fromES u" "wr_key wr u = nn_String nn" "wanted_slice w fromES u = Some (slice_view sl)" by blast
    then obtain es' where es': "fromES u = Some es'" "nn_String nn = es_name es'" "sound_slice w es'" "es' \<in> V"
      by (auto simp: decodes_slice_def split: option.splits)
    moreover have "split_key (nn_String nn) = es_key es'"
      using split_meta_key [of "es_meta es'" "nn_String nn"] es'(2,3) by (simp add: es_key_def es_name_def sound_slice_def)
    then have "es_key es' = nn" using split_key_String [OF nn(1)] by simp
    moreover have "slice_wanted w es' = Some (slice_view sl)" using u(3) es'(1) by (simp add: wanted_slice_def)
    ultimately show ?thesis by blast
  qed
  show ?thesis
  proof (cases "expected wr m (nn_String nn)")
    case None
    then have "l (mirror_name w nn) = None" using slice_consumer.agreesD(1) [OF agree None] view by simp
    with None show ?thesis by (auto simp: slice_mirrored_def expected_def split: option.splits if_splits)
  next
    case (Some u)
    then obtain es where es: "m (nn_String nn) = Some es" "selects wr es" "fromES u = Some es"
      using decode by (auto simp: expected_def split: option.splits if_splits)
    have "map_option slice_view (l (mirror_name w nn)) = Some v" if "slice_wanted w es = Some v" for v
      using slice_consumer.agreesD(2) [OF agree Some, of v] es(3) that view by (simp add: wanted_slice_def)
    then show ?thesis using es(1,2) old by (auto simp: slice_mirrored_def split: option.split)
  qed
qed

text \<open>For concrete runs: a wiring on which both kinds of objects travel.\<close>

definition both_wiring ::
  "('o, service_export + endpoint_slice) emitter_store \<Rightarrow> ('o, service_export + endpoint_slice) wiring" where
  "both_wiring S =
     \<lparr>wr_store = S, wr_options = None, wr_ns = [], wr_srt = id,
      wr_items = (\<lambda>m. map (the \<circ> m) (sorted_list_of_set (dom m))),
      wr_encode = (\<lambda>it. case it of ItemExport se \<Rightarrow> Inl se | ItemSlice es \<Rightarrow> Inr es | _ \<Rightarrow> Inl web_export),
      wr_umeta = case_sum se_meta es_meta, wr_key = case_sum se_name es_name,
      wr_order = (\<lambda>m. sorted_list_of_set (dom m)), wr_same = (=)\<rparr>"

lemma both_wiring_sel [simp]:
  "wr_store (both_wiring S) = S" "wr_options (both_wiring S) = None" "wr_ns (both_wiring S) = []"
  "wr_srt (both_wiring S) = id"
  "wr_items (both_wiring S) m = map (the \<circ> m) (sorted_list_of_set (dom m))"
  "wr_encode (both_wiring S) (ItemExport se) = Inl se" "wr_encode (both_wiring S) (ItemSlice es) = Inr es"
  "wr_umeta (both_wiring S) = case_sum se_meta es_meta" "wr_key (both_wiring S) = case_sum se_name es_name"
  "wr_order (both_wiring S) idx = sorted_list_of_set (dom idx)" "wr_same (both_wiring S) = (=)"
  by (simp_all add: both_wiring_def)

interpretation both_exports: feed_libs "both_wiring export_store"
  by unfold_locales (force simp: ran_def image_iff)+

interpretation both_slices: feed_libs "both_wiring (slice_store exports)"
  by unfold_locales (force simp: ran_def image_iff)+

lemma both_plain: "export_wiring (both_wiring export_store)" "slice_wiring exports (both_wiring (slice_store exports))"
  by (simp_all add: both_exports.feed_libs_axioms both_slices.feed_libs_axioms)

definition from_left :: "'a + 'b \<Rightarrow> 'a option" where "from_left x = (case x of Inl a \<Rightarrow> Some a | Inr _ \<Rightarrow> None)"
definition from_right :: "'a + 'b \<Rightarrow> 'b option" where "from_right x = (case x of Inl _ \<Rightarrow> None | Inr b \<Rightarrow> Some b)"

lemmas slice_feed_defs = feed_defs es_handle_def es_OnAdd_def es_OnUpdate_def es_OnDelete_def es_List_def es_Watch_def

lemma web_slice_exported:
  "es_name web_slice = ''shop/web-x7''" "hasExport {''shop/web''} web_slice"
  "es_key web_slice = NamespacedName ''shop'' ''web-x7''" "om_Namespace (es_meta web_slice) = ''shop''"
  by (simp_all add: es_name_def meta_key_def web_slice_def hasExport_def get0_def api_const_defs Let_def es_key_def om_key_def)

section \<open>A remote whose slices have arrived\<close>

text \<open>An emitter and the client of its slices after the run \<open>acts\<close>: the client restarted in it, no action on
  the slices is under way, and the names of the slices fit.\<close>

definition slices_caught_up ::
  "watcher \<Rightarrow> (service_export, 'u) wiring \<Rightarrow> (endpoint_slice, 'v) wiring \<Rightarrow> site_action list \<Rightarrow>
   ('u, 'v) emitter_site \<Rightarrow> bool" where
  "slices_caught_up w wrE wrS acts st =
     (drained (em_slices st) \<and> (\<forall>es \<in> slice_versions acts. sound_slice w es) \<and>
      (\<exists>rE rS. reg_live rE \<and> reg_live rS \<and> slices_restarted wrE wrS acts (start_site rE rS) \<and>
         site_run wrE wrS acts (start_site rE rS) = Inr st))"

lemma caught_up_slices:
  assumes wr: "export_wiring wrE" "slice_wiring exports wrS" and decode: "\<And>es. fromES (wr_encode wrS (ItemSlice es)) = Some es"
    and st: "slices_caught_up w wrE wrS acts st" and empty: "\<And>k. slice_at w m k = None"
  shows "informer_consumer.agrees (wr_key wrS) (decodes_slice (slice_versions acts) w (wr_key wrS) fromES) (wanted_slice w fromES)
      (slice_at w) (expected (at_exports (exports_now st) wrS) (fd_store (em_slices st)))
      (fold (slice_event w fromES) (fd_notes (em_slices st)) m)"
proof -
  obtain rE rS where r: "reg_live rE" "reg_live rS" "slices_restarted wrE wrS acts (start_site rE rS)"
      "site_run wrE wrS acts (start_site rE rS) = Inr st"
    using st unfolding slices_caught_up_def by blast
  have "\<forall>es \<in> slice_versions acts. sound_slice w es \<and> es \<in> slice_versions acts" using st by (simp add: slices_caught_up_def)
  from site_consumer.slices_converge [OF site_consumer_slices [OF wr decode] r(1,2) empty r(3) this] r(4) st
  show ?thesis by (simp add: slices_caught_up_def)
qed

text \<open>What the handlers make of it.\<close>

lemma caught_up_slice_mirrored:
  assumes wr: "export_wiring wrE" "slice_wiring exports wrS" and decode: "\<And>es. fromES (wr_encode wrS (ItemSlice es)) = Some es"
    and st: "slices_caught_up w wrE wrS acts st" and empty: "\<And>k. slice_at w m k = None"
    and view: "slice_at w (mirror_view i l) = slice_at w (fold (slice_event w fromES) (fd_notes (em_slices st)) m)"
    and nn: "sound_namespace (Namespace nn)" "name_fits w nn"
  shows "slice_mirrored (slice_versions acts) w (at_exports (exports_now st) wrS) (fd_store (em_slices st)) nn
    (l (mirror_name w nn))"
proof (rule agrees_slice_mirrored [where fromES = fromES, OF _ _ nn])
  show "informer_consumer.agrees (wr_key (at_exports (exports_now st) wrS))
     (decodes_slice (slice_versions acts) w (wr_key (at_exports (exports_now st) wrS)) fromES) (wanted_slice w fromES)
     (slice_at w) (expected (at_exports (exports_now st) wrS) (fd_store (em_slices st))) (mirror_view i l)"
    using slice_consumer.agrees_view [OF caught_up_slices [OF wr decode st empty] view] by simp
qed (simp add: decode)

section \<open>Properties\<close>

text \<open>C5. The whole path of a slice: the EndpointSlices of cluster A arrive in cluster B. Let the emitter of A
  store, delete and deliver exports and slices, and let the clients of both stores list, watch and be cut off
  in any order; the exports do not change behind the back of the slices only from the last list of
  a watcher of B on: no export of a Service comes or goes then that owns one of the slices that are
  there or will be touched, and that list and the watch after it meet the conditions of \<open>client_converges\<close> (stable
  selection, room in the channel, no delivery of a later change in between). Then no step panics, and
  whenever nothing is on its way the mirrors in B are those of the slices that A holds, that belong to
  a Service exported at that moment and that the watcher selects, with their endpoints, ports and address
  type, the labels of a mirror and the name of the remote in front. A slice that the controller of
  Kubernetes manages or that no Service owns has no mirror, or the one an earlier version of it, which
  was to be mirrored, left behind; of no other slice of A is there a mirror. All of this for
  slices whose name fits: together with the ID of the remote it is shorter than 63 bytes.\<close>

theorem slices_mirrored:
  assumes B: "synced_cluster c ex ex' sv sv' im im' sl sl' up settle"
    and s: "up s" "im' s = im s" "sl' s = sl s" "\<And>nn. sl s (mirror_name w nn) = None"
    and wr: "export_wiring wrE" "slice_wiring exports wrS"
    and decode: "\<And>es. fromES (wr_encode wrS (ItemSlice es)) = Some es"
    and live: "reg_live rE" "reg_live rS" and restarted: "slices_restarted wrE wrS acts (start_site rE rS)"
    and sound: "\<forall>es \<in> slice_versions acts. sound_slice w es"
  shows "\<exists>st. site_run wrE wrS acts (start_site rE rS) = Inr st \<and>
    (drained (em_slices st) \<longrightarrow> (\<forall>nn. sound_namespace (Namespace nn) \<and> name_fits w nn \<longrightarrow>
       slice_mirrored (slice_versions acts) w (at_exports (exports_now st) wrS) (fd_store (em_slices st)) nn
         (sl (snd (run_events w fromSE fromES c settle (map OnSlice (fd_notes (em_slices st))) (cd, s))) (mirror_name w nn))))"
proof -
  let ?m = "mirror_view (im s) (sl s)"
  have empty: "slice_at w ?m k = None" for k by (simp add: slice_at_def mirror_view_def s(4))
  have "\<forall>es \<in> slice_versions acts. sound_slice w es \<and> es \<in> slice_versions acts" using sound by simp
  from site_consumer.slices_converge [OF site_consumer_slices [OF wr decode] live empty restarted this]
  obtain st where st: "site_run wrE wrS acts (start_site rE rS) = Inr st" by blast
  let ?s1 = "snd (run_events w fromSE fromES c settle (map OnSlice (fd_notes (em_slices st))) (cd, s))"
  have "slice_mirrored (slice_versions acts) w (at_exports (exports_now st) wrS) (fd_store (em_slices st)) nn
      (sl ?s1 (mirror_name w nn))"
    if "drained (em_slices st)" "sound_namespace (Namespace nn)" "name_fits w nn" for nn
  proof (rule caught_up_slice_mirrored [OF wr decode _ empty _ that(2,3)])
    show "slices_caught_up w wrE wrS acts st"
      using that(1) sound live restarted st unfolding slices_caught_up_def by blast
    show "slice_at w (mirror_view (im ?s1) (sl ?s1)) = slice_at w (fold (slice_event w fromES) (fd_notes (em_slices st)) ?m)"
      by (simp add: events_view(2) [OF B s(1-3) refl])
  qed
  with st show ?thesis by blast
qed

text \<open>A slice of a Service that is exported first.\<close>

definition slice_post :: "endpoint_slice feed_action list" where
  "slice_post = [Upsert web_slice, Notify, Receive, PopDelta False]"

definition export_post :: "service_export feed_action list" where
  "export_post = [Upsert (annotate web_service web_export), Notify, Receive, PopDelta False]"

definition web_site :: "site_action list" where
  "web_site = map OnExports (map Flow ([] @ DoList # [] @ DoWatch # export_post)) @
     map OnSlices (map Flow ([] @ DoList # [] @ DoWatch # slice_post))"

abbreviation web_wirings where
  "web_wirings P \<equiv> P (both_wiring export_store) (both_wiring (slice_store {}))"

lemma at_both [simp]: "at_exports X (both_wiring (slice_store Y)) = both_wiring (slice_store X)"
  by (simp add: at_exports_def both_wiring_def)

lemma web_site_run:
  obtains st where "web_wirings site_run web_site (start_site empty_registry empty_registry) = Inr st"
    "drained (em_exports st)" "fd_store (em_exports st) ''shop/web'' = Some (annotate web_service web_export)"
    "drained (em_slices st)" "fd_store (em_slices st) ''shop/web-x7'' = Some web_slice"
    "exports_now st = {''shop/web''}" "web_wirings slices_restarted web_site (start_site empty_registry empty_registry)"
    "restarted (both_wiring export_store) (export_acts web_site) (start_feed empty_registry)"
    "fd_notes (em_slices st) = [Added (Unstructured (Inr web_slice))]"
proof -
  let ?wrE = "both_wiring export_store" and ?wrS = "\<lambda>X. both_wiring (slice_store X)"
  let ?E = "[] @ DoList # [] @ DoWatch # export_post" and ?S = "[] @ DoList # [] @ DoWatch # slice_post"
  let ?se = "annotate web_service web_export" and ?st0 = "start_site empty_registry empty_registry"
  obtain stE where stE: "feed_run ?wrE ?E (start_feed empty_registry) = Inr stE"
      "drained stE" "fd_store stE = [''shop/web'' \<mapsto> ?se]"
    by (auto simp: export_post_def slice_feed_defs drained_def annotated_meta)
  obtain stS where stS: "feed_run (?wrS {''shop/web''}) ?S (start_feed empty_registry) = Inr stS"
      "drained stS" "fd_store stS ''shop/web-x7'' = Some web_slice" "fd_notes stS = [Added (Unstructured (Inr web_slice))]"
    by (simp add: slice_post_def slice_feed_defs drained_def web_slice_exported)
  let ?s0 = "?st0\<lparr>em_exports := stE\<rparr>"
  have runE: "site_run ?wrE (?wrS {}) (map OnExports (map Flow ?E)) ?st0 = Inr ?s0"
    by (simp add: site_run_only_exports link_run_flows stE(1) del: map_append list.map map_map append.simps)
  have now: "exports_now ?s0 = {''shop/web''}" by (simp add: exports_now_def stE(3))
  have relinksS: "relinks (at_exports (exports_now ?s0) (?wrS {})) (em_slices ?s0) [] [] slice_post"
    unfolding now by (simp add: relinks_def exports_from_def exports_of_def has_room_def slice_post_def slice_feed_defs web_slice_exported)
  have relinksE: "relinks ?wrE (start_feed empty_registry) [] [] export_post"
    by (simp add: relinks_def exports_from_def exports_of_def has_room_def export_post_def slice_feed_defs)
  have "site_run ?wrE (?wrS {}) web_site ?st0 = Inr (?s0\<lparr>em_slices := stS\<rparr>)"
    unfolding web_site_def site_run_append runE
    by (simp add: site_run_only_slices link_run_flows now stS(1) del: map_append list.map map_map append.simps)
  moreover have "slices_restarted ?wrE (?wrS {}) web_site ?st0"
    unfolding web_site_def by (rule slices_restarted_only [OF runE relinksS])
  moreover have "restarted ?wrE (export_acts web_site) (start_feed empty_registry)"
    unfolding restarted_def
    by (rule exI [of _ "[]"], rule exI [of _ "start_feed empty_registry"], intro exI [of _ "[]"] exI [of _ export_post])
       (simp add: web_site_def relinksE del: map_append list.map map_map)
  ultimately show thesis
    using that stE stS now by (simp add: exports_now_def)
qed

lemma web_slice_wanted:
  "slice_wanted (NewWatcher cl ''r1'' [] []) web_slice = Some (mirror_labels (NewWatcher cl ''r1'' [] []) ''web'', ''IPv4'', Some [], None)"
  using web_slice_facts(1,2) by (simp add: slice_wanted_def web_def) (simp add: web_slice_def)

lemma web_versions: "slice_versions web_site = {web_slice}" "export_versions web_site = {annotate web_service web_export}"
  by (auto simp: slice_versions_def export_versions_def web_site_def export_post_def slice_post_def exports_of_def)

lemma web_slice_sound: "sound_slice (NewWatcher ''b'' ''r1'' [] []) web_slice"
  by (simp add: sound_slice_def web_slice_exported sound_namespace_def name_fits_def NewWatcher_def)

theorem slices_mirrored_witness:
  "case web_wirings site_run web_site (start_site empty_registry empty_registry) of
     Inl p \<Rightarrow> False
   | Inr st \<Rightarrow>
       map_option es_AddressType (v_Slices (snd (run_events (NewWatcher ''b'' ''r1'' [] []) (\<lambda>_. None) from_right
         mem_client sync (map OnSlice (fd_notes (em_slices st))) (None, empty_mem))) (NamespacedName ''shop'' ''r1-web-x7'')) =
       Some ''IPv4''"
proof -
  let ?w = "NewWatcher ''b'' ''r1'' [] []" and ?nn = "NamespacedName ''shop'' ''web-x7''"
  let ?at = "\<lambda>st. v_Slices (snd (run_events ?w (\<lambda>_. None) from_right mem_client sync
      (map OnSlice (fd_notes (em_slices st))) (None, empty_mem))) (mirror_name ?w ?nn)"
  obtain st where st: "web_wirings site_run web_site (start_site empty_registry empty_registry) = Inr st"
      "drained (em_slices st)" "fd_store (em_slices st) ''shop/web-x7'' = Some web_slice" "exports_now st = {''shop/web''}"
      "web_wirings slices_restarted web_site (start_site empty_registry empty_registry)"
    by (rule web_site_run) blast
  have em: "v_Slices empty_mem k = None" for k by (simp add: empty_mem_def)
  have nn: "sound_namespace (Namespace ?nn) \<and> name_fits ?w ?nn"
    by (simp add: sound_namespace_def name_fits_def NewWatcher_def)
  have "\<exists>st. web_wirings site_run web_site (start_site empty_registry empty_registry) = Inr st \<and>
    (drained (em_slices st) \<longrightarrow> (\<forall>nn. sound_namespace (Namespace nn) \<and> name_fits ?w nn \<longrightarrow>
       slice_mirrored (slice_versions web_site) ?w (at_exports (exports_now st) (both_wiring (slice_store {}))) (fd_store (em_slices st)) nn
         (v_Slices (snd (run_events ?w (\<lambda>_. None) from_right mem_client sync
           (map OnSlice (fd_notes (em_slices st))) (None, empty_mem))) (mirror_name ?w nn))))"
    by (rule slices_mirrored [OF mem_synced_cluster _ _ _ _ both_plain _ reg_live_empty reg_live_empty st(5)])
       (simp_all add: from_right_def em web_versions web_slice_sound)
  with st(1,2) nn have "slice_mirrored (slice_versions web_site) ?w (at_exports (exports_now st) (both_wiring (slice_store {})))
      (fd_store (em_slices st)) ?nn (?at st)"
    by auto
  then have "map_option slice_view (?at st) = Some (mirror_labels ?w ''web'', ''IPv4'', Some [], None)"
    using st(3,4) by (simp add: slice_mirrored_def nn_String_def selects_def options_select_def web_slice_exported web_slice_wanted)
  moreover have "mirror_name ?w ?nn = NamespacedName ''shop'' ''r1-web-x7''"
    by (simp add: mirror_name_def localEndpointSliceName_def NewWatcher_def)
  ultimately show ?thesis using st(1) by (auto simp: slice_view_def)
qed

text \<open>C6. A watcher with both its informers, and one emitter with both its stores. Let the emitter of A store,
  delete and deliver exports and slices, and let the two clients of a watcher of B list, watch and be
  cut off in any order, until both have last listed and watched under the conditions of
  \<open>slices_mirrored\<close> and nothing is on its way; and let the handlers of B have been told everything, in any
  interleaving of the two. Then the ServiceImports of B are the mirror of the exports of A that the
  watcher selects, and, for slices whose name fits, the slices of B under the names of mirrors are the
  mirror of the slices of A that it selects and whose Service is among those very exports of A.\<close>

theorem watcher_mirrors_cluster:
  assumes B: "synced_cluster c ex ex' sv sv' im im' sl sl' up settle"
    and s: "up s" "im' s = im s" "sl' s = sl s" "im s = Map.empty" "\<And>nn. sl s (mirror_name w nn) = None"
    and wr: "export_wiring wrE" "slice_wiring exports wrS"
    and decodeE: "\<And>se. fromSE (wr_encode wrE (ItemExport se)) = Some se"
    and decodeS: "\<And>es. fromES (wr_encode wrS (ItemSlice es)) = Some es"
    and live: "reg_live rE" "reg_live rS"
    and run: "site_run wrE wrS acts (start_site rE rS) = Inr st"
    and restarted: "restarted wrE (export_acts acts) (start_feed rE)" "slices_restarted wrE wrS acts (start_site rE rS)"
    and sound: "\<forall>se \<in> export_versions acts. sound_export se" "\<forall>es \<in> slice_versions acts. sound_slice w es"
    and drained: "drained (em_exports st)" "drained (em_slices st)"
    and evs: "export_notes evs = fd_notes (em_exports st)" "slice_notes evs = fd_notes (em_slices st)"
    and s1: "s1 = snd (run_events w fromSE fromES c settle evs (cd, s))"
    and nn: "sound_namespace (Namespace nn)"
  shows "mirrored (export_versions acts) wrE (fd_store (em_exports st)) nn (im s1 nn) \<and>
    (name_fits w nn \<longrightarrow>
      slice_mirrored (slice_versions acts) w (at_exports (dom (fd_store (em_exports st))) wrS) (fd_store (em_slices st)) nn
        (sl s1 (mirror_name w nn)))"
proof -
  let ?m = "mirror_view (im s) (sl s)"
  note E = feed_consumer_exports [OF wr(1) decodeE, where w = w and V = "export_versions acts"]
  have empty: "import_at ?m k = None" "slice_at w ?m k = None" for k
    by (simp_all add: import_at_def slice_at_def mirror_view_def s(4,5))
  note view = events_view [OF B s(1-3) s1, unfolded evs]
  have runE: "link_run wrE (export_acts acts) (start_feed rE) = Inr (em_exports st)"
    using site_run_exports [OF run] by simp
  have soundE: "\<forall>se \<in> exports_of (flows (export_acts acts)). sound_export se \<and> se \<in> export_versions acts"
    using sound(1) by (simp add: export_versions_def)
  have "mirrored (export_versions acts) wrE (fd_store (em_exports st)) nn (im s1 nn)"
    by (rule agrees_mirrored [OF export_consumer.agrees_view
          [OF feed_consumer.restarted_agrees [OF E live(1) empty(1) restarted(1) runE drained(1) soundE] view(1)]
          decode_item [OF wr(1) decodeE] nn])
  moreover have "slices_caught_up w wrE wrS acts st"
    using sound(2) live restarted(2) run drained(2) unfolding slices_caught_up_def by blast
  from caught_up_slice_mirrored [OF wr decodeS this empty(2) view(2) nn]
  have "name_fits w nn \<longrightarrow> slice_mirrored (slice_versions acts) w (at_exports (dom (fd_store (em_exports st))) wrS)
      (fd_store (em_slices st)) nn (sl s1 (mirror_name w nn))"
    by (simp add: exports_now_def)
  ultimately show ?thesis by blast
qed

theorem watcher_mirrors_cluster_witness:
  "case web_wirings site_run web_site (start_site empty_registry empty_registry) of
     Inl p \<Rightarrow> False
   | Inr st \<Rightarrow>
       (let s1 = snd (run_events (NewWatcher ''b'' ''r1'' [] []) from_left from_right mem_client sync
            (map OnSlice (fd_notes (em_slices st)) @ map OnExport (fd_notes (em_exports st))) (None, empty_mem))
        in map_option import_view (v_Imports s1 web) = Some (spec_of_service web_service) \<and>
           map_option es_AddressType (v_Slices s1 (NamespacedName ''shop'' ''r1-web-x7'')) = Some ''IPv4'')"
proof -
  let ?w = "NewWatcher ''b'' ''r1'' [] []" and ?se = "annotate web_service web_export"
  let ?wrE = "both_wiring export_store" and ?wrS = "both_wiring (slice_store {})" and ?nn = "NamespacedName ''shop'' ''web-x7''"
  obtain st where st: "web_wirings site_run web_site (start_site empty_registry empty_registry) = Inr st"
      "drained (em_exports st)" "fd_store (em_exports st) ''shop/web'' = Some ?se"
      "drained (em_slices st)" "fd_store (em_slices st) ''shop/web-x7'' = Some web_slice" "exports_now st = {''shop/web''}"
      "web_wirings slices_restarted web_site (start_site empty_registry empty_registry)"
      "restarted ?wrE (export_acts web_site) (start_feed empty_registry)"
    by (rule web_site_run) blast
  have em: "v_Slices empty_mem k = None" "v_Imports empty_mem = Map.empty" for k by (simp_all add: empty_mem_def)
  have sound: "sound_export ?se" by (simp add: sound_export_def sound_namespace_def annotated_meta)
  let ?evs = "map OnSlice (fd_notes (em_slices st)) @ map OnExport (fd_notes (em_exports st))"
  let ?s1 = "snd (run_events ?w from_left from_right mem_client sync ?evs (None, empty_mem))"
  have mirror: "mirrored (export_versions web_site) ?wrE (fd_store (em_exports st)) nn (v_Imports ?s1 nn) \<and>
      (name_fits ?w nn \<longrightarrow> slice_mirrored (slice_versions web_site) ?w (at_exports (dom (fd_store (em_exports st))) ?wrS)
        (fd_store (em_slices st)) nn (v_Slices ?s1 (mirror_name ?w nn)))" if "sound_namespace (Namespace nn)" for nn
    by (rule watcher_mirrors_cluster [OF mem_synced_cluster _ _ _ _ _ both_plain _ _ reg_live_empty reg_live_empty st(1,8,7) _ _ st(2,4)
          _ _ refl that])
       (simp_all add: em from_left_def from_right_def web_versions web_slice_sound sound)
  have nn: "sound_namespace (Namespace web)" "sound_namespace (Namespace ?nn)" "name_fits ?w ?nn"
    by (simp_all add: web_def sound_namespace_def name_fits_def NewWatcher_def)
  have "map_option import_view (v_Imports ?s1 web) = Some (spec_of_service web_service)"
    using mirror [OF nn(1)] st(3) by (simp add: mirrored_def nn_String_def web_def selects_def options_select_def extract_annotate)
  moreover have "map_option slice_view (v_Slices ?s1 (mirror_name ?w ?nn)) = Some (mirror_labels ?w ''web'', ''IPv4'', Some [], None)"
    using mirror [OF nn(2)] nn(3) st(5,6)
    by (simp add: slice_mirrored_def nn_String_def selects_def options_select_def web_slice_exported web_slice_wanted exports_now_def)
  moreover have "mirror_name ?w ?nn = NamespacedName ''shop'' ''r1-web-x7''"
    by (simp add: mirror_name_def localEndpointSliceName_def NewWatcher_def)
  ultimately show ?thesis using st(1) by (auto simp: slice_view_def Let_def)
qed

end
