(* ===== verification/Detection.thy ===== *)
theory Detection
  imports Reconnect
begin

text \<open>
  The conflict detector (\<open>pkg/controller/conflict_detector.go\<close>) at the end of the path of
  \<open>Pipeline\<close>: one watcher per remote cluster, each behind the informer of its own emitter, all
  telling one detector. The handlers of different watchers interleave in any order; what a
  notification does to the table of the detector is a consumer of the informer in the sense of
  \<open>Informer\<close>, so the table follows the indexers, and where these converge so does the verdict.
\<close>

section \<open>What a notification tells the detector\<close>

definition told ::
  "string \<Rightarrow> ('u \<Rightarrow> service_export option) \<Rightarrow> 'u informer_obj notification \<Rightarrow> detector \<Rightarrow> detector" where
  "told cl fromSE n cd =
     (case n of
        Added obj \<Rightarrow>
          (case toServiceExport fromSE obj of None \<Rightarrow> cd | Some se \<Rightarrow> RecordRemote (se_key se) cl se cd)
      | Updated _ obj \<Rightarrow>
          (case toServiceExport fromSE obj of None \<Rightarrow> cd | Some se \<Rightarrow> RecordRemote (se_key se) cl se cd)
      | Deleted obj \<Rightarrow>
          (case deleted_obj (toServiceExport fromSE) obj of
             None \<Rightarrow> cd | Some se \<Rightarrow> ForgetRemote (se_key se) cl cd))"

lemma dispatch_detector:
  "fst (dispatch w fromSE fromES c (OnExport n) (cd, s)) = map_option (told (w_remoteID w) fromSE n) cd"
  "fst (dispatch w fromSE fromES c (OnSlice n) (cd, s)) = cd"
  by (cases n; cases cd; simp add: dispatch_def told_def onServiceExportAdd_def onServiceExportDelete_def
      split_beta Let_def split: option.split)
    (cases n, simp_all add: dispatch_def)

text \<open>The entries of one cluster in the table, read by the key of the informer.\<close>

definition remote_at :: "string \<Rightarrow> detector \<Rightarrow> string \<Rightarrow> string option" where
  "remote_at cl cd k = remote_view cd (split_key k, cl)"

definition summarized :: "('u \<Rightarrow> service_export option) \<Rightarrow> 'u \<Rightarrow> string option" where
  "summarized fromSE u = map_option (\<lambda>se. specSummary (Some se)) (fromSE u)"

lemma told_inv: "cd_inv cd \<Longrightarrow> cd_inv (told cl fromSE n cd)"
  by (auto simp: told_def cd_inv_RecordRemote cd_inv_ForgetRemote split: notification.split option.split)

text \<open>A notification of one cluster leaves the entries of the others, and what it makes of its own
  depends on them alone.\<close>

lemma told_other: "cl' \<noteq> cl \<Longrightarrow> remote_view (told cl fromSE n cd) (nn, cl') = remote_view cd (nn, cl')"
  by (auto simp: told_def remote_view_RecordRemote remote_view_ForgetRemote
      split: notification.split option.split)

lemma told_own:
  assumes "\<And>nn. remote_view cd (nn, cl) = remote_view cd' (nn, cl)"
  shows "remote_view (told cl fromSE n cd) (nn, cl) = remote_view (told cl fromSE n cd') (nn, cl)"
  using assms by (auto simp: told_def remote_view_RecordRemote remote_view_ForgetRemote
      split: notification.split option.split)

text \<open>The detector is a consumer: it wants the summary of every export, also of one whose metadata
  cannot be read.\<close>

interpretation detector_consumer: informer_consumer key "decodes_to UNIV key fromSE" "summarized fromSE"
  "told cl fromSE" "remote_at cl"
proof unfold_locales
  fix u :: 'a and s :: detector and k and old :: "'a informer_obj" and j :: string
  assume "decodes_to UNIV key fromSE u"
  then obtain se where u: "fromSE u = Some se" "key u = se_name se" "sound_export se"
    by (auto simp: decodes_to_def split: option.splits)
  note defs = told_def remote_at_def summarized_def toServiceExport_def deleted_obj_def u(1,2)
    remote_view_RecordRemote remote_view_ForgetRemote split_key_inj [OF u(3)]
  show "remote_at cl (told cl fromSE (Added (Unstructured u)) s) k =
      (if k = key u \<and> summarized fromSE u \<noteq> None then summarized fromSE u else remote_at cl s k)"
    "remote_at cl (told cl fromSE (Updated old (Unstructured u)) s) k =
      (if k = key u \<and> summarized fromSE u \<noteq> None then summarized fromSE u else remote_at cl s k)"
    "remote_at cl (told cl fromSE (Deleted (Unstructured u)) s) k =
      (if k = key u then None else remote_at cl s k)"
    "remote_at cl (told cl fromSE (Deleted (DeletedFinalStateUnknown j (Unstructured u))) s) k =
      (if k = key u then None else remote_at cl s k)"
    by (simp_all add: defs)
qed

text \<open>Exports as the API server admits them: the namespace is a DNS label, the annotations are
  valid UTF-8.\<close>

definition admitted :: "service_export \<Rightarrow> bool" where
  "admitted se = (sound_export se \<and> summary_valid se)"

lemma feed_consumer_detector:
  assumes "export_wiring wr" "\<And>se. fromSE (wr_encode wr (ItemExport se)) = Some se"
  shows "feed_consumer wr (decodes_to UNIV (wr_key wr) fromSE) (summarized fromSE) (told cl fromSE)
    (remote_at cl) admitted"
  using export_feed [OF assms(1)] feed_libs.encoded_key [OF conjunct1 [OF assms(1)]] assms
  by (intro feed_consumer.intro feed_consumer_axioms.intro detector_consumer.informer_consumer_axioms)
     (auto simp: decodes_to_def admitted_def)

interpretation plain_detection: feed_consumer "plain_wiring opts ns" "decodes_to UNIV se_name Some"
  "summarized Some" "told cl Some" "remote_at cl" admitted
  using feed_consumer_detector [OF export_plain, of Some] by simp

section \<open>A cluster whose informer has caught up\<close>

text \<open>What the emitter holds and its client selects under a name.\<close>

definition offers :: "(service_export, 'u) wiring \<Rightarrow> (service_export, 'u) feed \<Rightarrow> namespaced_name \<Rightarrow> service_export option" where
  "offers wr st nn =
     (case fd_store st (nn_String nn) of
        None \<Rightarrow> None | Some se \<Rightarrow> if selects wr se then Some se else None)"

text \<open>Then the entries of the cluster are the summaries of what it offers.\<close>

lemma caught_up_detector:
  assumes wr: "export_wiring wr" and decode: "\<And>se. fromSE (wr_encode wr (ItemExport se)) = Some se"
    and st: "caught_up admitted wr st"
    and empty: "\<And>nn. remote_view cd (nn, cl) = None"
    and nn: "sound_namespace (Namespace nn)"
  shows "remote_view (fold (told cl fromSE) (fd_notes st) cd) (nn, cl) =
      map_option (\<lambda>se. specSummary (Some se)) (offers wr st nn)"
    and "offers wr st nn = Some se \<Longrightarrow> admitted se"
proof -
  note F = feed_consumer_detector [OF wr decode, where cl = cl]
  have view: "remote_at cl cd k = None" for k by (simp add: remote_at_def empty)
  note carries = feed_consumer.caught_up_carries [OF F st view]
  note agree = conjunct2 [OF carries]
  have stored: "\<forall>se \<in> ran (fd_store st). admitted se"
    using carries by (simp add: feed_consumer.carries_def [OF F])
  have "remote_view (fold (told cl fromSE) (fd_notes st) cd) (nn, cl) =
      remote_at cl (fold (told cl fromSE) (fd_notes st) cd) (nn_String nn)"
    by (simp add: remote_at_def split_key_String [OF nn])
  also have "\<dots> = map_option (\<lambda>se. specSummary (Some se)) (offers wr st nn)"
    using detector_consumer.agreesD [OF agree, of "nn_String nn"] decode_item [OF wr decode]
    by (auto simp: offers_def expected_def summarized_def split: option.splits if_splits)
  finally show "remote_view (fold (told cl fromSE) (fd_notes st) cd) (nn, cl) =
      map_option (\<lambda>se. specSummary (Some se)) (offers wr st nn)" .
  show "offers wr st nn = Some se \<Longrightarrow> admitted se"
    using stored by (auto simp: offers_def ran_def split: option.splits if_splits)
qed

section \<open>Several watchers, one detector\<close>

text \<open>The handlers of all watchers, in the order in which they run.\<close>

fun run_fleet ::
  "('u \<Rightarrow> service_export option) \<Rightarrow> ('u \<Rightarrow> endpoint_slice option) \<Rightarrow> 'st client \<Rightarrow> ('st \<Rightarrow> 'st) \<Rightarrow>
   (watcher \<times> 'u informer_obj watch_event) list \<Rightarrow> detector option \<times> 'st \<Rightarrow> detector option \<times> 'st" where
  "run_fleet fromSE fromES c settle [] st = st"
| "run_fleet fromSE fromES c settle ((w, ev) # evs) st =
     (case dispatch w fromSE fromES c ev st of
        (cd, s) \<Rightarrow> run_fleet fromSE fromES c settle evs (cd, settle s))"

text \<open>The notifications about exports that the watcher of one cluster was called with.\<close>

fun notes_of :: "string \<Rightarrow> (watcher \<times> 'u informer_obj watch_event) list \<Rightarrow> 'u informer_obj notification list" where
  "notes_of cl [] = []"
| "notes_of cl ((w, ev) # evs) =
     (case ev of
        OnExport n \<Rightarrow> (if w_remoteID w = cl then n # notes_of cl evs else notes_of cl evs)
      | OnSlice _ \<Rightarrow> notes_of cl evs)"

lemma fleet_detector:
  assumes "cd_inv cd" "\<And>nn. remote_view cd (nn, cl) = remote_view cd' (nn, cl)"
  shows "\<exists>cd1. fst (run_fleet fromSE fromES c settle evs (Some cd, s)) = Some cd1 \<and> cd_inv cd1 \<and>
    (\<forall>nn. remote_view cd1 (nn, cl) = remote_view (fold (told cl fromSE) (notes_of cl evs) cd') (nn, cl))"
  using assms
proof (induction evs arbitrary: cd cd' s)
  case (Cons e evs)
  obtain w ev where e: "e = (w, ev)" by (cases e)
  show ?case
  proof (cases ev)
    case (OnExport n)
    obtain s1 where d: "dispatch w fromSE fromES c ev (Some cd, s) = (Some (told (w_remoteID w) fromSE n cd), s1)"
      using dispatch_detector(1) [of w fromSE fromES c n "Some cd" s] OnExport by (metis option.map(2) prod.collapse)
    let ?cd1 = "told (w_remoteID w) fromSE n cd"
    have "remote_view ?cd1 (nn, cl) =
        remote_view (if w_remoteID w = cl then told cl fromSE n cd' else cd') (nn, cl)" for nn
      using told_own [of cd cl cd' fromSE n] told_other [of cl "w_remoteID w" fromSE n cd nn] Cons.prems(2)
      by auto
    from Cons.IH [OF told_inv [OF Cons.prems(1)] this, of "settle s1"] show ?thesis
      by (simp add: e d) (simp add: OnExport split: if_splits)
  next
    case (OnSlice n)
    obtain s1 where d: "dispatch w fromSE fromES c ev (Some cd, s) = (Some cd, s1)"
      using dispatch_detector(2) [of w fromSE fromES c n "Some cd" s] OnSlice by (metis prod.collapse)
    from Cons.IH [OF Cons.prems, of "settle s1"] show ?thesis
      by (simp add: e d) (simp add: OnSlice)
  qed
qed auto

lemma notes_of_none: "(\<And>w ev. (w, ev) \<in> set evs \<Longrightarrow> w_remoteID w \<noteq> cl) \<Longrightarrow> notes_of cl evs = []"
  by (induction cl evs rule: notes_of.induct) (simp_all split: watch_event.split, blast+)

text \<open>A client that watches, and an export that comes after.\<close>

lemma caught_up_one:
  assumes "se_name se = ''shop/web''" "admitted se"
  shows "\<exists>st. caught_up admitted (plain_wiring None []) st \<and> fd_notes st = [Added (Unstructured se)] \<and>
    offers (plain_wiring None []) st web = Some se"
proof -
  let ?wr = "plain_wiring None []" and ?post = "[Upsert se, Notify, Receive, PopDelta False]"
  obtain st where st: "feed_run ?wr ([] @ DoList # [] @ DoWatch # ?post) (start_feed empty_registry) = Inr st"
      "drained st" "fd_notes st = [Added (Unstructured se)]" "offers ?wr st web = Some se"
    using assms(1) by (simp add: feed_defs drained_def offers_def selects_def options_select_def nn_String_def web_def)
  have "caught_up admitted ?wr st"
    by (rule caught_up_fresh [OF reg_live_empty _ _ st(1,2)])
       (use assms in \<open>simp_all add: relinks_def exports_from_def exports_of_def has_room_def feed_defs\<close>)
  with st(3,4) show ?thesis by blast
qed

section \<open>Properties\<close>

text \<open>C14. Exports of several clusters reach the conflict detector of another. Each watcher of \<open>ws\<close>
  follows one emitter; the handlers of all of them run interleaved in any order, mixed with their
  handling of slices, whatever the API server answers. Once each has been called with all the
  notifications of an informer that has caught up, a conflict is reported for a local export exactly
  when some emitter holds an export of the same name that its watcher selects and whose annotations
  differ in type or ports, in whatever order Go walks the table.\<close>

theorem fleet_verdict_exact:
  assumes ws: "\<And>w. w \<in> ws \<Longrightarrow> export_wiring (wr w) \<and> caught_up admitted (wr w) (st w)"
    and decode: "\<And>w se. w \<in> ws \<Longrightarrow> fromSE (wr_encode (wr w) (ItemExport se)) = Some se"
    and calls: "\<And>w. w \<in> ws \<Longrightarrow> notes_of (w_remoteID w) evs = fd_notes (st w)"
    and others: "\<And>w ev. (w, ev) \<in> set evs \<Longrightarrow> w \<in> ws"
    and start: "cd_inv cd" "remote_view cd = Map.empty"
    and nn: "sound_namespace (Namespace nn)" and loc: "summary_valid se" and order: "range_order order"
  shows "\<exists>cd1. fst (run_fleet fromSE fromES c settle evs (Some cd, s)) = Some cd1 \<and>
    (fst (detectConflict order cd1 nn se) \<longleftrightarrow>
      (\<exists>w \<in> ws. \<exists>se'. offers (wr w) (st w) nn = Some se' \<and> summary_key se' \<noteq> summary_key se))"
proof -
  let ?run = "fst (run_fleet fromSE fromES c settle evs (Some cd, s))"
  have fleet: "\<exists>cd1. ?run = Some cd1 \<and> cd_inv cd1 \<and>
      (\<forall>nn. remote_view cd1 (nn, cl) = remote_view (fold (told cl fromSE) (notes_of cl evs) cd) (nn, cl))" for cl
    by (rule fleet_detector [OF start(1) refl])
  then obtain cd1 where cd1: "?run = Some cd1" "cd_inv cd1" by blast
  have view: "remote_view cd1 (nn, cl) = remote_view (fold (told cl fromSE) (notes_of cl evs) cd) (nn, cl)" for cl
    using fleet [of cl] cd1(1) by auto
  have known: "remote_view cd1 (nn, w_remoteID w) =
      map_option (\<lambda>se. specSummary (Some se)) (offers (wr w) (st w) nn)" if "w \<in> ws" for w
    unfolding view calls [OF that] using ws [OF that] decode [OF that] start(2) nn
    by (intro caught_up_detector(1)) auto
  have unknown: "remote_view cd1 (nn, cl) = None" if "\<And>w. w \<in> ws \<Longrightarrow> w_remoteID w \<noteq> cl" for cl
    unfolding view using notes_of_none [of evs cl] that others start(2) by simp
  have valid: "summary_valid se'" if "w \<in> ws" "offers (wr w) (st w) nn = Some se'" for w se'
    using caught_up_detector(2) [OF _ decode [OF that(1)] _ _ nn that(2), of NewConflictDetector]
      ws [OF that(1)] by (simp add: admitted_def)
  have "(\<exists>cl v. remote_view cd1 (nn, cl) = Some v \<and> v \<noteq> specSummary (Some se)) \<longleftrightarrow>
      (\<exists>w \<in> ws. \<exists>se'. offers (wr w) (st w) nn = Some se' \<and> summary_key se' \<noteq> summary_key se)" (is "?L = ?R")
  proof
    assume ?L
    then obtain cl v where v: "remote_view cd1 (nn, cl) = Some v" "v \<noteq> specSummary (Some se)" by blast
    then obtain w where w: "w \<in> ws" "w_remoteID w = cl" using unknown [of cl] by auto
    then obtain se' where "offers (wr w) (st w) nn = Some se'" "v = specSummary (Some se')"
      using known v(1) by auto
    then show ?R using w(1) v(2) specSummary_eq_iff [OF valid loc] by blast
  next
    assume ?R
    then show ?L using known specSummary_eq_iff [OF valid loc] by fastforce
  qed
  with cd1 detectConflict_verdict [OF cd1(2) order] show ?thesis by simp
qed

theorem fleet_verdict_exact_witness:
  "let b = with_annotations [AnnotationServiceType \<mapsto> ''ClusterSetIP''] web_export;
       c = with_annotations [AnnotationServiceType \<mapsto> ''Headless''] web_export
   in map_option (\<lambda>cd. fst (detectConflict rev cd web b))
        (fst (run_fleet Some (\<lambda>_. None) mem_client sync
           [(NewWatcher ''a'' ''b'' [] [], OnExport (Added (Unstructured b))),
            (NewWatcher ''a'' ''c'' [] [], OnExport (Added (Unstructured c)))]
           (Some NewConflictDetector, empty_mem))) = Some True"
proof -
  let ?b = "with_annotations [AnnotationServiceType \<mapsto> ''ClusterSetIP''] web_export"
  let ?c = "with_annotations [AnnotationServiceType \<mapsto> ''Headless''] web_export"
  let ?wb = "NewWatcher ''a'' ''b'' [] []" and ?wc = "NewWatcher ''a'' ''c'' [] []"
  have k: "summary_key ?b = Some (''ClusterSetIP'', [])" "summary_key ?c = Some (''Headless'', [])"
    by (simp_all add: summary_key_def with_annotations_def get0_def)
  have v: "summary_valid ?b" "summary_valid ?c"
    by (simp_all add: summary_valid_def k ascii_valid_utf8 ascii_def byte_def)
  have adm: "admitted ?b" "admitted ?c"
    by (simp_all add: admitted_def v)
       (simp_all add: sound_export_def sound_namespace_def with_annotations_def web_export_def web_meta_def)
  have name: "se_name ?b = ''shop/web''" "se_name ?c = ''shop/web''"
    by (simp_all add: se_name_def meta_key_def with_annotations_def web_export_def web_meta_def)
  obtain stb stc where st: "caught_up admitted (plain_wiring None []) stb" "fd_notes stb = [Added (Unstructured ?b)]"
      "caught_up admitted (plain_wiring None []) stc" "fd_notes stc = [Added (Unstructured ?c)]"
      "offers (plain_wiring None []) stc web = Some ?c"
    using caught_up_one [OF name(1) adm(1)] caught_up_one [OF name(2) adm(2)] by blast
  have id: "w_remoteID ?wb = ''b''" "w_remoteID ?wc = ''c''" by (simp_all add: NewWatcher_def)
  have "\<exists>cd1. fst (run_fleet Some (\<lambda>_. None) mem_client sync
      [(?wb, OnExport (Added (Unstructured ?b))), (?wc, OnExport (Added (Unstructured ?c)))]
      (Some NewConflictDetector, empty_mem)) = Some cd1 \<and>
    (fst (detectConflict rev cd1 web ?b) \<longleftrightarrow>
      (\<exists>w \<in> {?wb, ?wc}. \<exists>se'. offers (plain_wiring None []) (if w_remoteID w = ''b'' then stb else stc) web =
         Some se' \<and> summary_key se' \<noteq> summary_key ?b))"
    by (rule fleet_verdict_exact [where wr = "\<lambda>_. plain_wiring None []"])
       (use st v in \<open>auto simp: export_plain id sound_namespace_def web_def\<close>)
  then show ?thesis using st(5) k by (auto simp: id Let_def)
qed

end
