(* ===== verification/Conflict_System.thy ===== *)
theory Conflict_System
  imports Conflict_Loop
begin

text \<open>
  The conflict detector among everything else that happens in its cluster. Two goroutines run its
  \<open>Reconcile\<close> (\<open>pkg/controller/conflict_detector.go\<close>): the worker of the controller that \<open>SetupWithManager\<close>
  builds, with the requests that changes of ServiceExports cause, and the loop of \<open>Start\<close> with the keys
  that the watchers queue. Here a \<open>Reconcile\<close> is not one step: the read of the export, the look into the
  table and the status patch are steps of their own, and between them anybody may write to the API,
  the cache may catch up, and the watchers may record and forget. The invariant says which service may
  have a condition that is out of date: one that somebody still has to look at.
\<close>

section \<open>A \<open>Reconcile\<close> in stages\<close>

datatype reconcile_stage =
  Idle
| Taken namespaced_name
| Got namespaced_name service_export
| Judged namespaced_name service_export bool string string

text \<open>One stage; when it is the last one, the key and the error come back.\<close>

definition advance ::
  "nat \<Rightarrow> ((string \<times> string) list \<Rightarrow> (string \<times> string) list) \<Rightarrow> 'st client \<Rightarrow> detector \<Rightarrow>
   reconcile_stage \<Rightarrow> 'st \<Rightarrow> (reconcile_stage \<times> (namespaced_name \<times> go_error option) option) \<times> 'st" where
  "advance now order c cd stage s =
     (case stage of
        Idle \<Rightarrow> ((Idle, None), s)
      | Taken nn \<Rightarrow>
          (case cl_Get (cl_Exports c) nn s of
             (Inl err, s1) \<Rightarrow> ((Idle, Some (nn, ignoreNotFound err)), s1)
           | (Inr se, s1) \<Rightarrow> ((Got nn se, None), s1))
      | Got nn se \<Rightarrow>
          (case detectConflict order cd nn se of
             (conflict, reason, msg) \<Rightarrow> ((Judged nn se conflict reason msg, None), s))
      | Judged nn se conflict reason msg \<Rightarrow>
          (case updateConflictCondition now c se conflict reason msg s of
             (err, s1) \<Rightarrow> ((Idle, Some (nn, err)), s1)))"

definition at_key :: "reconcile_stage \<Rightarrow> namespaced_name \<Rightarrow> bool" where
  "at_key stage nn =
     (case stage of Idle \<Rightarrow> False | Taken k \<Rightarrow> k = nn | Got k _ \<Rightarrow> k = nn | Judged k _ _ _ _ \<Rightarrow> k = nn)"

text \<open>Without interruption the stages are \<open>Reconcile\<close>.\<close>

fun advances ::
  "nat \<Rightarrow> nat \<Rightarrow> ((string \<times> string) list \<Rightarrow> (string \<times> string) list) \<Rightarrow> 'st client \<Rightarrow> detector \<Rightarrow>
   reconcile_stage \<Rightarrow> 'st \<Rightarrow> (reconcile_stage \<times> (namespaced_name \<times> go_error option) option) \<times> 'st" where
  "advances 0 now order c cd stage s = ((stage, None), s)"
| "advances (Suc n) now order c cd stage s =
     (case advance now order c cd stage s of
        ((stage1, None), s1) \<Rightarrow> advances n now order c cd stage1 s1
      | ((stage1, Some res), s1) \<Rightarrow> ((stage1, Some res), s1))"

lemma advances_cdReconcile:
  "advances 3 now order c cd (Taken nn) s =
     (case cdReconcile now order c cd nn s of (err, s1) \<Rightarrow> ((Idle, Some (nn, err)), s1))"
  by (simp add: numeral_3_eq_3 advance_def cdReconcile_def split: prod.split sum.split)

section \<open>The system\<close>

record 'st conflict_system =
  cs_cd :: detector
  cs_st :: 'st
  cs_ctl :: reconcile_stage
  cs_loop :: reconcile_stage
  cs_requests :: "namespaced_name set"
  cs_lag :: "namespaced_name set"
  cs_failed :: "namespaced_name set"

text \<open>\<open>cs_requests\<close> is the queue of the controller, \<open>cs_lag\<close> holds the exports that were written since the
  cache was told about them. The controller keeps a request whose reconcile failed; the loop drops the
  key (\<open>failed_reconcile_not_retried\<close>), which \<open>cs_failed\<close> records until something asks for it again.\<close>

definition moved :: "('st \<Rightarrow> namespaced_name \<rightharpoonup> 'o) \<Rightarrow> 'st \<Rightarrow> 'st \<Rightarrow> namespaced_name set" where
  "moved view s s1 = {k. view s1 k \<noteq> view s k}"

definition failing :: "(namespaced_name \<times> go_error option) option \<Rightarrow> namespaced_name set" where
  "failing res = (case res of Some (nn, Some err) \<Rightarrow> {nn} | _ \<Rightarrow> {})"

definition ctl_step ::
  "('st \<Rightarrow> namespaced_name \<rightharpoonup> service_export) \<Rightarrow> nat \<Rightarrow> ((string \<times> string) list \<Rightarrow> (string \<times> string) list) \<Rightarrow>
   'st client \<Rightarrow> 'st conflict_system \<Rightarrow> 'st conflict_system" where
  "ctl_step ex now order c e =
     (case advance now order c (cs_cd e) (cs_ctl e) (cs_st e) of
        ((stage, res), s1) \<Rightarrow>
          e\<lparr>cs_ctl := stage, cs_st := s1, cs_lag := cs_lag e \<union> moved ex (cs_st e) s1,
            cs_requests := cs_requests e \<union> failing res\<rparr>)"

text \<open>The loop marks the key as done when its reconcile ends, whatever the error.\<close>

definition loop_step ::
  "('st \<Rightarrow> namespaced_name \<rightharpoonup> service_export) \<Rightarrow> nat \<Rightarrow> ((string \<times> string) list \<Rightarrow> (string \<times> string) list) \<Rightarrow>
   'st client \<Rightarrow> 'st conflict_system \<Rightarrow> 'st conflict_system" where
  "loop_step ex now order c e =
     (case advance now order c (cs_cd e) (cs_loop e) (cs_st e) of
        ((stage, res), s1) \<Rightarrow>
          e\<lparr>cs_loop := stage, cs_st := s1, cs_lag := cs_lag e \<union> moved ex (cs_st e) s1,
            cs_failed := cs_failed e \<union> failing res,
            cs_cd := (case res of
               None \<Rightarrow> cs_cd e
             | Some (nn, _) \<Rightarrow> (cs_cd e)\<lparr>cd_queue := map_option (wq_Done nn) (cd_queue (cs_cd e))\<rparr>)\<rparr>)"

fun event_key :: "remote_event \<Rightarrow> namespaced_name" where
  "event_key (Recorded nn _ _) = nn"
| "event_key (Forgotten nn _) = nn"

text \<open>The states the system can be in after the watchers have recorded and forgotten \<open>evs\<close>. The manager
  starts the controllers when their caches are filled, and every export makes a request then. \<open>told\<close>: a
  watcher has run \<open>RecordRemote\<close> or \<open>ForgetRemote\<close> to its end, the \<open>Add\<close> after the unlock included. \<open>clients\<close>: any
  client writes anything, also a handler of a watcher or the validator between two of its calls.
  \<open>informer\<close>: the cache learns of a written export, maybe of a version that is no longer the newest.\<close>

inductive conflict_run ::
  "'st client \<Rightarrow> ('st \<Rightarrow> namespaced_name \<rightharpoonup> service_export) \<Rightarrow> ('st \<Rightarrow> namespaced_name \<rightharpoonup> service_export) \<Rightarrow>
   remote_event list \<Rightarrow> 'st conflict_system \<Rightarrow> bool"
  for c :: "'st client" and ex ex' :: "'st \<Rightarrow> namespaced_name \<rightharpoonup> service_export"
where
  start: "ex' s = ex s \<Longrightarrow>
    conflict_run c ex ex' []
      \<lparr>cs_cd = snd (cdSetupWithManager None None NewConflictDetector), cs_st = s, cs_ctl = Idle,
       cs_loop = Idle, cs_requests = dom (ex s), cs_lag = {}, cs_failed = {}\<rparr>"
| clients: "conflict_run c ex ex' evs e \<Longrightarrow> ex' s1 = ex' (cs_st e) \<Longrightarrow>
    conflict_run c ex ex' evs (e\<lparr>cs_st := s1, cs_lag := cs_lag e \<union> moved ex (cs_st e) s1\<rparr>)"
| informer: "conflict_run c ex ex' evs e \<Longrightarrow> ex s1 = ex (cs_st e) \<Longrightarrow> moved ex' (cs_st e) s1 \<subseteq> K \<Longrightarrow>
    K \<subseteq> cs_lag e \<Longrightarrow> new \<subseteq> K \<Longrightarrow> (\<And>k. k \<in> new \<Longrightarrow> ex' s1 k = ex s1 k) \<Longrightarrow>
    conflict_run c ex ex' evs (e\<lparr>cs_st := s1, cs_requests := cs_requests e \<union> K, cs_lag := cs_lag e - new,
      cs_failed := cs_failed e - K\<rparr>)"
| told: "conflict_run c ex ex' evs e \<Longrightarrow>
    conflict_run c ex ex' (evs @ [ev]) (e\<lparr>cs_cd := cd_event ev (cs_cd e), cs_failed := cs_failed e - {event_key ev}\<rparr>)"
| ctx_done: "conflict_run c ex ex' evs e \<Longrightarrow>
    conflict_run c ex ex' evs (e\<lparr>cs_cd := apply_event CtxDone (cs_cd e)\<rparr>)"
| ctl_take: "conflict_run c ex ex' evs e \<Longrightarrow> cs_ctl e = Idle \<Longrightarrow> nn \<in> cs_requests e \<Longrightarrow>
    conflict_run c ex ex' evs (e\<lparr>cs_ctl := Taken nn, cs_requests := cs_requests e - {nn}\<rparr>)"
| ctl: "conflict_run c ex ex' evs e \<Longrightarrow> range_order order \<Longrightarrow>
    conflict_run c ex ex' evs (ctl_step ex now order c e)"
| loop_take: "conflict_run c ex ex' evs e \<Longrightarrow> cs_loop e = Idle \<Longrightarrow> cd_queue (cs_cd e) = Some q \<Longrightarrow>
    wq_Get q = (Item nn, q1) \<Longrightarrow>
    conflict_run c ex ex' evs (e\<lparr>cs_cd := (cs_cd e)\<lparr>cd_queue := Some q1\<rparr>, cs_loop := Taken nn\<rparr>)"
| loop: "conflict_run c ex ex' evs e \<Longrightarrow> range_order order \<Longrightarrow>
    conflict_run c ex ex' evs (loop_step ex now order c e)"

section \<open>The invariant\<close>

definition verdict :: "detector \<Rightarrow> namespaced_name \<Rightarrow> service_export \<Rightarrow> bool" where
  "verdict cd nn se = (\<exists>cl v. remote_view cd (nn, cl) = Some v \<and> v \<noteq> specSummary (Some se))"

definition shows_verdict :: "bool \<Rightarrow> service_export \<Rightarrow> bool" where
  "shows_verdict conflict se =
     (case cond_map (se_Conditions se) ServiceExportConditionConflict of
        None \<Rightarrow> False
      | Some cond \<Rightarrow> c_Status cond = (if conflict then ConditionTrue else ConditionFalse))"

text \<open>A reconcile that has read what the cache and the table still hold.\<close>

definition fresh_stage ::
  "(namespaced_name \<rightharpoonup> service_export) \<Rightarrow> detector \<Rightarrow> namespaced_name \<Rightarrow> reconcile_stage \<Rightarrow> bool" where
  "fresh_stage cached cd nn stage =
     (case stage of
        Idle \<Rightarrow> False
      | Taken k \<Rightarrow> k = nn
      | Got k se \<Rightarrow> k = nn \<and> cached nn = Some se
      | Judged k se conflict _ _ \<Rightarrow> k = nn \<and> cached nn = Some se \<and> conflict = verdict cd nn se)"

definition up_to_date :: "(namespaced_name \<rightharpoonup> service_export) \<Rightarrow> detector \<Rightarrow> namespaced_name \<Rightarrow> bool" where
  "up_to_date cached cd nn =
     (case cached nn of None \<Rightarrow> True | Some se \<Rightarrow> shows_verdict (verdict cd nn se) se)"

definition queued_key :: "detector \<Rightarrow> namespaced_name \<Rightarrow> bool" where
  "queued_key cd nn =
     (case cd_queue cd of None \<Rightarrow> False | Some q \<Rightarrow> nn \<in> wq_dirty q \<or> wq_shuttingDown q)"

definition processing :: "detector \<Rightarrow> namespaced_name set" where
  "processing cd = (case cd_queue cd of None \<Rightarrow> {} | Some q \<Rightarrow> wq_processing q)"

definition waiting :: "'st conflict_system \<Rightarrow> namespaced_name \<Rightarrow> bool" where
  "waiting e nn = (nn \<in> cs_requests e \<or> nn \<in> cs_lag e \<or> nn \<in> cs_failed e \<or> queued_key (cs_cd e) nn)"

definition settles :: "('st \<Rightarrow> namespaced_name \<rightharpoonup> service_export) \<Rightarrow> 'st conflict_system \<Rightarrow> namespaced_name \<Rightarrow> bool" where
  "settles ex' e nn =
     (waiting e nn \<or> fresh_stage (ex' (cs_st e)) (cs_cd e) nn (cs_ctl e) \<or>
      fresh_stage (ex' (cs_st e)) (cs_cd e) nn (cs_loop e) \<or> up_to_date (ex' (cs_st e)) (cs_cd e) nn)"

definition system_inv ::
  "('st \<Rightarrow> namespaced_name \<rightharpoonup> service_export) \<Rightarrow> ('st \<Rightarrow> namespaced_name \<rightharpoonup> service_export) \<Rightarrow>
   'st conflict_system \<Rightarrow> bool" where
  "system_inv ex ex' e =
     (cd_inv (cs_cd e) \<and> cd_queue (cs_cd e) \<noteq> None \<and>
      (\<forall>k. at_key (cs_loop e) k \<longrightarrow> k \<in> processing (cs_cd e)) \<and>
      (\<forall>k. k \<notin> cs_lag e \<longrightarrow> ex' (cs_st e) k = ex (cs_st e) k) \<and> (\<forall>nn. settles ex' e nn))"
section \<open>Every step keeps it\<close>

text \<open>What a settled service depends on: where the cache, the table and its queue agree, so does it.\<close>

lemma verdict_view: "(\<And>cl. remote_view cd1 (nn, cl) = remote_view cd (nn, cl)) \<Longrightarrow> verdict cd1 nn = verdict cd nn"
  by (rule ext) (simp add: verdict_def)

lemma fresh_cong:
  assumes "\<And>cl. remote_view cd1 (nn, cl) = remote_view cd (nn, cl)" "cached1 nn = cached nn"
  shows "fresh_stage cached1 cd1 nn = fresh_stage cached cd nn" "up_to_date cached1 cd1 nn = up_to_date cached cd nn"
proof -
  note v = verdict_view [of cd1 nn cd, OF assms(1)]
  show "fresh_stage cached1 cd1 nn = fresh_stage cached cd nn"
    by (rule ext) (simp add: fresh_stage_def v assms(2) split: reconcile_stage.split)
  show "up_to_date cached1 cd1 nn = up_to_date cached cd nn" by (simp add: up_to_date_def v assms(2) split: option.split)
qed

lemma remote_view_queue [simp]: "remote_view (cd\<lparr>cd_queue := q\<rparr>) = remote_view cd"
  by (simp add: remote_view_def)

lemma cd_inv_queue: "cd_inv cd \<Longrightarrow> wq_inv q \<Longrightarrow> cd_inv (cd\<lparr>cd_queue := Some q\<rparr>)"
  by (simp add: cd_inv_def)

text \<open>An event changes the entries of its own service only, and queues it.\<close>

lemma cd_event_queued: "cd_queue cd \<noteq> None \<Longrightarrow> queued_key (cd_event ev cd) (event_key ev)"
  by (cases ev)
     (auto simp: queued_key_def RecordRemote_def ForgetRemote_def cd_enqueue_def wq_Add_def Let_def split: option.split)

lemma cd_event_other:
  assumes "nn \<noteq> event_key ev"
  shows "remote_view (cd_event ev cd) (nn, cl) = remote_view cd (nn, cl)"
  using assms by (cases ev) (simp_all add: remote_view_RecordRemote remote_view_ForgetRemote)

lemma wq_Add_keeps:
  "wq_dirty q \<subseteq> wq_dirty (wq_Add x q)" "wq_shuttingDown (wq_Add x q) = wq_shuttingDown q"
  by (auto simp: wq_Add_def Let_def)

lemma queued_event: "queued_key cd nn \<Longrightarrow> queued_key (cd_event ev cd) nn"
  using wq_Add_keeps
  by (cases ev)
     (fastforce simp: queued_key_def RecordRemote_def ForgetRemote_def cd_enqueue_def Let_def split: option.splits)+

lemma cd_event_queue: "cd_queue cd \<noteq> None \<Longrightarrow> cd_queue (cd_event ev cd) \<noteq> None"
  by (cases ev) (auto simp: RecordRemote_def ForgetRemote_def cd_enqueue_def Let_def split: option.split)

lemma processing_event [simp]: "processing (cd_event ev cd) = processing cd"
  by (cases ev)
     (auto simp: processing_def RecordRemote_def ForgetRemote_def cd_enqueue_def wq_Add_def Let_def split: option.split)

lemma cd_event_cd_inv: "cd_inv cd \<Longrightarrow> cd_inv (cd_event ev cd)"
  by (cases ev) (simp_all add: cd_inv_RecordRemote cd_inv_ForgetRemote)

lemma se_conditions_same: "se\<lparr>se_Conditions := cs\<rparr> = se \<Longrightarrow> cs = se_Conditions se"
  by (cases se) simp

context cluster_api
begin

lemma start_inv:
  assumes "ex' s = ex s"
  shows "system_inv ex ex' \<lparr>cs_cd = snd (cdSetupWithManager None None NewConflictDetector), cs_st = s, cs_ctl = Idle,
       cs_loop = Idle, cs_requests = dom (ex s), cs_lag = {}, cs_failed = {}\<rparr>"
proof -
  have "settles ex' \<lparr>cs_cd = snd (cdSetupWithManager None None NewConflictDetector), cs_st = s, cs_ctl = Idle,
       cs_loop = Idle, cs_requests = dom (ex s), cs_lag = {}, cs_failed = {}\<rparr> nn" for nn
    by (cases "ex s nn") (auto simp: settles_def waiting_def up_to_date_def assms)
  then show ?thesis
    using setup_ready(1) by (auto simp: system_inv_def loop_ready_def at_key_def assms split: option.splits)
qed

lemma clients_inv:
  assumes inv: "system_inv ex ex' e" and s1: "ex' s1 = ex' (cs_st e)"
  shows "system_inv ex ex' (e\<lparr>cs_st := s1, cs_lag := cs_lag e \<union> moved ex (cs_st e) s1\<rparr>)"
  using inv unfolding system_inv_def settles_def waiting_def moved_def
  by (auto simp: s1)

lemma informer_inv:
  assumes inv: "system_inv ex ex' e" and s1: "ex s1 = ex (cs_st e)" "moved ex' (cs_st e) s1 \<subseteq> K" "K \<subseteq> cs_lag e"
    and new: "new \<subseteq> K" "\<And>k. k \<in> new \<Longrightarrow> ex' s1 k = ex s1 k"
  shows "system_inv ex ex' (e\<lparr>cs_st := s1, cs_requests := cs_requests e \<union> K, cs_lag := cs_lag e - new,
      cs_failed := cs_failed e - K\<rparr>)" (is "system_inv ex ex' ?e")
proof -
  have other: "ex' s1 k = ex' (cs_st e) k" if "k \<notin> K" for k using that s1(2) by (auto simp: moved_def)
  have "settles ex' ?e nn" for nn
  proof (cases "nn \<in> K")
    case False
    have "settles ex' e nn" using inv by (simp add: system_inv_def)
    then show ?thesis
      using False new(1) fresh_cong [of "cs_cd e" nn "cs_cd e" "ex' s1" "ex' (cs_st e)", OF refl other [OF False]]
      by (auto simp: settles_def waiting_def)
  qed (simp add: settles_def waiting_def)
  moreover have "ex' s1 k = ex s1 k" if "k \<notin> cs_lag e - new" for k
    using that new s1 other [of k] inv by (cases "k \<in> new") (auto simp: system_inv_def)
  ultimately show ?thesis using inv by (simp add: system_inv_def)
qed

lemma told_event_inv:
  assumes inv: "system_inv ex ex' e"
  shows "system_inv ex ex' (e\<lparr>cs_cd := cd_event ev (cs_cd e), cs_failed := cs_failed e - {event_key ev}\<rparr>)"
    (is "system_inv ex ex' ?e")
proof -
  have q: "cd_queue (cs_cd e) \<noteq> None" using inv by (simp add: system_inv_def)
  have "settles ex' ?e nn" for nn
  proof (cases "nn = event_key ev")
    case True
    then show ?thesis using cd_event_queued [OF q, of ev] by (simp add: settles_def waiting_def)
  next
    case False
    have "settles ex' e nn" using inv by (simp add: system_inv_def)
    then show ?thesis
      using False queued_event [of "cs_cd e" nn ev]
        fresh_cong [of "cd_event ev (cs_cd e)" nn "cs_cd e" "ex' (cs_st e)" "ex' (cs_st e)", OF cd_event_other [OF False] refl]
      by (auto simp: settles_def waiting_def)
  qed
  then show ?thesis using inv cd_event_cd_inv cd_event_queue by (simp add: system_inv_def)
qed

lemma ctx_done_inv:
  assumes inv: "system_inv ex ex' e"
  shows "system_inv ex ex' (e\<lparr>cs_cd := apply_event CtxDone (cs_cd e)\<rparr>)"
proof -
  have "queued_key (apply_event CtxDone (cs_cd e)) nn"
    and "processing (apply_event CtxDone (cs_cd e)) = processing (cs_cd e)" for nn
    using inv by (auto simp: system_inv_def queued_key_def processing_def wq_ShutDown_def)
  then show ?thesis
    using inv apply_event_inv [of "cs_cd e" CtxDone] by (auto simp: system_inv_def settles_def waiting_def)
qed

lemma ctl_take_inv:
  assumes inv: "system_inv ex ex' e" and idle: "cs_ctl e = Idle"
  shows "system_inv ex ex' (e\<lparr>cs_ctl := Taken nn, cs_requests := cs_requests e - {nn}\<rparr>)"
  using inv idle unfolding system_inv_def settles_def waiting_def
  by (auto simp: fresh_stage_def)

lemma loop_take_inv:
  assumes inv: "system_inv ex ex' e" and idle: "cs_loop e = Idle"
    and q: "cd_queue (cs_cd e) = Some q" "wq_Get q = (Item nn, q1)"
  shows "system_inv ex ex' (e\<lparr>cs_cd := (cs_cd e)\<lparr>cd_queue := Some q1\<rparr>, cs_loop := Taken nn\<rparr>)"
    (is "system_inv ex ex' ?e")
proof -
  have q1: "wq_dirty q1 = wq_dirty q - {nn}" "wq_shuttingDown q1 = wq_shuttingDown q" "wq_inv q1" "nn \<in> wq_processing q1"
    using q inv wq_inv_Get [of q] by (auto simp: wq_Get_def system_inv_def cd_inv_def split: list.splits if_splits)
  have "settles ex' ?e k" for k
  proof (cases "k = nn")
    case False
    have "settles ex' e k" using inv by (simp add: system_inv_def)
    then show ?thesis
      using False idle q q1 fresh_cong [of "(cs_cd e)\<lparr>cd_queue := Some q1\<rparr>" k "cs_cd e" "ex' (cs_st e)" "ex' (cs_st e)"]
      by (auto simp: settles_def waiting_def queued_key_def fresh_stage_def)
  qed (simp add: settles_def fresh_stage_def)
  then show ?thesis using inv q1 cd_inv_queue by (simp add: system_inv_def processing_def at_key_def)
qed

text \<open>One stage of a reconcile that has read what cache and table hold: it goes on, or fails, or writes,
  or finds the condition as it should be.\<close>

lemma advance_cached: "ex' (snd (advance now order c cd stage s)) = ex' s"
  by (auto simp: advance_def updateConflictCondition_def Let_def exps.call_frames
      split: reconcile_stage.split prod.split sum.split option.split dest!: arg_cong [where f = snd])

text \<open>A patch that left the export as it was had nothing to change.\<close>

lemma quiet_patch:
  assumes adv: "updateConflictCondition now c se conflict reason msg s = (None, s1)"
    and stored: "ex s nn = Some se" "ex s1 nn = ex s nn" and key: "se_key se = nn"
  shows "shows_verdict conflict se"
proof -
  let ?c = "newCondition now ServiceExportConditionConflict (if conflict then ConditionTrue else ConditionFalse) reason msg"
  let ?se = "se\<lparr>se_Conditions := setCondition (se_Conditions se) ?c\<rparr>"
  have k: "se_key ?se = nn" using key by (simp add: se_key_def)
  have p: "fst (cl_StatusPatch (cl_Exports c) ?se se s) = None" "s1 = snd (cl_StatusPatch (cl_Exports c) ?se se s)"
    using adv by (auto simp: updateConflictCondition_def Let_def split: prod.splits option.splits)
  have "?se = se"
    using exps.StatusPatch_ok [OF p(1)] p(2) stored k by fastforce
  then have "setCondition (se_Conditions se) ?c = se_Conditions se"
    by (rule se_conditions_same)
  then have "cond_map (se_Conditions se) ServiceExportConditionConflict = Some ?c"
    using cond_map_setCondition [of "se_Conditions se" ?c] by (metis fun_upd_same newCondition_sel(1))
  then show ?thesis by (simp add: shows_verdict_def)
qed

lemma advance_facts:
  assumes adv: "advance now order c cd stage s = ((stage1, res), s1)"
    and order: "range_order order" and inv: "cd_inv cd" and fresh: "fresh_stage (ex' s) cd nn stage"
    and cur: "ex' s nn = ex s nn"
  shows "fresh_stage (ex' s) cd nn stage1 \<or> nn \<in> moved ex s s1 \<or> nn \<in> failing res \<or> up_to_date (ex' s) cd nn"
proof (cases stage)
  case Idle
  then show ?thesis using fresh by (simp add: fresh_stage_def)
next
  case (Taken k)
  then have k: "k = nn" using fresh by (simp add: fresh_stage_def)
  show ?thesis
  proof (cases "cl_Get (cl_Exports c) nn s")
    case (Pair r s2)
    then show ?thesis
      using adv Taken k exps.Get_found [of nn s] exps.Get_absent [of nn s]
      by (cases r)
        (auto simp: advance_def fresh_stage_def failing_def up_to_date_def ignoreNotFound_def split: if_splits option.splits)
  qed
next
  case (Got k se)
  then show ?thesis
    using adv fresh detectConflict_verdict [OF inv order, of nn se]
    by (auto simp: advance_def fresh_stage_def verdict_def split: prod.splits)
next
  case (Judged k se conflict reason msg)
  then have j: "k = nn" "ex' s nn = Some se" "conflict = verdict cd nn se" using fresh by (simp_all add: fresh_stage_def)
  obtain err where u: "updateConflictCondition now c se conflict reason msg s = (err, s1)" "res = Some (nn, err)"
    using adv Judged j by (auto simp: advance_def split: prod.splits)
  show ?thesis
  proof (cases err)
    case None
    then show ?thesis
      using quiet_patch [of now se conflict reason msg s s1 nn] u(1) j cur exps.cached_key [of s nn se]
      by (auto simp: up_to_date_def moved_def)
  next
    case (Some x)
    then show ?thesis using u by (simp add: failing_def)
  qed
qed

lemma advance_key:
  assumes "advance now order c cd stage s = ((stage1, res), s1)"
  shows "at_key stage1 k \<Longrightarrow> at_key stage k \<and> res = None" "res = Some (j, err) \<Longrightarrow> at_key stage j \<and> stage1 = Idle"
  using assms by (auto simp: advance_def at_key_def split: reconcile_stage.splits prod.splits sum.splits)

lemma advance_others: "advance now order c cd stage s = ((stage1, res), s1) \<Longrightarrow> ex' s1 = ex' s"
  using advance_cached [of now order cd stage s] by simp

lemma ctl_inv:
  assumes inv: "system_inv ex ex' e" and order: "range_order order"
  shows "system_inv ex ex' (ctl_step ex now order c e)"
proof -
  obtain stage1 res s1 where adv: "advance now order c (cs_cd e) (cs_ctl e) (cs_st e) = ((stage1, res), s1)"
    by (metis prod.collapse)
  note cached = advance_others [OF adv]
  have "settles ex' (ctl_step ex now order c e) nn" for nn
  proof -
    have "settles ex' e nn" "cd_inv (cs_cd e)" and cur: "nn \<notin> cs_lag e \<Longrightarrow> ex' (cs_st e) nn = ex (cs_st e) nn"
      using inv by (simp_all add: system_inv_def)
    then show ?thesis
      using advance_facts [OF adv order, of nn] by (auto simp: settles_def waiting_def ctl_step_def adv cached)
  qed
  then show ?thesis using inv by (auto simp: system_inv_def ctl_step_def adv cached moved_def)
qed

end

section \<open>The loop marks its key as done\<close>

definition done_key :: "(namespaced_name \<times> go_error option) option \<Rightarrow> detector \<Rightarrow> detector" where
  "done_key res cd =
     (case res of None \<Rightarrow> cd | Some (nn, _) \<Rightarrow> cd\<lparr>cd_queue := map_option (wq_Done nn) (cd_queue cd)\<rparr>)"

lemma wq_Done_sel [simp]:
  "wq_dirty (wq_Done x q) = wq_dirty q" "wq_shuttingDown (wq_Done x q) = wq_shuttingDown q"
  "wq_processing (wq_Done x q) = wq_processing q - {x}"
  by (simp_all add: wq_Done_def Let_def)

lemma done_key_sel [simp]:
  "remote_view (done_key res cd) = remote_view cd" "queued_key (done_key res cd) = queued_key cd"
  "(cd_queue (done_key res cd) = None) = (cd_queue cd = None)"
  by (auto simp: done_key_def queued_key_def fun_eq_iff split: option.split prod.split)

lemma done_key_inv:
  assumes "cd_inv cd" "\<And>k err. res = Some (k, err) \<Longrightarrow> k \<in> processing cd"
  shows "cd_inv (done_key res cd)"
  using assms wq_inv_Done
  by (auto simp: done_key_def cd_inv_def processing_def split: option.splits prod.split)

context cluster_api
begin

lemma loop_inv:
  assumes inv: "system_inv ex ex' e" and order: "range_order order"
  shows "system_inv ex ex' (loop_step ex now order c e)"
proof -
  obtain stage1 res s1 where adv: "advance now order c (cs_cd e) (cs_loop e) (cs_st e) = ((stage1, res), s1)"
    by (metis prod.collapse)
  note cached = advance_others [OF adv]
  have step: "loop_step ex now order c e =
      e\<lparr>cs_loop := stage1, cs_st := s1, cs_lag := cs_lag e \<union> moved ex (cs_st e) s1,
        cs_failed := cs_failed e \<union> failing res, cs_cd := done_key res (cs_cd e)\<rparr>"
    by (simp add: loop_step_def adv done_key_def)
  have "settles ex' (loop_step ex now order c e) nn" for nn
  proof -
    have "settles ex' e nn" "cd_inv (cs_cd e)" and cur: "nn \<notin> cs_lag e \<Longrightarrow> ex' (cs_st e) nn = ex (cs_st e) nn"
      using inv by (simp_all add: system_inv_def)
    moreover note fresh_cong [of "done_key res (cs_cd e)" nn "cs_cd e" "ex' (cs_st e)" "ex' (cs_st e)"]
    ultimately show ?thesis
      using advance_facts [OF adv order, of nn] by (auto simp: settles_def waiting_def step cached)
  qed
  moreover have "k \<in> processing (done_key res (cs_cd e))" if "at_key stage1 k" for k
    using that advance_key [OF adv] inv by (auto simp: system_inv_def done_key_def)
  moreover have "cd_inv (done_key res (cs_cd e))"
    using advance_key(2) [OF adv] inv by (intro done_key_inv) (auto simp: system_inv_def)
  ultimately show ?thesis using inv by (auto simp: system_inv_def step cached moved_def)
qed

lemma run_inv: "conflict_run c ex ex' evs e \<Longrightarrow> system_inv ex ex' e"
proof (induction rule: conflict_run.induct)
  case (start s)
  then show ?case by (rule start_inv)
next
  case (informer evs e s1 K new)
  then show ?case by (intro informer_inv)
next
  case (ctx_done evs e)
  then show ?case by (intro ctx_done_inv)
qed (simp_all add: clients_inv told_event_inv ctl_take_inv ctl_inv loop_take_inv loop_inv)

lemma run_table: "conflict_run c ex ex' evs e \<Longrightarrow>
    remote_view (cs_cd e) = remote_view (fold cd_event evs NewConflictDetector)"
proof (induction rule: conflict_run.induct)
  case (told evs e ev)
  then show ?case by (cases ev) (simp_all add: remote_view_RecordRemote remote_view_ForgetRemote)
next
  case (ctl evs e order now)
  then show ?case by (simp add: ctl_step_def split: prod.split)
next
  case (loop evs e order now)
  then show ?case by (auto simp: loop_step_def split: prod.split option.split)
qed (simp_all add: cdSetupWithManager_def Let_def)

lemma run_verdict:
  assumes run: "conflict_run c ex ex' evs e" and se: "summary_valid se"
    and remote: "\<And>cl se'. last_export evs nn cl = Some se' \<Longrightarrow> summary_valid se'"
  shows "verdict (cs_cd e) nn se \<longleftrightarrow> (\<exists>cl se'. last_export evs nn cl = Some se' \<and> summary_key se' \<noteq> summary_key se)"
  using detect_history [OF range_order_id(1) se remote] detectConflict_verdict [OF _ range_order_id(1)]
  by (simp add: verdict_def run_table [OF run] cd_event_inv)

end

section \<open>Reconciles that nobody interrupts\<close>

text \<open>Three stages without anything in between are \<open>cdReconcile\<close>; an idle goroutine does nothing.\<close>

definition ctl_pass where
  "ctl_pass ex now order c nn e =
     (case cdReconcile now order c (cs_cd e) nn (cs_st e) of
        (err, s1) \<Rightarrow> e\<lparr>cs_ctl := Idle, cs_st := s1, cs_lag := cs_lag e \<union> moved ex (cs_st e) s1,
          cs_requests := cs_requests e - {nn} \<union> failing (Some (nn, err))\<rparr>)"

definition loop_pass where
  "loop_pass ex now order c nn q1 e =
     (case cdReconcile now order c (cs_cd e) nn (cs_st e) of
        (err, s1) \<Rightarrow> e\<lparr>cs_loop := Idle, cs_st := s1, cs_lag := cs_lag e \<union> moved ex (cs_st e) s1,
          cs_failed := cs_failed e \<union> failing (Some (nn, err)),
          cs_cd := (cs_cd e)\<lparr>cd_queue := Some (wq_Done nn q1)\<rparr>\<rparr>)"

lemma detectConflict_queue [simp]: "detectConflict order (cd\<lparr>cd_queue := q\<rparr>) nn se = detectConflict order cd nn se"
  by (simp add: detectConflict_def cong: option.case_cong)

lemma detectConflict_conditions [simp]:
  "detectConflict order cd nn (se\<lparr>se_Conditions := cs\<rparr>) = detectConflict order cd nn se"
proof -
  have "specSummary (Some (se\<lparr>se_Conditions := cs\<rparr>)) = specSummary (Some se)" by (simp add: specSummary_def)
  then show ?thesis by (simp only: detectConflict_def)
qed

lemma cdReconcile_queue [simp]: "cdReconcile now order c (cd\<lparr>cd_queue := q\<rparr>) nn s = cdReconcile now order c cd nn s"
  by (simp only: cdReconcile_def detectConflict_queue)

lemma moved_empty [simp]: "view s1 = view s \<Longrightarrow> moved view s s1 = {}"
  by (simp add: moved_def)

lemma failing_simps [simp]: "failing None = {}" "failing (Some (nn, None)) = {}" "failing (Some (nn, Some err)) = {nn}"
  by (simp_all add: failing_def)

context cluster_api
begin

lemma stage_steps:
  obtains (absent) err s1 where "advance now order c cd (Taken nn) s = ((Idle, Some (nn, err)), s1)"
      "cdReconcile now order c cd nn s = (err, s1)" "ex s1 = ex s"
  | (found) se s1 cf r m err s2 where "advance now order c cd (Taken nn) s = ((Got nn se, None), s1)"
      "advance now order c cd (Got nn se) s1 = ((Judged nn se cf r m, None), s1)"
      "advance now order c cd (Judged nn se cf r m) s1 = ((Idle, Some (nn, err)), s2)"
      "cdReconcile now order c cd nn s = (err, s2)" "ex s1 = ex s"
proof (cases "cl_Get (cl_Exports c) nn s")
  case (Pair r s1)
  have e: "ex s1 = ex s" using exps.call_frames(1) [of nn s] Pair by simp
  show ?thesis
  proof (cases r)
    case (Inl err)
    then show ?thesis using absent [of "ignoreNotFound err" s1] Pair e by (simp add: advance_def cdReconcile_def)
  next
    case (Inr se)
    then show ?thesis
      using found [of se s1] Pair e
      by (cases "detectConflict order cd nn se";
          cases "updateConflictCondition now c se (fst (detectConflict order cd nn se))
            (fst (snd (detectConflict order cd nn se))) (snd (snd (detectConflict order cd nn se))) s1")
         (simp add: advance_def cdReconcile_def)
  qed
qed

lemma run_ctl_pass:
  assumes run: "conflict_run c ex ex' evs e" and e: "cs_ctl e = Idle" "nn \<in> cs_requests e" and order: "range_order order"
  shows "conflict_run c ex ex' evs (ctl_pass ex now order c nn e)"
proof -
  let ?e = "e\<lparr>cs_ctl := Taken nn, cs_requests := cs_requests e - {nn}\<rparr>"
  note taken = conflict_run.ctl_take [OF run e]
  note step = conflict_run.ctl [OF _ order, of c ex ex' evs _ now]
  show ?thesis
  proof (cases rule: stage_steps [of now order "cs_cd e" nn "cs_st e"])
    case (absent err s1)
    then show ?thesis using step [OF taken] by (simp add: ctl_step_def ctl_pass_def)
  next
    case (found se s1 cf r m err s2)
    then show ?thesis using step [OF step [OF step [OF taken]]] by (simp add: ctl_step_def ctl_pass_def moved_def)
  qed
qed

lemma run_loop_pass:
  assumes run: "conflict_run c ex ex' evs e" and e: "cs_loop e = Idle" "cd_queue (cs_cd e) = Some q" "wq_Get q = (Item nn, q1)"
    and order: "range_order order"
  shows "conflict_run c ex ex' evs (loop_pass ex now order c nn q1 e)"
proof -
  let ?cd = "(cs_cd e)\<lparr>cd_queue := Some q1\<rparr>"
  note taken = conflict_run.loop_take [OF run e]
  note step = conflict_run.loop [OF _ order, of c ex ex' evs _ now]
  show ?thesis
  proof (cases rule: stage_steps [of now order ?cd nn "cs_st e"])
    case (absent err s1)
    then show ?thesis using step [OF taken] by (simp add: loop_step_def loop_pass_def)
  next
    case (found se s1 cf r m err s2)
    then show ?thesis using step [OF step [OF step [OF taken]]] by (simp add: loop_step_def loop_pass_def moved_def)
  qed
qed

end

text \<open>One pass on the cluster in memory.\<close>

lemma mem_reconcile:
  assumes "m_script s = []" "se_key se = nn" "m_Exports s nn = Some se" "mc_Exports s nn = Some se"
    and "detectConflict order cd nn se = (b, r, m)"
  shows "cdReconcile now order mem_client cd nn s =
    (None, s\<lparr>m_Exports := (m_Exports s)(nn \<mapsto> se\<lparr>se_Conditions := setCondition (se_Conditions se)
      (newCondition now ServiceExportConditionConflict (if b then ConditionTrue else ConditionFalse) r m)\<rparr>)\<rparr>)"
proof -
  have k: "se_key (se\<lparr>se_Conditions := cs\<rparr>) = nn" for cs using assms(2) by (simp add: se_key_def)
  show ?thesis
    using assms k
    by (simp add: cdReconcile_def updateConflictCondition_def Let_def mem_client_sel mem_kind_def fault_def
        write_call_def present_def keyed_def)
qed

section \<open>Properties\<close>

text \<open>C15. The Conflict condition of every export that nobody still has to look at is exact, however the
  two goroutines, the watchers, the cache and the other clients of the API were interleaved: if the service has
  no request waiting and no key queued, no reconcile of it is under way or was dropped with an error, and the
  cache knows its newest version, then the export has a Conflict condition, and it says True exactly
  when an export last recorded from some cluster has another type or other ports.\<close>

theorem conflict_condition_exact:
  assumes api: "cluster_api c ex ex' sv sv' im im' sl sl' up" and run: "conflict_run c ex ex' evs e"
    and quiet: "\<not> waiting e nn" "\<not> at_key (cs_ctl e) nn" "\<not> at_key (cs_loop e) nn"
    and se: "ex (cs_st e) nn = Some se" "summary_valid se"
    and remote: "\<And>cl se'. last_export evs nn cl = Some se' \<Longrightarrow> summary_valid se'"
  shows "\<exists>cond. cond_map (se_Conditions se) ServiceExportConditionConflict = Some cond \<and>
    c_Status cond = (if \<exists>cl se'. last_export evs nn cl = Some se' \<and> summary_key se' \<noteq> summary_key se
                     then ConditionTrue else ConditionFalse)"
proof -
  have inv: "system_inv ex ex' e" by (rule cluster_api.run_inv [OF api run])
  have "\<not> fresh_stage (ex' (cs_st e)) (cs_cd e) nn (cs_ctl e)" "\<not> fresh_stage (ex' (cs_st e)) (cs_cd e) nn (cs_loop e)"
    using quiet(2,3) by (auto simp: fresh_stage_def at_key_def split: reconcile_stage.splits)
  then have "up_to_date (ex' (cs_st e)) (cs_cd e) nn"
    using inv quiet(1) by (auto simp: system_inv_def settles_def)
  moreover have "ex' (cs_st e) nn = Some se" using inv quiet(1) se(1) by (auto simp: system_inv_def waiting_def)
  ultimately show ?thesis
    using cluster_api.run_verdict [OF api run se(2) remote]
    by (auto simp: up_to_date_def shows_verdict_def split: option.splits)
qed

theorem conflict_condition_exact_witness:
  "\<exists>e se cond. conflict_run mem_client v_Exports vc_Exports
       [Recorded web ''b'' (with_annotations [AnnotationServiceType \<mapsto> ''Headless''] web_export)] e \<and>
     v_Exports (cs_st e) web = Some se \<and>
     cond_map (se_Conditions se) ServiceExportConditionConflict = Some cond \<and> c_Status cond = ConditionTrue"
proof -
  let ?h = "with_annotations [AnnotationServiceType \<mapsto> ''Headless''] web_export"
  let ?ev = "Recorded web ''b'' ?h"
  let ?s0 = "empty_mem\<lparr>m_Exports := [web \<mapsto> web_export], mc_Exports := [web \<mapsto> web_export]\<rparr>"
  define cd where "cd = cd_event ?ev (snd (cdSetupWithManager None None NewConflictDetector))"
  have key: "summary_key ?h = Some (''Headless'', [])" "summary_key web_export = None"
    by (simp_all add: summary_key_def with_annotations_def get0_def)
  have valid: "summary_valid ?h" "summary_valid web_export"
    by (simp_all add: summary_valid_def key ascii_valid_utf8 ascii_def byte_def)
  have last: "last_export [?ev] web cl = (if cl = ''b'' then Some ?h else None)" for cl by auto
  have view: "remote_view cd = [(web, ''b'') \<mapsto> specSummary (Some ?h)]"
    by (simp add: cd_def remote_view_RecordRemote cdSetupWithManager_def Let_def)
  have inv: "cd_inv cd" unfolding cd_def using setup_ready(1) by (intro cd_event_cd_inv) (simp add: loop_ready_def)
  have "fst (detectConflict id cd web web_export)"
    unfolding detectConflict_verdict [OF inv range_order_id(1)] view using specSummary_eq_iff [OF valid] by (auto simp: key)
  then obtain r m where d: "detectConflict id cd web web_export = (True, r, m)" by (metis prod.collapse)
  let ?cond = "newCondition 7 ServiceExportConditionConflict ConditionTrue r m"
  let ?se = "web_export\<lparr>se_Conditions := [?cond]\<rparr>"
  let ?s1 = "?s0\<lparr>m_Exports := [web \<mapsto> ?se]\<rparr>" and ?q1 = "snd (wq_Get (wq_Add web newQueue))"
  have q: "cd_queue cd = Some (wq_Add web newQueue)"
    by (simp add: cd_def cdSetupWithManager_def Let_def RecordRemote_def cd_enqueue_def)
  have get: "wq_Get (wq_Add web newQueue) = (Item web, ?q1)" by (simp add: wq_Add_def newQueue_def wq_Get_def)
  have done_q: "wq_dirty (wq_Done web ?q1) = {}" "\<not> wq_shuttingDown (wq_Done web ?q1)"
    by (simp_all add: wq_Add_def newQueue_def wq_Get_def)
  have k: "se_key ?se = web" using web_keys(1) by (simp add: se_key_def)
  have ne: "?se \<noteq> web_export" using web_export_sel(1) by (metis list.distinct(1) se_conditions_same)
  have r1: "cdReconcile 7 id mem_client cd web ?s0 = (None, ?s1)"
    using mem_reconcile [OF _ _ _ _ d, of ?s0 7] by (simp add: empty_mem_def)
  define e1 where "e1 = \<lparr>cs_cd = cd, cs_st = ?s0, cs_ctl = Idle, cs_loop = Idle, cs_requests = dom (v_Exports ?s0),
      cs_lag = {}, cs_failed = {} - {web}\<rparr>"
  have run1: "conflict_run mem_client v_Exports vc_Exports [?ev] e1"
    using conflict_run.told [OF conflict_run.start [of vc_Exports ?s0 v_Exports mem_client], of ?ev] by (simp add: e1_def cd_def)
  define e2 where "e2 = loop_pass v_Exports 7 id mem_client web ?q1 e1"
  have run2: "conflict_run mem_client v_Exports vc_Exports [?ev] e2"
    unfolding e2_def by (rule mem_cluster.run_loop_pass [OF run1 _ _ get]) (simp_all add: e1_def q)
  have e2: "cs_st e2 = ?s1" "cs_lag e2 = {web}" "cs_requests e2 = {web}" "cs_failed e2 = {}" "cs_ctl e2 = Idle"
      "cs_loop e2 = Idle" "cs_cd e2 = cd\<lparr>cd_queue := Some (wq_Done web ?q1)\<rparr>"
    using ne by (auto simp: e2_def loop_pass_def e1_def r1 moved_def k)
  define e3 where "e3 = e2\<lparr>cs_st := sync ?s1, cs_requests := cs_requests e2 \<union> {web}, cs_lag := cs_lag e2 - {web},
      cs_failed := cs_failed e2 - {web}\<rparr>"
  have run3: "conflict_run mem_client v_Exports vc_Exports [?ev] e3"
    unfolding e3_def by (rule conflict_run.informer [OF run2]) (auto simp: e2 sync_def moved_def k)
  have d3: "detectConflict id (cs_cd e3) web ?se = (True, r, m)"
    using d by (simp add: e3_def e2)
  have r3: "cdReconcile 7 id mem_client (cs_cd e3) web (sync ?s1) = (None, sync ?s1)"
    using mem_reconcile [OF _ k _ _ d3, of "sync ?s1" 7] by (simp add: sync_def empty_mem_def)
  define e4 where "e4 = ctl_pass v_Exports 7 id mem_client web e3"
  have run4: "conflict_run mem_client v_Exports vc_Exports [?ev] e4"
    unfolding e4_def by (rule mem_cluster.run_ctl_pass [OF run3]) (simp_all add: e3_def e2)
  have st: "cs_st e3 = sync ?s1" by (simp add: e3_def)
  have "e4 = e3\<lparr>cs_ctl := Idle, cs_st := sync ?s1, cs_lag := cs_lag e3 \<union> moved v_Exports (sync ?s1) (sync ?s1),
      cs_requests := cs_requests e3 - {web} \<union> failing (Some (web, None))\<rparr>"
    by (simp only: e4_def ctl_pass_def st r3 prod.case)
  then have e4: "\<not> waiting e4 web" "\<not> at_key (cs_ctl e4) web" "\<not> at_key (cs_loop e4) web" "v_Exports (cs_st e4) web = Some ?se"
    using done_q by (simp_all add: waiting_def queued_key_def at_key_def e3_def e2 sync_def k)
  have "summary_valid ?se" "summary_key ?se = None" using valid(2) key(2) by (simp_all add: summary_valid_def summary_key_def)
  then show ?thesis
    using conflict_condition_exact [OF mem_cluster_api run4 e4 _] run4 e4(4) valid(1) key(1) last
    by (auto split: if_splits)
qed

text \<open>A reconcile always writes the time of the clock, also when it writes the status that is there: the
  export changes, the cache learns of it, and the controllers reconcile it once more. The loop of
  writes ends only when two reconciles of the export read the same time.\<close>

theorem reconcile_rewrites_condition:
  assumes api: "cluster_api c ex ex' sv sv' im im' sl sl' up"
    and up: "up s" and cur: "ex' s nn = ex s nn" and se: "ex s nn = Some se"
    and cond: "cond_map (se_Conditions se) ServiceExportConditionConflict = Some cond" "c_LastTransitionTime cond \<noteq> now"
  shows "nn \<in> moved ex s (snd (cdReconcile now order c cd nn s))"
proof -
  obtain b r m where d: "detectConflict order cd nn se = (b, r, m)" by (cases "detectConflict order cd nn se")
  let ?c = "newCondition now ServiceExportConditionConflict (if b then ConditionTrue else ConditionFalse) r m"
  have "se\<lparr>se_Conditions := setCondition (se_Conditions se) ?c\<rparr> \<noteq> se"
  proof
    assume "se\<lparr>se_Conditions := setCondition (se_Conditions se) ?c\<rparr> = se"
    then have "setCondition (se_Conditions se) ?c = se_Conditions se" by (rule se_conditions_same)
    then have "cond_map (se_Conditions se) ServiceExportConditionConflict = Some ?c"
      using cond_map_setCondition [of "se_Conditions se" ?c] by (metis fun_upd_same newCondition_sel(1))
    then have "cond = ?c" using cond(1) by simp
    then show False using cond(2) by (simp add: newCondition_def)
  qed
  then show ?thesis
    using cluster_api.cdReconcile_current(2) [OF api up cur se, of now order cd] se by (simp add: moved_def d)
qed

end
