(* ===== verification/Fleet_Mirror.thy ===== *)
theory Fleet_Mirror
  imports Detection Slice_Pipeline "HOL-Library.Sublist"
begin

text \<open>
  The EndpointSlices of several remote clusters in one local cluster. Each watcher writes its mirrors
  under names that begin with the ID of its remote (\<open>localEndpointSliceName\<close> of
  \<open>pkg/controller/watcher.go\<close>). When that keeps the watchers out of each other's way, and when it does not;
  in the first case the local cluster shows of every remote what a cluster with that watcher alone
  would.
\<close>

section \<open>Names of different remotes\<close>

definition ids_apart :: "string \<Rightarrow> string \<Rightarrow> bool" where
  "ids_apart a b =
     (length a \<le> 62 \<and> length b \<le> 62 \<and> \<not> prefix (a @ ''-'') (b @ ''-'') \<and> \<not> prefix (b @ ''-'') (a @ ''-''))"

lemma localName_prefix: "length a \<le> 62 \<Longrightarrow> prefix (a @ ''-'') (localEndpointSliceName a n)"
  by (cases "63 - length a") (auto simp: localName_take)

lemma apart_names: "ids_apart a b \<Longrightarrow> localEndpointSliceName a n \<noteq> localEndpointSliceName b m"
  using localName_prefix [of a n] localName_prefix [of b m] prefix_same_cases by (fastforce simp: ids_apart_def)

lemma apart_mirrors: "ids_apart (w_remoteID w) (w_remoteID w') \<Longrightarrow> mirror_name w n \<noteq> mirror_name w' m"
  using apart_names by (simp add: mirror_name_def)

text \<open>The condition is also necessary: two remotes of which one ID begins with the other and a dash have
  slices that share a mirror.\<close>

lemma prefix_collides:
  assumes "prefix (a @ ''-'') (b @ ''-'')"
  shows "\<exists>n. localEndpointSliceName a (n @ ''x'') = localEndpointSliceName b ''x''"
proof -
  obtain zs where "b @ ''-'' = (a @ ''-'') @ zs" using assms by (auto simp: prefix_def)
  then have "a @ ''-'' @ zs @ ''x'' = b @ ''-'' @ ''x''" by (metis append.assoc)
  then show ?thesis by (intro exI [of _ zs]) (simp only: localName_take)
qed

theorem mirrors_collide_iff:
  assumes "length a \<le> 62" "length b \<le> 62"
  shows "(\<exists>n m. n \<noteq> '''' \<and> m \<noteq> '''' \<and> localEndpointSliceName a n = localEndpointSliceName b m) \<longleftrightarrow> \<not> ids_apart a b"
proof
  assume "\<not> ids_apart a b"
  then consider "prefix (a @ ''-'') (b @ ''-'')" | "prefix (b @ ''-'') (a @ ''-'')" using assms by (auto simp: ids_apart_def)
  then show "\<exists>n m. n \<noteq> '''' \<and> m \<noteq> '''' \<and> localEndpointSliceName a n = localEndpointSliceName b m"
  proof cases
    case 1
    then obtain n where "localEndpointSliceName a (n @ ''x'') = localEndpointSliceName b ''x''" using prefix_collides by blast
    then show ?thesis by (intro exI [of _ "n @ ''x''"] exI [of _ "''x''"]) simp
  next
    case 2
    then obtain n where "localEndpointSliceName b (n @ ''x'') = localEndpointSliceName a ''x''" using prefix_collides by blast
    then show ?thesis by (intro exI [of _ "''x''"] exI [of _ "n @ ''x''"]) simp
  qed
qed (use apart_names in blast)

section \<open>Several watchers, one cluster\<close>

text \<open>The notifications about slices that the watcher of one remote was called with.\<close>

fun slice_notes_of :: "string \<Rightarrow> (watcher \<times> 'u informer_obj watch_event) list \<Rightarrow> 'u informer_obj notification list" where
  "slice_notes_of rid [] = []"
| "slice_notes_of rid ((w, ev) # evs) =
     (case ev of
        OnExport _ \<Rightarrow> slice_notes_of rid evs
      | OnSlice n \<Rightarrow> (if w_remoteID w = rid then n # slice_notes_of rid evs else slice_notes_of rid evs))"

text \<open>What the specification makes of the events of all watchers, and of its own.\<close>

definition fleet_spec ::
  "('u \<Rightarrow> service_export option) \<Rightarrow> ('u \<Rightarrow> endpoint_slice option) \<Rightarrow>
   (watcher \<times> 'u informer_obj watch_event) list \<Rightarrow> mirror \<Rightarrow> mirror" where
  "fleet_spec fromSE fromES evs = fold (\<lambda>(w, ev). spec_event w fromSE fromES ev) evs"

context synced_cluster
begin

lemma fleet_refines:
  assumes "in_sync s" "run_fleet fromSE fromES c settle evs (cd, s) = (cd1, s1)"
  shows "in_sync s1 \<and> mirror_view (im s1) (sl s1) = fleet_spec fromSE fromES evs (mirror_view (im s) (sl s))"
  using assms
proof (induction evs arbitrary: cd s)
  case (Cons e evs)
  obtain w ev where e: "e = (w, ev)" by (cases e)
  obtain cd2 s2 where d: "dispatch w fromSE fromES c ev (cd, s) = (cd2, s2)" by fastforce
  note r = dispatch_refines [OF Cons.prems(1) d]
  have "in_sync (settle s2)" using r by (simp add: in_sync_def settle_stored settle_cached settle_up)
  from Cons.IH [OF this] Cons.prems(2) d r show ?case by (simp add: settle_stored e fleet_spec_def)
qed (simp add: fleet_spec_def)

end

text \<open>A slice event writes under a mirror name of its own watcher, a value that does not depend on the
  cluster.\<close>

definition agree_for :: "watcher \<Rightarrow> mirror \<Rightarrow> mirror \<Rightarrow> bool" where
  "agree_for w m m' = (\<forall>nn. snd m (mirror_name w nn) = snd m' (mirror_name w nn))"

lemma agree_own:
  assumes "agree_for w m m'"
  shows "agree_for w (spec_event w fromSE fromES (OnSlice n) m) (slice_event w fromES n m')"
  using assms by (auto simp: agree_for_def slice_event_def spec_event_def spec_slice_def spec_unslice_def
      split: notification.split option.split)

lemma agree_export: "agree_for w (spec_event w1 fromSE fromES (OnExport n) m) m' = agree_for w m m'"
  by (simp add: agree_for_def spec_event_apart(2))

lemma agree_other:
  assumes "ids_apart (w_remoteID w) (w_remoteID w1)" "agree_for w m m'"
  shows "agree_for w (spec_event w1 fromSE fromES (OnSlice n) m) m'"
  using assms(2) apart_mirrors [OF assms(1)]
  by (auto simp: agree_for_def spec_event_def spec_slice_def spec_unslice_def mirror_key_name
      split: notification.split option.split)

lemma fleet_apart:
  assumes "\<forall>w1 \<in> fst ` set evs. w1 = w \<or> (w_remoteID w1 \<noteq> w_remoteID w \<and> ids_apart (w_remoteID w) (w_remoteID w1))"
    and "agree_for w m m'"
  shows "agree_for w (fleet_spec fromSE fromES evs m) (fold (slice_event w fromES) (slice_notes_of (w_remoteID w) evs) m')"
  using assms
proof (induction evs arbitrary: m m')
  case (Cons e evs)
  obtain w1 ev where e: "e = (w1, ev)" by (cases e)
  have w1: "w1 = w \<or> (w_remoteID w1 \<noteq> w_remoteID w \<and> ids_apart (w_remoteID w) (w_remoteID w1))"
    using Cons.prems(1) e by simp
  have IH: "agree_for w m1 m1' \<Longrightarrow> agree_for w (fold (\<lambda>(w, ev). spec_event w fromSE fromES ev) evs m1)
      (fold (slice_event w fromES) (slice_notes_of (w_remoteID w) evs) m1')" for m1 m1'
    using Cons.IH Cons.prems(1) by (simp add: fleet_spec_def)
  show ?case
  proof (cases ev)
    case (OnExport n)
    then show ?thesis using IH [of "spec_event w1 fromSE fromES ev m" m'] Cons.prems(2) agree_export [of w w1 fromSE fromES n m m']
      by (simp add: fleet_spec_def e)
  next
    case (OnSlice n)
    show ?thesis
    proof (cases "w1 = w")
      case True
      then show ?thesis using IH [OF agree_own [OF Cons.prems(2), of fromSE fromES n]] OnSlice by (simp add: fleet_spec_def e)
    next
      case False
      then have "w_remoteID w1 \<noteq> w_remoteID w" "ids_apart (w_remoteID w) (w_remoteID w1)" using w1 by blast+
      then show ?thesis using IH [OF agree_other [OF _ Cons.prems(2)]] OnSlice by (simp add: fleet_spec_def e)
    qed
  qed
qed (simp add: fleet_spec_def)

section \<open>Properties\<close>

text \<open>C16. The slices of several clusters side by side. Let every watcher of \<open>ws\<close> follow the slices of its own
  emitter, exports and slices changing as in \<open>slices_mirrored\<close>, with nothing on its way any more, and let
  the handlers of all watchers run interleaved in any order, mixed with those for exports. If no remote
  ID, with a dash behind it, is a prefix of another's, then for every remote and every slice whose name fits (together
  with the ID of the remote shorter than 63 bytes) the local cluster shows what a cluster with
  this watcher alone would: of a slice that the emitter serves, the watcher selects and that is to be
  mirrored, the mirror; of a missing, unserved or unselected one nothing; of one that the controller of
  Kubernetes manages or no Service owns nothing, or what an earlier version of it left behind.\<close>

theorem fleet_slices_mirrored:
  assumes B: "synced_cluster c ex ex' sv sv' im im' sl sl' up settle"
    and s: "up s" "im' s = im s" "sl' s = sl s" "\<And>w nn. w \<in> ws \<Longrightarrow> sl s (mirror_name w nn) = None"
    and apart: "\<And>w w'. w \<in> ws \<Longrightarrow> w' \<in> ws \<Longrightarrow> w \<noteq> w' \<Longrightarrow> ids_apart (w_remoteID w) (w_remoteID w')"
    and wr: "\<And>w. w \<in> ws \<Longrightarrow> export_wiring (wrE w) \<and> slice_wiring (exports w) (wrS w)"
    and st: "\<And>w. w \<in> ws \<Longrightarrow> slices_caught_up w (wrE w) (wrS w) (acts w) (st w)"
    and decode: "\<And>w es. w \<in> ws \<Longrightarrow> fromES (wr_encode (wrS w) (ItemSlice es)) = Some es"
    and calls: "\<And>w. w \<in> ws \<Longrightarrow> slice_notes_of (w_remoteID w) evs = fd_notes (em_slices (st w))"
    and others: "\<And>w ev. (w, ev) \<in> set evs \<Longrightarrow> w \<in> ws"
    and s1: "s1 = snd (run_fleet fromSE fromES c settle evs (cd, s))"
    and w: "w \<in> ws" and nn: "sound_namespace (Namespace nn)" "name_fits w nn"
  shows "slice_mirrored (slice_versions (acts w)) w (at_exports (exports_now (st w)) (wrS w)) (fd_store (em_slices (st w))) nn
    (sl s1 (mirror_name w nn))"
proof -
  let ?m = "mirror_view (im s) (sl s)"
  have wrw: "export_wiring (wrE w)" "slice_wiring (exports w) (wrS w)" using wr [OF w] by simp_all
  have empty: "slice_at w ?m k = None" for k by (simp add: slice_at_def mirror_view_def s(4) [OF w])
  have "synced_cluster.in_sync im im' sl sl' up s" using s(1-3) by (simp add: synced_cluster.in_sync_def [OF B])
  from synced_cluster.fleet_refines [OF B this surjective_pairing, of fromSE fromES evs cd]
  have run: "mirror_view (im s1) (sl s1) = fleet_spec fromSE fromES evs ?m" by (simp add: s1)
  have differ: "w_remoteID w1 \<noteq> w_remoteID w" if "ids_apart (w_remoteID w) (w_remoteID w1)" for w1
    using that by (auto simp: ids_apart_def)
  have "agree_for w (fleet_spec fromSE fromES evs ?m) (fold (slice_event w fromES) (fd_notes (em_slices (st w))) ?m)"
    unfolding calls [OF w, symmetric]
  proof (rule fleet_apart)
    show "\<forall>w1 \<in> fst ` set evs. w1 = w \<or> (w_remoteID w1 \<noteq> w_remoteID w \<and> ids_apart (w_remoteID w) (w_remoteID w1))"
      using others apart [OF w] differ by (metis image_iff prod.collapse)
  qed (simp add: agree_for_def)
  then have "slice_at w (mirror_view (im s1) (sl s1)) = slice_at w (fold (slice_event w fromES) (fd_notes (em_slices (st w))) ?m)"
    by (auto simp: run agree_for_def slice_at_def fun_eq_iff)
  from caught_up_slice_mirrored [OF wrw decode [OF w] st [OF w] empty this nn] show ?thesis .
qed

theorem fleet_slices_mirrored_witness:
  "let n = OnSlice (Added (Unstructured (Inr web_slice :: service_export + endpoint_slice)));
       s1 = snd (run_fleet (\<lambda>_. None) from_right mem_client sync
         [(NewWatcher ''a'' ''r1'' [] [], n), (NewWatcher ''a'' ''r2'' [] [], n)] (None, empty_mem))
   in map_option es_AddressType (v_Slices s1 (NamespacedName ''shop'' ''r1-web-x7'')) = Some ''IPv4'' \<and>
      map_option es_AddressType (v_Slices s1 (NamespacedName ''shop'' ''r2-web-x7'')) = Some ''IPv4''"
proof -
  let ?w1 = "NewWatcher ''a'' ''r1'' [] []" and ?w2 = "NewWatcher ''a'' ''r2'' [] []"
  let ?n = "Added (Unstructured (Inr web_slice)) :: (service_export + endpoint_slice) informer_obj notification"
  let ?wrE = "both_wiring export_store" and ?wrS = "both_wiring (slice_store {})"
  let ?s1 = "snd (run_fleet (\<lambda>_. None) from_right mem_client sync [(?w1, OnSlice ?n), (?w2, OnSlice ?n)] (None, empty_mem))"
  let ?nn = "NamespacedName ''shop'' ''web-x7''"
  obtain st where st: "web_wirings site_run web_site (start_site empty_registry empty_registry) = Inr st"
      "drained (em_slices st)" "fd_store (em_slices st) ''shop/web-x7'' = Some web_slice" "exports_now st = {''shop/web''}"
      "web_wirings slices_restarted web_site (start_site empty_registry empty_registry)" "fd_notes (em_slices st) = [?n]"
    by (rule web_site_run) blast
  have id: "w_remoteID ?w1 = ''r1''" "w_remoteID ?w2 = ''r2''" by (simp_all add: NewWatcher_def)
  have "\<forall>es \<in> slice_versions web_site. sound_slice w es" if "w \<in> {?w1, ?w2}" for w
    using that by (auto simp: web_versions web_slice_exported sound_slice_def sound_namespace_def name_fits_def id)
  then have caught: "slices_caught_up w ?wrE ?wrS web_site st" if "w \<in> {?w1, ?w2}" for w
    using that st(1,2,5) reg_live_empty unfolding slices_caught_up_def by blast
  have apart: "ids_apart (w_remoteID w) (w_remoteID w')" if "w \<in> {?w1, ?w2}" "w' \<in> {?w1, ?w2}" "w \<noteq> w'" for w w'
    using that by (auto simp: ids_apart_def id)
  have told: "slice_notes_of (w_remoteID w) [(?w1, OnSlice ?n), (?w2, OnSlice ?n)] = fd_notes (em_slices st)" if "w \<in> {?w1, ?w2}" for w
    using that by (auto simp: id st(6))
  have nn: "sound_namespace (Namespace ?nn)" "name_fits w ?nn" if "w \<in> {?w1, ?w2}" for w
    using that by (auto simp: sound_namespace_def name_fits_def id)
  have em: "m_up empty_mem" "vc_Imports empty_mem = v_Imports empty_mem" "vc_Slices empty_mem = v_Slices empty_mem"
      "v_Slices empty_mem k = None" for k
    by (simp_all add: empty_mem_def m_up_def)
  have mirrored: "slice_mirrored (slice_versions web_site) w (at_exports (exports_now st) ?wrS) (fd_store (em_slices st)) ?nn
      (v_Slices ?s1 (mirror_name w ?nn))" if "w \<in> {?w1, ?w2}" for w
    by (rule fleet_slices_mirrored [OF mem_synced_cluster em, where ws = "{?w1, ?w2}" and st = "\<lambda>_. st" and acts = "\<lambda>_. web_site"
          and wrE = "\<lambda>_. ?wrE" and wrS = "\<lambda>_. ?wrS" and exports = "\<lambda>_. {}",
          OF apart conjI [OF both_plain] caught _ told _ refl that nn(1) [OF that] nn(2) [OF that]])
       (auto simp: from_right_def)
  have view: "map_option es_AddressType (v_Slices ?s1 (mirror_name w ?nn)) = Some ''IPv4''" if "w \<in> {?w1, ?w2}" for w
  proof -
    have "slice_wanted w web_slice = Some (mirror_labels w ''web'', ''IPv4'', Some [], None)"
      using web_slice_facts(1,2) by (simp add: slice_wanted_def web_def) (simp add: web_slice_def)
    then have "map_option slice_view (v_Slices ?s1 (mirror_name w ?nn)) = Some (mirror_labels w ''web'', ''IPv4'', Some [], None)"
      using mirrored [OF that] st(3,4)
      by (simp add: slice_mirrored_def nn_String_def selects_def options_select_def web_slice_exported)
    then show ?thesis by (auto simp: slice_view_def)
  qed
  have "mirror_name ?w1 ?nn = NamespacedName ''shop'' ''r1-web-x7''" "mirror_name ?w2 ?nn = NamespacedName ''shop'' ''r2-web-x7''"
    by (simp_all add: mirror_name_def localEndpointSliceName_def id)
  then show ?thesis using view [of ?w1] view [of ?w2] by (simp del: run_fleet.simps add: Let_def)
qed

end
