(* ===== verification/Name_Validity.thy ===== *)
theory Name_Validity
  imports Mirror Api_Names Examples
begin

text \<open>
  Whether the API server takes the mirrors a watcher writes (\<open>pkg/controller/watcher.go\<close>): their name
  and the label of the source cluster are made of the remote ID, which \<open>cmd/service-reflector/main.go\<close>
  takes from a URL. The checks of the server are those of
  \<open>vendor/k8s.io/apimachinery/pkg/api/validation\<close>; that they apply to an EndpointSlice, with
  \<open>NameIsDNSSubdomain\<close> for its name, is an assumption on the server (\<open>validating_cluster\<close>).
\<close>

section \<open>The checks\<close>

definition NameIsDNSSubdomain :: "string \<Rightarrow> bool" where
  "NameIsDNSSubdomain name = IsDNS1123Subdomain name"

definition ValidateLabels :: "strmap \<Rightarrow> bool" where
  "ValidateLabels labels = (\<forall>k v. labels k = Some v \<longrightarrow> IsLabelKey k \<and> IsLabelValue v)"

definition valid_slice :: "endpoint_slice \<Rightarrow> bool" where
  "valid_slice es = (NameIsDNSSubdomain (om_Name (es_meta es)) \<and> ValidateLabels (om_Labels (es_meta es)))"

lemma slice_label_keys:
  "IsLabelKey LabelServiceName" "IsLabelKey LabelManagedBy" "IsLabelKey LabelSourceCluster"
  "IsLabelValue ''service-reflector''"
  unfolding LabelServiceName_def LabelManagedBy_def LabelSourceCluster_def by code_simp+

lemma ValidateLabels_upd:
  "ValidateLabels Map.empty"
  "k \<notin> dom m \<Longrightarrow> ValidateLabels (m(k \<mapsto> v)) \<longleftrightarrow> IsLabelKey k \<and> IsLabelValue v \<and> ValidateLabels m"
  by (auto simp: ValidateLabels_def)

lemma valid_desired_slice:
  "valid_slice (desired_slice w es owner) \<longleftrightarrow>
   IsDNS1123Subdomain (localEndpointSliceName (w_remoteID w) (om_Name (es_meta es))) \<and>
   IsLabelValue (Name owner) \<and> IsLabelValue (w_remoteID w)"
proof -
  have keys: "LabelServiceName \<noteq> LabelManagedBy" "LabelServiceName \<noteq> LabelSourceCluster" "LabelManagedBy \<noteq> LabelSourceCluster"
    by (simp_all add: api_const_defs)
  have "ValidateLabels (mirror_labels w (Name owner)) \<longleftrightarrow> IsLabelValue (Name owner) \<and> IsLabelValue (w_remoteID w)"
    using keys slice_label_keys by (simp add: mirror_labels_def ValidateLabels_upd conj_commute)
  then show ?thesis by (simp add: valid_slice_def NameIsDNSSubdomain_def desired_slice_def)
qed

text \<open>The port of a host is written after a colon, and a colon is no byte of a label value.\<close>

lemma colon_invalid: "CHR '':'' \<in> set v \<Longrightarrow> \<not> IsLabelValue v"
  using IsLabelValue_chars [of v "CHR '':''"]
  by (auto simp: labelKeyExtChar_def labelKeyChar_def is_upper_def is_lower_def is_digit_def byte_def)

section \<open>A server that validates\<close>

locale validating_cluster = cluster_api +
  fixes admitted :: "endpoint_slice \<Rightarrow> bool"
  assumes Create_invalid: "\<not> admitted es \<Longrightarrow> sl (snd (cl_Create (cl_Slices c) es s)) = sl s"
begin

text \<open>A handler adds the key of no mirror that is not admitted.\<close>

lemma add_slice_dom:
  assumes "\<And>es owner. \<not> admitted (desired_slice w es owner)"
  shows "dom (sl (snd (onEndpointSliceAdd w fromES c obj s))) \<subseteq> dom (sl s)"
  using Create_invalid [OF assms] slcs.patch_dom slcs.Get_stored
  by (auto simp: onEndpointSliceAdd_def Let_def split_beta split: option.split sum.split)

lemma delete_slice_dom: "dom (sl (snd (onEndpointSliceDelete w fromES c obj s))) \<subseteq> dom (sl s)"
proof -
  have "dom (sl (snd (cl_Delete (cl_Slices c) ob (snd (cl_Get (cl_Slices c) k s))))) \<subseteq> dom (sl s)" for ob k
    using slcs.Delete_outcome [of ob "snd (cl_Get (cl_Slices c) k s)"] slcs.Get_stored
    by (auto simp: write_outcome_def split: if_splits)
  then show ?thesis
    using slcs.Get_stored by (simp add: onEndpointSliceDelete_def split_beta split: option.split sum.split)
qed

lemma dispatch_dom:
  assumes "\<And>es owner. \<not> admitted (desired_slice w es owner)"
  shows "dom (sl (snd (dispatch w fromSE fromES c ev (cd, s)))) \<subseteq> dom (sl s)"
proof (cases ev)
  case (OnExport n)
  obtain nn where "export_target fromSE n \<in> {None, Some nn}" by (cases "export_target fromSE n") auto
  from dispatch_export_only [OF this, where w = w and fromES = fromES and cd = cd and s = s] show ?thesis by (simp add: OnExport only_at_def)
next
  case (OnSlice n)
  then show ?thesis
    using add_slice_dom [OF assms] delete_slice_dom by (cases n) (simp_all add: dispatch_def)
qed

lemma run_dom:
  assumes "\<And>es owner. \<not> admitted (desired_slice w es owner)" "\<And>s. sl (settle s) = sl s"
  shows "dom (sl (snd (run_events w fromSE fromES c settle evs (cd, s)))) \<subseteq> dom (sl s)"
proof (induction evs arbitrary: cd s)
  case (Cons ev evs)
  obtain cd1 s1 where d: "dispatch w fromSE fromES c ev (cd, s) = (cd1, s1)" by fastforce
  then show ?case
    using Cons.IH [of cd1 "settle s1"] dispatch_dom [OF assms(1), where fromSE = fromSE and fromES = fromES and ev = ev and cd = cd and s = s] assms(2) by auto
qed simp

end

text \<open>The laws can hold: the store of \<open>Memory_Api\<close> behind a validation.\<close>

definition admitting :: "('o \<Rightarrow> bool) \<Rightarrow> ('st, 'o) kind_client \<Rightarrow> ('st, 'o) kind_client" where
  "admitting ok kc = kc\<lparr>cl_Create :=
     (\<lambda>ob s. if ok ob then cl_Create kc ob s else (Some (ApiError (ReasonOther ''Invalid'')), s))\<rparr>"

lemma admitting_sel [simp]:
  "cl_Get (admitting ok kc) = cl_Get kc" "cl_Patch (admitting ok kc) = cl_Patch kc"
  "cl_StatusPatch (admitting ok kc) = cl_StatusPatch kc" "cl_Delete (admitting ok kc) = cl_Delete kc"
  "cl_Create (admitting ok kc) ob s =
     (if ok ob then cl_Create kc ob s else (Some (ApiError (ReasonOther ''Invalid'')), s))"
  by (simp_all add: admitting_def)

lemma admitting_api_kind:
  "api_kind kc st ca key merge smerge oth \<Longrightarrow> api_kind (admitting ok kc) st ca key merge smerge oth"
  unfolding api_kind_def by (simp add: write_outcome_def)

definition strict_client :: "mem client" where
  "strict_client = mem_client\<lparr>cl_Slices := admitting valid_slice (cl_Slices mem_client)\<rparr>"

lemma never_up: "api_kind kc st ca key merge smerge oth \<Longrightarrow> live_api_kind kc st ca key merge smerge oth (\<lambda>_. False)"
  by (intro live_api_kind.intro live_api_kind_axioms.intro) simp_all

interpretation strict_cluster: validating_cluster strict_client v_Exports vc_Exports v_Services vc_Services
  v_Imports vc_Imports v_Slices vc_Slices "\<lambda>_. False" valid_slice
proof -
  have "cluster_api strict_client v_Exports vc_Exports v_Services vc_Services
      v_Imports vc_Imports v_Slices vc_Slices (\<lambda>_. False)"
    unfolding cluster_api_def
    using mem_cluster.exps.api_kind_axioms mem_cluster.svcs.api_kind_axioms mem_cluster.imps.api_kind_axioms
      admitting_api_kind [OF mem_cluster.slcs.api_kind_axioms]
    by (auto simp: strict_client_def intro!: never_up)
  then show "validating_cluster strict_client v_Exports vc_Exports v_Services vc_Services
      v_Imports vc_Imports v_Slices vc_Slices (\<lambda>_. False) valid_slice"
    by (rule validating_cluster.intro) (unfold_locales, simp add: strict_client_def)
qed

section \<open>Properties\<close>

text \<open>C34. The mirror of a slice of a remote whose ID is a DNS subdomain short enough for a label is an
  object the API server takes exactly when its name, cut to 63 bytes, ends in a letter or a digit, for
  a remote slice and an owner with names the server takes; so it always takes it when nothing is cut
  off, and refuses it when the cut leaves a dash or a dot at the end.\<close>

theorem mirror_valid_iff:
  assumes r: "IsDNS1123Subdomain (w_remoteID w)" "length (w_remoteID w) \<le> 63"
    and n: "IsDNS1123Subdomain (om_Name (es_meta es))" and owner: "IsLabelValue (Name owner)"
  shows "(valid_slice (desired_slice w es owner) \<longleftrightarrow>
      dnsChar (last (localEndpointSliceName (w_remoteID w) (om_Name (es_meta es))))) \<and>
    (length (w_remoteID w) + length (om_Name (es_meta es)) < 63 \<longrightarrow>
      valid_slice (desired_slice w es owner))"
proof -
  let ?name = "w_remoteID w @ ''-'' @ om_Name (es_meta es)"
  have name: "dns1123SubdomainFmt ?name"
    by (rule subdomain_dash) (use r n in \<open>simp_all add: IsDNS1123Subdomain_def\<close>)
  have iff: "valid_slice (desired_slice w es owner) \<longleftrightarrow> dnsChar (last (take 63 ?name))"
    unfolding valid_desired_slice localName_take IsDNS1123Subdomain_def subdomain_take [OF name zero_less_numeral]
    using owner subdomain_label_value [OF r] by auto
  have "take 63 ?name = ?name" if "length (w_remoteID w) + length (om_Name (es_meta es)) < 63"
    using that by simp
  with iff subdomain_last [OF name] show ?thesis unfolding localName_take by metis
qed

theorem mirror_valid_iff_witness:
  "valid_slice (desired_slice (NewWatcher ''b'' ''a.example'' [] []) web_slice web) \<and>
   \<not> valid_slice (desired_slice (NewWatcher ''b'' (replicate 62 (CHR ''a'')) [] []) web_slice web)"
proof -
  have safe: "IsDNS1123Subdomain ''a.example''" "IsDNS1123Subdomain (replicate 62 (CHR ''a''))"
    "IsDNS1123Subdomain (om_Name (es_meta web_slice))" "IsLabelValue (Name web)"
    unfolding web_slice_def web_def by code_simp+
  have last: "\<not> dnsChar (last (localEndpointSliceName (replicate 62 (CHR ''a'')) (om_Name (es_meta web_slice))))"
    unfolding web_slice_def by code_simp
  have len: "length ''a.example'' + length (om_Name (es_meta web_slice)) < 63"
    by (simp add: web_slice_def)
  show ?thesis
    using mirror_valid_iff [of "NewWatcher ''b'' ''a.example'' [] []" web_slice web]
      mirror_valid_iff [of "NewWatcher ''b'' (replicate 62 (CHR ''a'')) [] []" web_slice web] safe last len
    by (auto simp: NewWatcher_def)
qed

text \<open>C35. A remote whose ID has a colon, as the host of a URL with a port has and every host of a
  kubeconfig with a scheme, is never mirrored by a server that validates: whatever the emitter
  sends and whatever else fails, the watcher adds no EndpointSlice to the local cluster.\<close>

theorem unsafe_remote_never_mirrored:
  assumes "validating_cluster c ex ex' sv sv' im im' sl sl' up valid_slice"
    and "\<And>s. sl (settle s) = sl s" and "CHR '':'' \<in> set (w_remoteID w)"
  shows "dom (sl (snd (run_events w fromSE fromES c settle evs (cd, s)))) \<subseteq> dom (sl s)"
  by (rule validating_cluster.run_dom [OF assms(1) _ assms(2)])
     (simp add: valid_desired_slice colon_invalid [OF assms(3)])

theorem unsafe_remote_never_mirrored_witness:
  "v_Slices (snd (run_events (NewWatcher ''b'' ''a.example:9090'' [] []) (\<lambda>_. None) Some strict_client sync
     [OnSlice (Added (Unstructured web_slice))] (None, empty_mem))) = Map.empty"
  using unsafe_remote_never_mirrored [OF strict_cluster.validating_cluster_axioms, of sync
      "NewWatcher ''b'' ''a.example:9090'' [] []" "\<lambda>_. None" Some "[OnSlice (Added (Unstructured web_slice))]" None empty_mem]
  by (simp add: sync_def NewWatcher_def empty_mem_def)

end
