(* ===== verification/Derived_Name.thy ===== *)
theory Derived_Name
  imports Api_Types
begin

unbundle bit_operations_syntax

text \<open>
  The name of a derived Service: \<open>localDerivedName\<close> of \<open>pkg/controller/common.go\<close> and
  \<open>derivedName\<close> of \<open>vendor/sigs.k8s.io/mcs-api/controllers/common.go\<close>, which it mirrors. Both take
  the SHA-256 of the namespaced name (FIPS 180-4), in the extended base 32 of RFC 4648 without
  padding, from the standard library.
\<close>

section \<open>SHA-256\<close>

type_synonym word32 = "32 word"

text \<open>The constants as the standard defines them: the first 32 bits of the fractional parts of the cube
  roots of the first 64 primes, and of the square roots of the first eight.\<close>

definition primes_to :: "int \<Rightarrow> int list" where
  "primes_to n = filter (\<lambda>p. list_all (\<lambda>d. p mod d \<noteq> 0) [2..p - 1]) [2..n]"

text \<open>The greatest \<open>r\<close> below \<open>2 ^ bits\<close> with \<open>r ^ k \<le> n\<close>, bit by bit.\<close>

definition int_root :: "nat \<Rightarrow> nat \<Rightarrow> int \<Rightarrow> int" where
  "int_root bits k n = fold (\<lambda>i r. if (r + 2 ^ i) ^ k \<le> n then r + 2 ^ i else r) (rev [0..<bits]) 0"

definition root_fraction :: "nat \<Rightarrow> int \<Rightarrow> word32" where
  "root_fraction k p = word_of_int (int_root 40 k (p * 2 ^ (32 * k)))"

definition sha_k :: "word32 list" where
  "sha_k = map (root_fraction 3) (primes_to 311)"

definition sha_init :: "word32 list" where
  "sha_init = map (root_fraction 2) (primes_to 19)"

text \<open>The message with a one bit, zeros up to 56 modulo 64, and its length in bits in eight bytes.\<close>

definition sha_pad :: "8 word list \<Rightarrow> 8 word list" where
  "sha_pad m =
     (let n = length m
      in m @ [0x80] @ replicate ((119 - n mod 64) mod 64) 0 @
         map (\<lambda>i. word_of_nat (8 * n div 256 ^ (7 - i))) [0..<8])"

definition be32 :: "8 word list \<Rightarrow> word32" where
  "be32 bs = fold (\<lambda>b w. push_bit 8 w OR ucast b) bs 0"

definition be_bytes :: "word32 \<Rightarrow> 8 word list" where
  "be_bytes w = map (\<lambda>i. ucast (drop_bit (24 - 8 * i) w)) [0..<4]"

definition chunk :: "nat \<Rightarrow> nat \<Rightarrow> 'a list \<Rightarrow> 'a list" where
  "chunk n i xs = take n (drop (n * i) xs)"

text \<open>The schedule is extended at its end, one word for each round after the sixteenth.\<close>

definition sha_extend :: "word32 list \<Rightarrow> word32 list" where
  "sha_extend w =
     (let t = length w;
          s0 = word_rotr 7 (w ! (t - 15)) XOR word_rotr 18 (w ! (t - 15)) XOR drop_bit 3 (w ! (t - 15));
          s1 = word_rotr 17 (w ! (t - 2)) XOR word_rotr 19 (w ! (t - 2)) XOR drop_bit 10 (w ! (t - 2))
      in w @ [w ! (t - 16) + s0 + w ! (t - 7) + s1])"

definition sha_schedule :: "8 word list \<Rightarrow> word32 list" where
  "sha_schedule blk = (sha_extend ^^ 48) (map (\<lambda>i. be32 (chunk 4 i blk)) [0..<16])"

type_synonym sha_vars =
  "word32 \<times> word32 \<times> word32 \<times> word32 \<times> word32 \<times> word32 \<times> word32 \<times> word32"

definition sha_round :: "word32 \<times> word32 \<Rightarrow> sha_vars \<Rightarrow> sha_vars" where
  "sha_round kw st =
     (case kw of (k, w) \<Rightarrow> case st of (a, b, c, d, e, f, g, h) \<Rightarrow>
        (let s1 = word_rotr 6 e XOR word_rotr 11 e XOR word_rotr 25 e;
             ch = (e AND f) XOR (NOT e AND g);
             t1 = h + s1 + ch + k + w;
             s0 = word_rotr 2 a XOR word_rotr 13 a XOR word_rotr 22 a;
             maj = (a AND b) XOR (a AND c) XOR (b AND c);
             t2 = s0 + maj
         in (t1 + t2, a, b, c, d + t1, e, f, g)))"

definition sha_block :: "8 word list \<Rightarrow> word32 list \<Rightarrow> word32 list" where
  "sha_block blk hs =
     (case fold sha_round (zip sha_k (sha_schedule blk))
             (hs ! 0, hs ! 1, hs ! 2, hs ! 3, hs ! 4, hs ! 5, hs ! 6, hs ! 7) of
        (a, b, c, d, e, f, g, h) \<Rightarrow>
          [hs ! 0 + a, hs ! 1 + b, hs ! 2 + c, hs ! 3 + d, hs ! 4 + e, hs ! 5 + f, hs ! 6 + g, hs ! 7 + h])"

definition sha256 :: "8 word list \<Rightarrow> 8 word list" where
  "sha256 m =
     (let p = sha_pad m
      in concat (map be_bytes
           (fold (\<lambda>i. sha_block (chunk 64 i p)) [0..<length p div 64] sha_init)))"

section \<open>Base 32\<close>

text \<open>\<open>base32.HexEncoding\<close>: the digits, and five bytes as eight characters; what is left over gives the
  characters that hold its bits.\<close>

definition hex_alphabet :: string where "hex_alphabet = ''0123456789ABCDEFGHIJKLMNOPQRSTUV''"

definition hex_digit :: "8 word \<Rightarrow> char" where
  "hex_digit w = hex_alphabet ! unat (w AND 31)"

definition base32_group :: "8 word \<Rightarrow> 8 word \<Rightarrow> 8 word \<Rightarrow> 8 word \<Rightarrow> 8 word \<Rightarrow> string" where
  "base32_group a b c d e =
     map hex_digit
       [drop_bit 3 a, push_bit 2 a OR drop_bit 6 b, drop_bit 1 b, push_bit 4 b OR drop_bit 4 c,
        push_bit 1 c OR drop_bit 7 d, drop_bit 2 d, push_bit 3 d OR drop_bit 5 e, e]"

fun base32_Encode :: "8 word list \<Rightarrow> string" where
  "base32_Encode (a # b # c # d # e # rest) = base32_group a b c d e @ base32_Encode rest"
| "base32_Encode [a, b, c, d] = take 7 (base32_group a b c d 0)"
| "base32_Encode [a, b, c] = take 5 (base32_group a b c 0 0)"
| "base32_Encode [a, b] = take 4 (base32_group a b 0 0 0)"
| "base32_Encode [a] = take 2 (base32_group a 0 0 0 0)"
| "base32_Encode [] = []"

section \<open>The two names\<close>

text \<open>\<open>strings.ToLower\<close> on ASCII, which is all the encoding has.\<close>

definition lower_char :: "char \<Rightarrow> char" where
  "lower_char x = (if 65 \<le> (of_char x :: nat) \<and> (of_char x :: nat) \<le> 90 then char_of (of_char x + 32 :: nat) else x)"

definition ToLower :: "string \<Rightarrow> string" where
  "ToLower s = map lower_char s"

definition bytes_of :: "string \<Rightarrow> 8 word list" where
  "bytes_of s = map of_char s"

definition localDerivedName :: "namespaced_name \<Rightarrow> string" where
  "localDerivedName nn =
     (let sum = sha256 (bytes_of (nn_String nn));
          encoded = base32_Encode sum
      in ''derived-'' @ ToLower (take 10 encoded))"

definition derivedName :: "namespaced_name \<Rightarrow> string" where
  "derivedName nn =
     ''derived-'' @ take 10 (ToLower (base32_Encode (sha256 (bytes_of (nn_String nn)))))"

section \<open>Lemmas\<close>

lemma length_sha_init: "length sha_init = 8"
proof -
  have "length (primes_to 19) = 8" by code_simp
  then show ?thesis by (simp add: sha_init_def)
qed

lemma length_sha_block [simp]: "length (sha_block blk hs) = 8"
  by (simp add: sha_block_def split: prod.split)

lemma length_sha_fold: "length hs = 8 \<Longrightarrow> length (fold (\<lambda>i. sha_block (g i)) is hs) = 8"
  by (induction "is" arbitrary: hs) simp_all

lemma length_be_bytes [simp]: "length (be_bytes w) = 4"
  by (simp add: be_bytes_def)

lemma length_concat_be_bytes: "length (concat (map be_bytes ws)) = 4 * length ws"
  by (induction ws) simp_all

lemma length_sha256: "length (sha256 m) = 32"
  by (simp add: sha256_def Let_def length_concat_be_bytes length_sha_fold length_sha_init)

lemma length_base32_group [simp]: "length (base32_group a b c d e) = 8"
  by (simp add: base32_group_def)

lemma base32_two: "xs \<noteq> [] \<Longrightarrow> 2 \<le> length (base32_Encode xs)"
  by (cases xs rule: base32_Encode.cases) simp_all

lemma base32_ten:
  assumes "5 < length xs"
  shows "10 \<le> length (base32_Encode xs)"
proof -
  obtain a b c d e rest where "xs = a # b # c # d # e # rest" "rest \<noteq> []"
    using assms by (cases xs rule: base32_Encode.cases) auto
  then show ?thesis using base32_two [of rest] by simp
qed

lemma hex_digit_in: "hex_digit w \<in> set hex_alphabet"
proof -
  have "w AND 31 \<le> 31" by (rule word_and_le1)
  then have "unat (w AND 31) \<le> 31" by (simp add: word_le_nat_alt)
  then show ?thesis unfolding hex_digit_def by (intro nth_mem) (simp add: hex_alphabet_def)
qed

lemma base32_digits: "set (base32_Encode xs) \<subseteq> set hex_alphabet"
proof -
  have g: "set (base32_group a b c d e) \<subseteq> set hex_alphabet" for a b c d e
    unfolding base32_group_def using hex_digit_in by (auto simp only: set_map)
  show ?thesis
    using set_take_subset [of _ "base32_group _ _ _ _ _"] g
    by (induction xs rule: base32_Encode.induct) (simp_all, blast+)
qed

text \<open>What RFC 1035 asks of the name of a Service.\<close>

definition lower_letter :: "char \<Rightarrow> bool" where
  "lower_letter x = (97 \<le> (of_char x :: nat) \<and> (of_char x :: nat) \<le> 122)"

definition decimal_digit :: "char \<Rightarrow> bool" where
  "decimal_digit x = (48 \<le> (of_char x :: nat) \<and> (of_char x :: nat) \<le> 57)"

definition dns_label :: "string \<Rightarrow> bool" where
  "dns_label s =
     (s \<noteq> [] \<and> length s \<le> 63 \<and> lower_letter (hd s) \<and>
      (lower_letter (last s) \<or> decimal_digit (last s)) \<and>
      list_all (\<lambda>x. lower_letter x \<or> decimal_digit x \<or> x = CHR ''-'') s)"

lemma lower_digit: "x \<in> set hex_alphabet \<Longrightarrow> lower_letter (lower_char x) \<or> decimal_digit (lower_char x)"
proof -
  have "list_all (\<lambda>x. lower_letter (lower_char x) \<or> decimal_digit (lower_char x)) hex_alphabet"
    by (simp add: hex_alphabet_def lower_letter_def decimal_digit_def lower_char_def)
  then show "x \<in> set hex_alphabet \<Longrightarrow> lower_letter (lower_char x) \<or> decimal_digit (lower_char x)"
    by (simp only: list_all_iff)
qed

section \<open>Properties\<close>

text \<open>C29. The name of the derived Service: what the repository computes is, for every namespace and name,
  what the multicluster controllers compute, and it is a valid name of a Service, an RFC 1035 label
  of eighteen characters.\<close>

theorem derived_name_agrees:
  "localDerivedName nn = derivedName nn \<and> dns_label (localDerivedName nn) \<and>
   length (localDerivedName nn) = 18"
proof -
  define d where "d = ToLower (take 10 (base32_Encode (sha256 (bytes_of (nn_String nn)))))"
  have name: "localDerivedName nn = ''derived-'' @ d"
    by (simp add: localDerivedName_def d_def Let_def)
  have len: "length d = 10"
    using base32_ten [of "sha256 (bytes_of (nn_String nn))"] by (simp add: d_def ToLower_def length_sha256)
  have chars: "lower_letter x \<or> decimal_digit x" if "x \<in> set d" for x
    using that set_take_subset [of 10 "base32_Encode (sha256 (bytes_of (nn_String nn)))"]
      base32_digits [of "sha256 (bytes_of (nn_String nn))"] lower_digit
    unfolding d_def ToLower_def set_map by blast
  have "d \<noteq> []" using len by auto
  then have "lower_letter (last d) \<or> decimal_digit (last d)" using chars [of "last d"] by simp
  then have "dns_label (''derived-'' @ d)"
    using len chars \<open>d \<noteq> []\<close> by (auto simp: dns_label_def list_all_iff) (simp_all add: lower_letter_def)
  then show ?thesis using len by (simp add: name derivedName_def d_def ToLower_def take_map)
qed

end
