(* ===== verification/Mcs_Reconcilers.thy ===== *)
theory Mcs_Reconcilers
  imports Mirror Derived_Name
begin

text \<open>
  The three reconcilers of \<open>vendor/sigs.k8s.io/mcs-api/controllers\<close> that \<open>pkg/controller/manager.go\<close> runs
  beside the watchers: the one of ServiceImports gives an import a derived Service, the one of
  Services writes the addresses of the derived Service into the import, and the one of EndpointSlices
  labels the slices of an import for its derived Service. Their further calls of the client,
  \<open>Update\<close>, \<open>Create\<close> of a Service and \<open>Status().Update\<close>, are the record \<open>mcs_client\<close> with the laws
  \<open>mcs_cluster\<close>. An update carries the resource version of the object that was read; in the model it
  names that object, and goes through only while the server still holds it.
\<close>

section \<open>The calls\<close>

record 'st mcs_client =
  mu_Import :: "service_import \<Rightarrow> service_import \<Rightarrow> 'st \<Rightarrow> go_error option \<times> 'st"
  mu_Slice :: "endpoint_slice \<Rightarrow> endpoint_slice \<Rightarrow> 'st \<Rightarrow> go_error option \<times> 'st"
  mu_Service :: "service \<Rightarrow> 'st \<Rightarrow> (go_error + service) \<times> 'st"
  mu_Status :: "service \<Rightarrow> service \<Rightarrow> 'st \<Rightarrow> go_error option \<times> 'st"

text \<open>\<open>mu_Import mc ob base\<close> updates to \<open>ob\<close> an object read as \<open>base\<close>; \<open>mu_Service\<close> returns the Service
  as the server filled it in.\<close>

section \<open>ServiceImports\<close>

definition DerivedServiceAnnotation :: string where
  "DerivedServiceAnnotation = ''multicluster.kubernetes.io/derived-service''"

definition serviceImportKind :: string where "serviceImportKind = ''ServiceImport''"

definition GroupVersion_String :: string where "GroupVersion_String = ''multicluster.x-k8s.io/v1beta1''"

definition servicePort :: "mcs_port \<Rightarrow> service_port" where
  "servicePort p =
     \<lparr>sp_Name = mp_Name p, sp_Protocol = mp_Protocol p, sp_AppProtocol = mp_AppProtocol p,
      sp_Port = mp_Port p, sp_TargetPort = IntVal 0, sp_NodePort = 0\<rparr>"

definition servicePorts :: "service_import \<Rightarrow> service_port slice" where
  "servicePorts si = Some (map servicePort (elems (si_Ports si)))"

definition shouldIgnoreImport :: "service_import \<Rightarrow> bool" where
  "shouldIgnoreImport si =
     (if om_DeletionTimestamp (si_meta si) \<noteq> None then True
      else if si_Type si \<noteq> ClusterSetIP then True
      else False)"

definition derived_annotation :: "service_import \<Rightarrow> string" where
  "derived_annotation si =
     (case om_Annotations (si_meta si) of None \<Rightarrow> '''' | Some a \<Rightarrow> get0 a DerivedServiceAnnotation)"

definition annotate_import :: "string \<Rightarrow> service_import \<Rightarrow> service_import" where
  "annotate_import name si =
     (let a = (case om_Annotations (si_meta si) of None \<Rightarrow> Map.empty | Some a \<Rightarrow> a)
      in si\<lparr>si_meta := (si_meta si)\<lparr>om_Annotations := Some (a(DerivedServiceAnnotation \<mapsto> name))\<rparr>\<rparr>)"

definition derived_service :: "namespaced_name \<Rightarrow> service_import \<Rightarrow> service" where
  "derived_service nn si =
     \<lparr>svc_meta = empty_meta\<lparr>om_Namespace := Namespace nn, om_Name := derived_annotation si,
        om_OwnerReferences := [\<lparr>or_APIVersion = GroupVersion_String, or_Kind = serviceImportKind,
          or_Name = Name nn, or_UID = om_UID (si_meta si)\<rparr>]\<rparr>,
      svc_Ports = servicePorts si, svc_ClusterIP = '''', svc_ClusterIPs = None, svc_SessionAffinity = '''',
      svc_SessionAffinityConfig = None, svc_IPFamilies = None, svc_Type = ''ClusterIP'',
      svc_LoadBalancer = []\<rparr>"

definition import_Reconcile ::
  "'st client \<Rightarrow> 'st mcs_client \<Rightarrow> namespaced_name \<Rightarrow> 'st \<Rightarrow> go_error option \<times> 'st" where
  "import_Reconcile c mc nn s =
     (case cl_Get (cl_Imports c) nn s of
        (Inl err, s1) \<Rightarrow> (ignoreNotFound err, s1)
      | (Inr si, s1) \<Rightarrow>
          if shouldIgnoreImport si then (None, s1)
          else if derived_annotation si = ''''
          then (case mu_Import mc (annotate_import (derivedName nn) si) si s1 of
                  (Some err, s2) \<Rightarrow> (Some err, s2)
                | (None, s2) \<Rightarrow> (None, s2))
          else
            (case cl_Get (cl_Services c) (NamespacedName (Namespace nn) (derived_annotation si)) s1 of
               (Inr _, s2) \<Rightarrow> (None, s2)
             | (Inl err, s2) \<Rightarrow>
                 if \<not> isNotFound err then (Some err, s2)
                 else
                   (case mu_Service mc (derived_service nn si) s2 of
                      (Inl err, s3) \<Rightarrow> (Some err, s3)
                    | (Inr svc, s3) \<Rightarrow>
                        if elems (si_IPs si) = [] then (None, s3)
                        else
                          (case mu_Status mc (svc\<lparr>svc_LoadBalancer := elems (si_IPs si)\<rparr>) svc s3 of
                             (Some err, s4) \<Rightarrow> (Some err, s4)
                           | (None, s4) \<Rightarrow> (None, s4)))))"

section \<open>Services\<close>

fun serviceImportOwner :: "owner_reference list \<Rightarrow> string" where
  "serviceImportOwner [] = ''''"
| "serviceImportOwner (ref # refs) =
     (if or_APIVersion ref = GroupVersion_String \<and> or_Kind ref = serviceImportKind then or_Name ref
      else serviceImportOwner refs)"

text \<open>The first two addresses; a slice of nil is nil.\<close>

definition desiredIPs :: "service \<Rightarrow> string slice" where
  "desiredIPs svc =
     (if svc_ClusterIP svc = ClusterIPNone then Some []
      else map_option (take (min 2 (length (elems (svc_ClusterIPs svc))))) (svc_ClusterIPs svc))"

definition service_Reconcile ::
  "'st client \<Rightarrow> 'st mcs_client \<Rightarrow> namespaced_name \<Rightarrow> 'st \<Rightarrow> go_error option \<times> 'st" where
  "service_Reconcile c mc nn s =
     (case cl_Get (cl_Services c) nn s of
        (Inl err, s1) \<Rightarrow> (ignoreNotFound err, s1)
      | (Inr svc, s1) \<Rightarrow>
          if om_DeletionTimestamp (svc_meta svc) \<noteq> None then (None, s1)
          else
            (let importName = serviceImportOwner (om_OwnerReferences (svc_meta svc))
             in if importName = '''' then (None, s1)
                else
                  (case cl_Get (cl_Imports c) (NamespacedName (Namespace nn) importName) s1 of
                     (Inl err, s2) \<Rightarrow> (Some err, s2)
                   | (Inr si, s2) \<Rightarrow>
                       if elems (desiredIPs svc) = elems (si_IPs si) then (None, s2)
                       else
                         (case mu_Import mc (si\<lparr>si_IPs := desiredIPs svc\<rparr>) si s2 of
                            (Some err, s3) \<Rightarrow> (Some err, s3)
                          | (None, s3) \<Rightarrow> (None, s3)))))"

section \<open>EndpointSlices\<close>

definition relabel_slice :: "string \<Rightarrow> endpoint_slice \<Rightarrow> endpoint_slice" where
  "relabel_slice name es =
     es\<lparr>es_meta := (es_meta es)\<lparr>om_Labels := (om_Labels (es_meta es))(LabelServiceName \<mapsto> name)\<rparr>\<rparr>"

definition slice_Reconcile ::
  "'st client \<Rightarrow> 'st mcs_client \<Rightarrow> namespaced_name \<Rightarrow> 'st \<Rightarrow> go_error option \<times> 'st" where
  "slice_Reconcile c mc nn s =
     (case cl_Get (cl_Slices c) nn s of
        (Inl err, s1) \<Rightarrow> (ignoreNotFound err, s1)
      | (Inr es, s1) \<Rightarrow>
          if mcs_shouldIgnoreEndpointSlice es then (None, s1)
          else
            (let serviceName = derivedName (NamespacedName (om_Namespace (es_meta es))
                   (get0 (om_Labels (es_meta es)) McsLabelServiceName))
             in if get0 (om_Labels (es_meta es)) LabelServiceName = serviceName then (None, s1)
                else
                  (case mu_Slice mc (relabel_slice serviceName es) es s1 of
                     (Some err, s2) \<Rightarrow> (Some err, s2)
                   | (None, s2) \<Rightarrow> (None, s2))))"

section \<open>What they leave alone\<close>

lemma annotate_import_facts [simp]:
  "si_key (annotate_import name si) = si_key si" "import_view (annotate_import name si) = import_view si"
  "si_Ports (annotate_import name si) = si_Ports si" "si_IPs (annotate_import name si) = si_IPs si"
  "derived_annotation (annotate_import name si) = name"
  "shouldIgnoreImport (annotate_import name si) = shouldIgnoreImport si"
  by (simp_all add: annotate_import_def Let_def si_key_def om_key_def import_view_def derived_annotation_def
      shouldIgnoreImport_def)

lemma ips_import_facts [simp]:
  "si_key (si\<lparr>si_IPs := ips\<rparr>) = si_key si" "import_view (si\<lparr>si_IPs := ips\<rparr>) = import_view si"
  by (simp_all add: si_key_def import_view_def)

lemma relabel_key [simp]: "es_key (relabel_slice name es) = es_key es"
  by (simp add: relabel_slice_def es_key_def om_key_def)

text \<open>The ports of a derived Service are those of the import.\<close>

lemma localServicePorts_derived:
  "elems (localServicePorts (derived_service nn si)) = elems (si_Ports si)"
proof -
  have "localServicePort (servicePort p) = p" for p
    by (simp add: localServicePort_def servicePort_def)
  then show ?thesis by (simp add: localServicePorts_def derived_service_def servicePorts_def comp_def)
qed

section \<open>The laws of the calls\<close>

text \<open>What the server keeps of a Service it is asked to create: it fills in addresses, families and
  node ports.\<close>

definition allocated :: "service \<Rightarrow> service \<Rightarrow> bool" where
  "allocated ob svc =
     (svc_key svc = svc_key ob \<and> om_OwnerReferences (svc_meta svc) = om_OwnerReferences (svc_meta ob) \<and>
      om_DeletionTimestamp (svc_meta svc) = None \<and> svc_Type svc = svc_Type ob \<and>
      elems (localServicePorts svc) = elems (localServicePorts ob))"

locale mcs_cluster = cluster_api +
  fixes mc :: "'a mcs_client"
  assumes Import_outcome: "write_outcome (fst (mu_Import mc ob base s)) (im s) (im (snd (mu_Import mc ob base s)))
      (si_key ob) (im s (si_key ob) = Some base) (Some ob)"
    and Import_frame: "im' (snd (mu_Import mc ob base s)) = im' s"
      "rest_of_imports (snd (mu_Import mc ob base s)) = rest_of_imports s"
    and Import_up: "up s \<Longrightarrow> im s (si_key ob) = Some base \<Longrightarrow> fst (mu_Import mc ob base s) = None"
      "up s \<Longrightarrow> up (snd (mu_Import mc ob base s))"
    and Slice_outcome: "write_outcome (fst (mu_Slice mc es es0 s)) (sl s) (sl (snd (mu_Slice mc es es0 s)))
      (es_key es) (sl s (es_key es) = Some es0) (Some es)"
    and Slice_frame: "rest_of_slices (snd (mu_Slice mc es es0 s)) = rest_of_slices s"
    and Slice_up: "up s \<Longrightarrow> up (snd (mu_Slice mc es es0 s))"
    and Service_outcome:
      "case fst (mu_Service mc svc s) of
         Inr svc1 \<Rightarrow> sv s (svc_key svc) = None \<and> allocated svc svc1 \<and>
           sv (snd (mu_Service mc svc s)) = (sv s)(svc_key svc \<mapsto> svc1)
       | Inl _ \<Rightarrow> sv (snd (mu_Service mc svc s)) = sv s \<or>
           (sv s (svc_key svc) = None \<and>
            (\<exists>svc1. allocated svc svc1 \<and> sv (snd (mu_Service mc svc s)) = (sv s)(svc_key svc \<mapsto> svc1)))"
    and Service_frame: "(ex (snd (mu_Service mc svc s)), im (snd (mu_Service mc svc s)), sl (snd (mu_Service mc svc s))) =
      (ex s, im s, sl s)"
    and Service_up: "up s \<Longrightarrow> sv s (svc_key svc) = None \<Longrightarrow> \<exists>svc1. fst (mu_Service mc svc s) = Inr svc1"
      "up s \<Longrightarrow> up (snd (mu_Service mc svc s))"
    and Status_outcome: "write_outcome (fst (mu_Status mc svc svc0 s)) (sv s) (sv (snd (mu_Status mc svc svc0 s)))
      (svc_key svc) (sv s (svc_key svc) = Some svc0) (Some svc)"
    and Status_frame: "(ex (snd (mu_Status mc svc svc0 s)), im (snd (mu_Status mc svc svc0 s)), sl (snd (mu_Status mc svc svc0 s))) =
      (ex s, im s, sl s)"
    and Status_up: "up s \<Longrightarrow> sv s (svc_key svc) = Some svc0 \<Longrightarrow> fst (mu_Status mc svc svc0 s) = None"
      "up s \<Longrightarrow> up (snd (mu_Status mc svc svc0 s))"
begin

text \<open>An update of an import that shows what the object read shows changes no view.\<close>

lemma Import_views:
  assumes "si_key ob = si_key base" "import_view ob = import_view base"
  shows "map_option import_view \<circ> im (snd (mu_Import mc ob base s)) = map_option import_view \<circ> im s"
proof -
  have "im (snd (mu_Import mc ob base s)) = im s \<or>
      im s (si_key base) = Some base \<and> im (snd (mu_Import mc ob base s)) = (im s)(si_key base \<mapsto> ob)"
    using Import_outcome [of ob base s] assms by (auto simp: write_outcome_def split: if_splits)
  then show ?thesis using assms(2) by auto
qed

text \<open>Slices without the label of the multicluster API.\<close>

definition unlabelled :: "'a \<Rightarrow> bool" where
  "unlabelled s = (\<forall>k es. sl s k = Some es \<longrightarrow> mcs_shouldIgnoreEndpointSlice es)"

lemma Slice_unlabelled:
  assumes "unlabelled s" "\<not> mcs_shouldIgnoreEndpointSlice es0" "es_key es = es_key es0"
  shows "sl (snd (mu_Slice mc es es0 s)) = sl s"
  using Slice_outcome [of es es0 s] assms by (auto simp: write_outcome_def unlabelled_def split: if_splits)

lemma frames:
  "sl (snd (mu_Import mc ob base s)) = sl s" "ex (snd (mu_Import mc ob base s)) = ex s"
  "im (snd (mu_Slice mc es es0 s)) = im s" "ex (snd (mu_Slice mc es es0 s)) = ex s"
  "im (snd (mu_Service mc svc s)) = im s" "sl (snd (mu_Service mc svc s)) = sl s"
  "ex (snd (mu_Service mc svc s)) = ex s"
  "im (snd (mu_Status mc svc svc0 s)) = im s" "sl (snd (mu_Status mc svc svc0 s)) = sl s"
  "ex (snd (mu_Status mc svc svc0 s)) = ex s"
  using Import_frame(2) [of ob base s] Slice_frame [of es es0 s] Service_frame [of svc s] Status_frame [of svc svc0 s]
  by simp_all

lemmas gets = imps.call_frames slcs.call_frames svcs.call_frames cluster_frames frames

lemma import_Reconcile_views:
  "map_option import_view \<circ> im (snd (import_Reconcile c mc nn s)) = map_option import_view \<circ> im s \<and>
   sl (snd (import_Reconcile c mc nn s)) = sl s \<and> ex (snd (import_Reconcile c mc nn s)) = ex s"
  by (simp add: import_Reconcile_def split_beta gets Import_views split: sum.split option.split)

lemma service_Reconcile_views:
  "map_option import_view \<circ> im (snd (service_Reconcile c mc nn s)) = map_option import_view \<circ> im s \<and>
   sl (snd (service_Reconcile c mc nn s)) = sl s \<and> ex (snd (service_Reconcile c mc nn s)) = ex s"
  by (simp add: service_Reconcile_def split_beta Let_def gets Import_views split: sum.split option.split)

lemma slice_Reconcile_views:
  assumes "unlabelled s"
  shows "im (snd (slice_Reconcile c mc nn s)) = im s \<and> ex (snd (slice_Reconcile c mc nn s)) = ex s \<and>
    sl (snd (slice_Reconcile c mc nn s)) = sl s"
proof -
  have "unlabelled (snd (cl_Get (cl_Slices c) nn s))" using assms by (simp add: unlabelled_def gets)
  from Slice_unlabelled [OF this] show ?thesis
    by (simp add: slice_Reconcile_def split_beta Let_def gets split: sum.split option.split)
qed

lemma Reconcile_up:
  assumes "up s"
  shows "up (snd (import_Reconcile c mc nn s))" "up (snd (service_Reconcile c mc nn s))"
    "up (snd (slice_Reconcile c mc nn s))"
  using assms Import_up(2) Slice_up Service_up(2) Status_up(2) imps.up_after(1) svcs.up_after(1) slcs.up_after(1)
  by (simp_all add: import_Reconcile_def service_Reconcile_def slice_Reconcile_def split_beta Let_def
      split: sum.split option.split)

end

section \<open>Watchers and reconcilers together\<close>

text \<open>The controllers of a cluster: the handlers of the watchers and the requests of the three
  reconcilers, in the order in which they run.\<close>

datatype 'u controller_event =
  FromWatcher watcher "'u watch_event"
| ImportRequest namespaced_name
| ServiceRequest namespaced_name
| SliceRequest namespaced_name

definition controller_step ::
  "('u \<Rightarrow> service_export option) \<Rightarrow> ('u \<Rightarrow> endpoint_slice option) \<Rightarrow> 'st client \<Rightarrow> 'st mcs_client \<Rightarrow>
   'u informer_obj controller_event \<Rightarrow> detector option \<times> 'st \<Rightarrow> detector option \<times> 'st" where
  "controller_step fromSE fromES c mc ev st =
     (case ev of
        FromWatcher w e \<Rightarrow> dispatch w fromSE fromES c e st
      | ImportRequest nn \<Rightarrow> (fst st, snd (import_Reconcile c mc nn (snd st)))
      | ServiceRequest nn \<Rightarrow> (fst st, snd (service_Reconcile c mc nn (snd st)))
      | SliceRequest nn \<Rightarrow> (fst st, snd (slice_Reconcile c mc nn (snd st))))"

fun run_controllers ::
  "('u \<Rightarrow> service_export option) \<Rightarrow> ('u \<Rightarrow> endpoint_slice option) \<Rightarrow> 'st client \<Rightarrow> 'st mcs_client \<Rightarrow>
   ('st \<Rightarrow> 'st) \<Rightarrow> 'u informer_obj controller_event list \<Rightarrow> detector option \<times> 'st \<Rightarrow> detector option \<times> 'st" where
  "run_controllers fromSE fromES c mc settle [] st = st"
| "run_controllers fromSE fromES c mc settle (ev # evs) st =
     (case controller_step fromSE fromES c mc ev st of
        (cd, s) \<Rightarrow> run_controllers fromSE fromES c mc settle evs (cd, settle s))"

text \<open>What they are to do to the mirror: the watchers their part, the reconcilers nothing.\<close>

definition spec_controller ::
  "('u \<Rightarrow> service_export option) \<Rightarrow> ('u \<Rightarrow> endpoint_slice option) \<Rightarrow> 'u informer_obj controller_event \<Rightarrow>
   mirror \<Rightarrow> mirror" where
  "spec_controller fromSE fromES ev m =
     (case ev of FromWatcher w e \<Rightarrow> spec_event w fromSE fromES e m | _ \<Rightarrow> m)"

text \<open>No mirror carries the label of the multicluster API, and none ever gets it.\<close>

definition plain_labels :: "mirror \<Rightarrow> bool" where
  "plain_labels m = (\<forall>k v. snd m k = Some v \<longrightarrow> get0 (fst v) McsLabelServiceName = '''')"

lemma mirror_labels_plain [simp]: "get0 (mirror_labels w owner) McsLabelServiceName = ''''"
  by (simp add: mirror_labels_def api_const_defs get0_def)

lemma plain_spec: "plain_labels m \<Longrightarrow> plain_labels (spec_controller fromSE fromES ev m)"
  by (auto simp: plain_labels_def spec_controller_def spec_event_def spec_export_def spec_unexport_def spec_slice_def
      spec_unslice_def split: controller_event.split watch_event.split notification.split option.split sum.split
      if_splits)

locale mcs_synced = synced_cluster + mcs_cluster
begin

lemma plain_unlabelled: "plain_labels (mirror_view (im s) (sl s)) \<Longrightarrow> unlabelled s"
  by (fastforce simp: plain_labels_def mirror_view_def unlabelled_def slice_view_def mcs_shouldIgnoreEndpointSlice_def)

lemma controller_step_refines:
  assumes "in_sync s" "plain_labels (mirror_view (im s) (sl s))"
    and "controller_step fromSE fromES c mc ev (cd, s) = (cd1, s1)"
  shows "up s1 \<and> mirror_view (im s1) (sl s1) = spec_controller fromSE fromES ev (mirror_view (im s) (sl s))"
proof (cases "\<exists>w e. ev = FromWatcher w e")
  case True
  then obtain w e where ev: "ev = FromWatcher w e" by blast
  then have "dispatch w fromSE fromES c e (cd, s) = (cd1, s1)" using assms(3) by (simp add: controller_step_def)
  from dispatch_refines [OF assms(1) this] show ?thesis by (simp add: spec_controller_def ev)
next
  case False
  have up: "up s" using assms(1) by (simp add: in_sync_def)
  show ?thesis
    using False assms(3) Reconcile_up [OF up] import_Reconcile_views service_Reconcile_views
      slice_Reconcile_views [OF plain_unlabelled [OF assms(2)]]
    by (cases ev) (auto simp: controller_step_def spec_controller_def mirror_view_def)
qed

lemma controllers_refine:
  assumes "in_sync s" "plain_labels (mirror_view (im s) (sl s))"
  shows "mirror_view (im (snd (run_controllers fromSE fromES c mc settle evs (cd, s))))
      (sl (snd (run_controllers fromSE fromES c mc settle evs (cd, s)))) =
    fold (spec_controller fromSE fromES) evs (mirror_view (im s) (sl s)) \<and>
    unlabelled (snd (run_controllers fromSE fromES c mc settle evs (cd, s)))"
  using assms
proof (induction evs arbitrary: cd s)
  case (Cons ev evs)
  obtain cd1 s1 where d: "controller_step fromSE fromES c mc ev (cd, s) = (cd1, s1)" by fastforce
  note r = controller_step_refines [OF Cons.prems d]
  have "in_sync (settle s1)" "plain_labels (mirror_view (im (settle s1)) (sl (settle s1)))"
    using r plain_spec [OF Cons.prems(2)] by (simp_all add: in_sync_def settle_stored settle_cached settle_up)
  from Cons.IH [OF this] d r show ?case by (simp add: settle_stored)
qed (simp add: plain_unlabelled)

text \<open>An import gets its derived Service in two rounds: the first notes the name, the second creates
  the Service, whose addresses a round of the Service reconciler then writes into the import.\<close>

lemma first_round:
  assumes s: "up s" "im' s = im s" and si: "im s nn = Some si" "\<not> shouldIgnoreImport si" "derived_annotation si = ''''"
  shows "im (snd (import_Reconcile c mc nn s)) = (im s)(nn \<mapsto> annotate_import (derivedName nn) si) \<and>
    sv (snd (import_Reconcile c mc nn s)) = sv s"
proof -
  have key: "si_key si = nn" using imps.cached_key [of s nn si] s(2) si(1) by simp
  let ?s1 = "snd (cl_Get (cl_Imports c) nn s)" and ?ob = "annotate_import (derivedName nn) si"
  have get: "fst (cl_Get (cl_Imports c) nn s) = Inr si" using imps.up_Get [OF s(1)] s(2) si(1) by simp
  have s1: "up ?s1" "im ?s1 = im s" "sv ?s1 = sv s" using imps.up_after(1) [OF s(1)] by (simp_all add: gets)
  have ok: "fst (mu_Import mc ?ob si ?s1) = None" using Import_up(1) [OF s1(1), of ?ob si] s1(2) si(1) key by simp
  then have "im (snd (mu_Import mc ?ob si ?s1)) = (im s)(nn \<mapsto> ?ob)"
    using Import_outcome [of ?ob si ?s1] s1(2) key by (simp add: write_outcome_def)
  moreover have "sv (snd (mu_Import mc ?ob si ?s1)) = sv s" using Import_frame(2) [of ?ob si ?s1] s1(3) by simp
  ultimately show ?thesis using ok get si(2,3) by (simp add: import_Reconcile_def split_beta)
qed

lemma second_round:
  assumes s: "up s" "im' s = im s" "sv' s = sv s"
    and si: "im s nn = Some si" "\<not> shouldIgnoreImport si" "derived_annotation si \<noteq> ''''"
    and free: "sv s (NamespacedName (Namespace nn) (derived_annotation si)) = None"
  shows "im (snd (import_Reconcile c mc nn s)) = im s \<and>
    (\<exists>svc. sv (snd (import_Reconcile c mc nn s)) = (sv s)(NamespacedName (Namespace nn) (derived_annotation si) \<mapsto> svc) \<and>
      allocated (derived_service nn si) svc)"
proof -
  let ?k = "NamespacedName (Namespace nn) (derived_annotation si)" and ?ob = "derived_service nn si"
  let ?s1 = "snd (cl_Get (cl_Imports c) nn s)"
  let ?s2 = "snd (cl_Get (cl_Services c) ?k ?s1)"
  have key: "svc_key ?ob = ?k" by (simp add: svc_key_def om_key_def derived_service_def)
  have get: "fst (cl_Get (cl_Imports c) nn s) = Inr si" using imps.up_Get [OF s(1)] s(2) si(1) by simp
  have s1: "up ?s1" "im ?s1 = im s" "sv ?s1 = sv s" "sv' ?s1 = sv s"
    using imps.up_after(1) [OF s(1)] imps.Get_others [of nn s] s(3) by (simp_all add: gets)
  have get2: "fst (cl_Get (cl_Services c) ?k ?s1) = Inl (ApiError ReasonNotFound)"
    using svcs.up_Get [OF s1(1)] s1(4) free by simp
  have s2: "up ?s2" "im ?s2 = im s" "sv ?s2 = sv s" using svcs.up_after(1) [OF s1(1)] s1 by (simp_all add: gets)
  obtain svc where svc: "fst (mu_Service mc ?ob ?s2) = Inr svc"
    using Service_up(1) [OF s2(1), of ?ob] s2(3) free key by auto
  let ?s3 = "snd (mu_Service mc ?ob ?s2)"
  have s3: "sv ?s3 = (sv s)(?k \<mapsto> svc)" "allocated ?ob svc" "im ?s3 = im s"
    using Service_outcome [of ?ob ?s2] svc s2 key by (simp_all add: frames)
  have k3: "svc_key svc = ?k" using s3(2) key by (simp add: allocated_def)
  let ?st = "svc\<lparr>svc_LoadBalancer := elems (si_IPs si)\<rparr>"
  have kst: "svc_key ?st = ?k" using k3 by (simp add: svc_key_def)
  have ok: "fst (mu_Status mc ?st svc ?s3) = None"
    using Status_up(1) [OF Service_up(2) [OF s2(1)], of ?ob ?st svc] s3(1) kst by simp
  then have s4: "sv (snd (mu_Status mc ?st svc ?s3)) = (sv s)(?k \<mapsto> ?st)"
    using Status_outcome [of ?st svc ?s3] s3(1) kst by (simp add: write_outcome_def)
  have "allocated ?ob ?st" using s3(2) by (simp add: allocated_def svc_key_def localServicePorts_def)
  then show ?thesis
    using get get2 svc s3 s4 ok si(2,3) by (auto simp: import_Reconcile_def split_beta frames)
qed

end

section \<open>The laws on the concrete API\<close>

definition mem_update ::
  "('o \<Rightarrow> namespaced_name) \<Rightarrow> (mem \<Rightarrow> namespaced_name \<rightharpoonup> 'o) \<Rightarrow> ((namespaced_name \<rightharpoonup> 'o) \<Rightarrow> mem \<Rightarrow> mem) \<Rightarrow>
   'o \<Rightarrow> 'o \<Rightarrow> mem \<Rightarrow> go_error option \<times> mem" where
  "mem_update key view put ob base =
     write_call key view put (key ob)
       (\<lambda>cur. if cur = Some base then Inr (Some ob) else Inl (ApiError ReasonConflict))"

definition allocate :: "service \<Rightarrow> service" where
  "allocate ob = ob\<lparr>svc_meta := (svc_meta ob)\<lparr>om_DeletionTimestamp := None\<rparr>,
     svc_ClusterIP := ''10.0.0.9'', svc_ClusterIPs := Some [''10.0.0.9'']\<rparr>"

definition mem_mcs :: "mem mcs_client" where
  "mem_mcs =
     \<lparr>mu_Import = mem_update si_key m_Imports (\<lambda>m s. s\<lparr>m_Imports := m\<rparr>),
      mu_Slice = mem_update es_key m_Slices (\<lambda>m s. s\<lparr>m_Slices := m\<rparr>),
      mu_Service = (\<lambda>ob s.
        (case write_call svc_key m_Services (\<lambda>m s. s\<lparr>m_Services := m\<rparr>) (svc_key ob)
            (\<lambda>cur. if cur = None then Inr (Some (allocate ob)) else Inl (ApiError ReasonAlreadyExists)) s of
           (None, s1) \<Rightarrow> (Inr (allocate ob), s1)
         | (Some e, s1) \<Rightarrow> (Inl e, s1))),
      mu_Status = mem_update svc_key m_Services (\<lambda>m s. s\<lparr>m_Services := m\<rparr>)\<rparr>"

lemma allocate_allocated: "allocated ob (allocate ob)" "svc_key (allocate ob) = svc_key ob"
  by (simp_all add: allocated_def allocate_def svc_key_def om_key_def localServicePorts_def)

lemma mem_mcs_sel:
  "mu_Import mem_mcs = mem_update si_key m_Imports (\<lambda>m s. s\<lparr>m_Imports := m\<rparr>)"
  "mu_Slice mem_mcs = mem_update es_key m_Slices (\<lambda>m s. s\<lparr>m_Slices := m\<rparr>)"
  "mu_Status mem_mcs = mem_update svc_key m_Services (\<lambda>m s. s\<lparr>m_Services := m\<rparr>)"
  by (simp_all add: mem_mcs_def)

context mem_lens
begin

lemma update_laws:
  "write_outcome (fst (mem_update key view put ob base s)) (stored_view s)
     (stored_view (snd (mem_update key view put ob base s))) (key ob) (stored_view s (key ob) = Some base) (Some ob)"
  "rest (snd (mem_update key view put ob base s)) = rest s"
  "cache (snd (mem_update key view put ob base s)) = cache s"
  "m_up s \<Longrightarrow> m_up (snd (mem_update key view put ob base s))"
  "m_up s \<Longrightarrow> stored_view s (key ob) = Some base \<Longrightarrow> fst (mem_update key view put ob base s) = None"
proof -
  note c = mem_update_def
  show "write_outcome (fst (mem_update key view put ob base s)) (stored_view s)
     (stored_view (snd (mem_update key view put ob base s))) (key ob) (stored_view s (key ob) = Some base) (Some ob)"
    unfolding c by (rule write_call_outcome) (auto split: if_splits)
  show "rest (snd (mem_update key view put ob base s)) = rest s"
    "cache (snd (mem_update key view put ob base s)) = cache s"
    "m_up s \<Longrightarrow> m_up (snd (mem_update key view put ob base s))"
    by (simp_all add: c write_call_frame write_call_up)
  show "m_up s \<Longrightarrow> stored_view s (key ob) = Some base \<Longrightarrow> fst (mem_update key view put ob base s) = None"
    unfolding c by (rule write_call_succeeds) simp_all
qed

end

text \<open>A Service is created with what the server fills in.\<close>

lemma create_service_outcome:
  fixes ob s
  defines "r \<equiv> mu_Service mem_mcs ob s"
  shows "(case fst r of
       Inr svc \<Rightarrow> v_Services s (svc_key ob) = None \<and> allocated ob svc \<and> v_Services (snd r) = (v_Services s)(svc_key ob \<mapsto> svc)
     | Inl _ \<Rightarrow> v_Services (snd r) = v_Services s)"
    and "v_Exports (snd r) = v_Exports s" "v_Imports (snd r) = v_Imports s" "v_Slices (snd r) = v_Slices s"
    and "m_up s \<Longrightarrow> m_up (snd r)"
    and "m_up s \<Longrightarrow> v_Services s (svc_key ob) = None \<Longrightarrow> \<exists>svc. fst r = Inr svc"
proof -
  let ?ch = "\<lambda>cur. if cur = None then Inr (Some (allocate ob)) else Inl (ApiError ReasonAlreadyExists)"
  let ?w = "write_call svc_key m_Services (\<lambda>m s. s\<lparr>m_Services := m\<rparr>) (svc_key ob) ?ch s"
  have r: "r = (case ?w of (None, s1) \<Rightarrow> (Inr (allocate ob), s1) | (Some e, s1) \<Rightarrow> (Inl e, s1))"
    by (simp add: r_def mem_mcs_def)
  have out: "write_outcome (fst ?w) (v_Services s) (v_Services (snd ?w)) (svc_key ob)
      (v_Services s (svc_key ob) = None) (Some (allocate ob))"
    by (rule mem_services.write_call_outcome) (auto simp: allocate_allocated split: if_splits)
  have fail: "fst ?w = Some e \<Longrightarrow> v_Services (snd ?w) = v_Services s" for e
    by (cases rule: mem_services.write_call_cases [of "svc_key ob" ?ch s]) (simp_all add: mem_services.fault_frame)
  show "(case fst r of
       Inr svc \<Rightarrow> v_Services s (svc_key ob) = None \<and> allocated ob svc \<and> v_Services (snd r) = (v_Services s)(svc_key ob \<mapsto> svc)
     | Inl _ \<Rightarrow> v_Services (snd r) = v_Services s)"
    using out fail by (cases ?w) (auto simp: r write_outcome_def allocate_allocated split: option.split)
  have snd: "snd r = snd ?w" by (simp add: r split: prod.split option.split)
  show "v_Exports (snd r) = v_Exports s" "v_Imports (snd r) = v_Imports s" "v_Slices (snd r) = v_Slices s"
    "m_up s \<Longrightarrow> m_up (snd r)"
    using mem_services.write_call_frame [of "svc_key ob" ?ch s] mem_services.write_call_up [of s "svc_key ob" ?ch]
    by (simp_all add: snd)
  show "m_up s \<Longrightarrow> v_Services s (svc_key ob) = None \<Longrightarrow> \<exists>svc. fst r = Inr svc"
    using mem_services.write_call_succeeds [of s ?ch "svc_key ob"] by (auto simp: r split: prod.split)
qed

interpretation mem_mcs: mcs_synced mem_client v_Exports vc_Exports v_Services vc_Services
  v_Imports vc_Imports v_Slices vc_Slices m_up sync mem_mcs
proof (unfold_locales, goal_cases)
  case (9 svc s)
  show ?case using create_service_outcome(1) [of svc s] by (auto split: sum.splits)
next
  case (11 s svc)
  then show ?case using create_service_outcome(6) by blast
qed (use mem_imports.update_laws mem_slices.update_laws mem_services.update_laws create_service_outcome in
    \<open>simp_all add: mem_mcs_sel\<close>)

end
