(* ===== verification/Derived_Service.thy ===== *)
theory Derived_Service
  imports Mcs_Reconcilers Examples
begin

text \<open>
  What comes of an imported service when the watchers (\<open>pkg/controller/watcher.go\<close>) and the reconcilers of
  \<open>vendor/sigs.k8s.io/mcs-api/controllers\<close> run side by side: the derived Service of an import and its addresses,
  what becomes of it when the import changes, and its endpoints.
\<close>

section \<open>Existing Services\<close>

context mcs_cluster
begin

text \<open>No controller changes a Service that exists, whatever fails and however stale the caches are.\<close>

lemma Service_kept: "sv s k = Some svc \<Longrightarrow> sv (snd (mu_Service mc ob s)) k = Some svc"
  using Service_outcome [of ob s] by (cases "fst (mu_Service mc ob s)") auto

lemma created_then_Status_kept:
  assumes "fst (mu_Service mc ob s) = Inr svc1" "sv s k = Some svc" "svc_key svc2 = svc_key svc1"
  shows "sv (snd (mu_Status mc svc2 svc1 (snd (mu_Service mc ob s)))) k = Some svc"
proof -
  let ?s1 = "snd (mu_Service mc ob s)"
  have new: "sv s (svc_key ob) = None" "sv ?s1 = (sv s)(svc_key ob \<mapsto> svc1)" "svc_key svc1 = svc_key ob"
    using Service_outcome [of ob s] assms(1) by (simp_all add: allocated_def)
  then have "k \<noteq> svc_key ob" using assms(2) by auto
  then show ?thesis
    using write_outcome_frame [OF Status_outcome [of svc2 svc1 ?s1], of k] new assms(2,3) by simp
qed

lemma sv_frames:
  "sv (snd (mu_Import mc ob base s)) = sv s" "sv (snd (mu_Slice mc es es0 s)) = sv s"
  using Import_frame(2) [of ob base s] Slice_frame [of es es0 s] by simp_all

lemma Reconcile_services_kept:
  assumes "sv s k = Some svc"
  shows "sv (snd (import_Reconcile c mc nn s)) k = Some svc" "sv (snd (service_Reconcile c mc nn s)) k = Some svc"
    "sv (snd (slice_Reconcile c mc nn s)) k = Some svc"
proof -
  have "sv (snd (cl_Get (cl_Services c) k' (snd (cl_Get (cl_Imports c) nn s)))) k = Some svc" for k'
    using assms by (simp add: gets)
  note kept = Service_kept [OF this] created_then_Status_kept [OF _ this]
  have key: "svc_key (svc1\<lparr>svc_LoadBalancer := ips\<rparr>) = svc_key svc1" for svc1 ips by (simp add: svc_key_def)
  show "sv (snd (import_Reconcile c mc nn s)) k = Some svc"
    using assms by (simp add: import_Reconcile_def split_beta gets sv_frames kept key split: sum.split option.split)
  show "sv (snd (service_Reconcile c mc nn s)) k = Some svc" "sv (snd (slice_Reconcile c mc nn s)) k = Some svc"
    using assms by (simp_all add: service_Reconcile_def slice_Reconcile_def split_beta Let_def gets sv_frames
        split: sum.split option.split)
qed

lemma dispatch_services: "sv (snd (dispatch w fromSE fromES c ev (cd, s))) = sv s"
proof (cases ev)
  case (OnExport n)
  obtain nn where "export_target fromSE n \<in> {None, Some nn}" by (cases "export_target fromSE n") auto
  from dispatch_export_only [OF this, where w = w and fromES = fromES and cd = cd and s = s] show ?thesis
    by (simp add: OnExport only_at_def)
next
  case (OnSlice n)
  obtain nn where "slice_target w fromES n \<in> {None, Some nn}" by (cases "slice_target w fromES n") auto
  from dispatch_slice_only [OF this, where fromSE = fromSE and cd = cd and s = s] show ?thesis
    by (simp add: OnSlice only_at_def)
qed

lemma step_services_kept:
  "sv s k = Some svc \<Longrightarrow> sv (snd (controller_step fromSE fromES c mc ev (cd, s))) k = Some svc"
  by (cases ev) (simp_all add: controller_step_def dispatch_services Reconcile_services_kept)

lemma run_services_kept:
  assumes "sv s k = Some svc" "\<And>s. sv (settle s) = sv s"
  shows "sv (snd (run_controllers fromSE fromES c mc settle evs (cd, s))) k = Some svc"
  using assms(1)
proof (induction evs arbitrary: cd s)
  case (Cons ev evs)
  obtain cd1 s1 where d: "controller_step fromSE fromES c mc ev (cd, s) = (cd1, s1)" by fastforce
  have "sv (settle s1) k = Some svc"
    using step_services_kept [OF Cons.prems, of fromSE fromES ev cd] d assms(2) by simp
  from Cons.IH [OF this, of cd1] show ?case by (simp add: d)
qed simp

end

section \<open>The addresses\<close>

lemma derived_annotation_ips: "derived_annotation (si\<lparr>si_IPs := ips\<rparr>) = derived_annotation si"
  by (simp add: derived_annotation_def)

context mcs_synced
begin

lemma third_round:
  assumes s: "up s" "im' s = im s" "sv' s = sv s"
    and svc: "sv s nn = Some svc" "om_DeletionTimestamp (svc_meta svc) = None"
      "serviceImportOwner (om_OwnerReferences (svc_meta svc)) = owner" "owner \<noteq> ''''"
    and si: "im s (NamespacedName (Namespace nn) owner) = Some si"
  shows "sv (snd (service_Reconcile c mc nn s)) = sv s \<and>
    im (snd (service_Reconcile c mc nn s)) = (im s)(NamespacedName (Namespace nn) owner \<mapsto>
      (if elems (desiredIPs svc) = elems (si_IPs si) then si else si\<lparr>si_IPs := desiredIPs svc\<rparr>))"
proof -
  let ?k = "NamespacedName (Namespace nn) owner" and ?ob = "si\<lparr>si_IPs := desiredIPs svc\<rparr>"
  let ?s1 = "snd (cl_Get (cl_Services c) nn s)"
  let ?s2 = "snd (cl_Get (cl_Imports c) ?k ?s1)"
  have get: "fst (cl_Get (cl_Services c) nn s) = Inr svc" using svcs.up_Get [OF s(1)] s(3) svc(1) by simp
  have s1: "up ?s1" "im ?s1 = im s" "sv ?s1 = sv s" "im' ?s1 = im s"
    using svcs.up_after(1) [OF s(1)] svcs.Get_others [of nn s] s(2) by (simp_all add: gets)
  have get2: "fst (cl_Get (cl_Imports c) ?k ?s1) = Inr si" using imps.up_Get [OF s1(1)] s1(4) si by simp
  have s2: "up ?s2" "im ?s2 = im s" "sv ?s2 = sv s" using imps.up_after(1) [OF s1(1)] s1 by (simp_all add: gets)
  have key: "si_key si = ?k" using imps.cached_key [of s ?k si] s(2) si by simp
  have ok: "fst (mu_Import mc ?ob si ?s2) = None" using Import_up(1) [OF s2(1), of ?ob si] s2(2) si key by simp
  then have "im (snd (mu_Import mc ?ob si ?s2)) = (im s)(?k \<mapsto> ?ob)"
    using Import_outcome [of ?ob si ?s2] s2(2) key by (simp add: write_outcome_def)
  then show ?thesis
    using ok get get2 svc s2 si by (auto simp: service_Reconcile_def split_beta Let_def sv_frames)
qed

text \<open>An import of type ClusterSetIP becomes a Service: over a cluster that answers and whose cache
  catches up, two rounds of the ServiceImport reconciler note the derived name on the import and create
  a Service of that name, owned by the import and with exactly its ports, and a round of the Service
  reconciler then writes its first two addresses into the import, none for a headless Service; what
  the import shows of the exported Service stays.\<close>

lemma derived_rounds:
  assumes s: "up s" "im' s = im s" "sv' s = sv s"
    and si: "im s nn = Some si" "\<not> shouldIgnoreImport si" "derived_annotation si = ''''" "Name nn \<noteq> ''''"
    and k: "k = NamespacedName (Namespace nn) (derivedName nn)" "sv s k = None"
    and rounds: "s1 = settle (snd (import_Reconcile c mc nn s))" "s2 = settle (snd (import_Reconcile c mc nn s1))"
      "s3 = settle (snd (service_Reconcile c mc k s2))"
  shows "\<exists>svc si3. sv s3 k = Some svc \<and> elems (localServicePorts svc) = elems (si_Ports si) \<and>
    serviceImportOwner (om_OwnerReferences (svc_meta svc)) = Name nn \<and>
    im s3 nn = Some si3 \<and> derived_annotation si3 = derivedName nn \<and> import_view si3 = import_view si \<and>
    elems (si_IPs si3) =
      (if svc_ClusterIP svc = ClusterIPNone then [] else take 2 (elems (svc_ClusterIPs svc)))"
proof -
  note settled = settle_stored settle_cached settle_up
  let ?si1 = "annotate_import (derivedName nn) si"
  have ne: "derivedName nn \<noteq> ''''" by (simp add: derivedName_def)
  have s1: "up s1" "im s1 = (im s)(nn \<mapsto> ?si1)" "im' s1 = im s1" "sv s1 = sv s" "sv' s1 = sv s1"
    using first_round [OF s(1,2) si(1-3)] Reconcile_up(1) [OF s(1)]
    by (simp_all add: rounds(1) settled)
  have at: "im s1 nn = Some ?si1" "derived_annotation ?si1 = derivedName nn" "\<not> shouldIgnoreImport ?si1"
    "sv s1 k = None"
    using si(2) k(2) by (simp_all add: s1(2,4))
  from second_round [OF s1(1,3,5) at(1,3)] ne at(2,4) obtain svc where
    svc: "sv (snd (import_Reconcile c mc nn s1)) = (sv s)(k \<mapsto> svc)"
      "im (snd (import_Reconcile c mc nn s1)) = im s1" "allocated (derived_service nn ?si1) svc"
    unfolding k(1) [symmetric] at(2) s1(4) by blast
  have s2: "up s2" "im' s2 = im s2" "sv' s2 = sv s2" "im s2 nn = Some ?si1" "sv s2 k = Some svc"
    using svc at(1) Reconcile_up(1) [OF s1(1)] by (simp_all add: rounds(2) settled)
  have owner: "serviceImportOwner (om_OwnerReferences (svc_meta svc)) = Name nn"
      "om_DeletionTimestamp (svc_meta svc) = None" "elems (localServicePorts svc) = elems (si_Ports si)"
    using svc(3) localServicePorts_derived [of nn ?si1] by (simp_all add: allocated_def derived_service_def)
  have nn: "NamespacedName (Namespace k) (Name nn) = nn" by (simp add: k(1))
  let ?si3 = "if elems (desiredIPs svc) = elems (si_IPs ?si1) then ?si1 else ?si1\<lparr>si_IPs := desiredIPs svc\<rparr>"
  have s3: "sv s3 k = Some svc" "im s3 nn = Some ?si3"
    using third_round [OF s2(1-3,5) owner(2,1) si(4)] s2(4,5) unfolding nn rounds(3) settle_stored
    by simp_all
  have "elems (si_IPs ?si3) = elems (desiredIPs svc)" by simp
  also have "\<dots> = (if svc_ClusterIP svc = ClusterIPNone then [] else take 2 (elems (svc_ClusterIPs svc)))"
    by (cases "svc_ClusterIPs svc") (simp_all add: desiredIPs_def min_def)
  finally have ips: "elems (si_IPs ?si3) =
      (if svc_ClusterIP svc = ClusterIPNone then [] else take 2 (elems (svc_ClusterIPs svc)))" .
  have "derived_annotation ?si3 = derivedName nn" "import_view ?si3 = import_view si"
    by (simp_all add: derived_annotation_ips)
  then show ?thesis using s3 owner ips by blast
qed

end

text \<open>The label a mirror gets for its Service is the one of the remote slice.\<close>

lemma spec_slice_backed:
  assumes "snd (spec_slice w esp m) k = Some v" "fst v LabelServiceName = Some name"
  shows "snd m k = Some v \<or> (\<exists>es. esp = Some es \<and> om_Labels (es_meta es) LabelServiceName = Some name)"
  using assms
  by (auto simp: spec_slice_def localServiceImportOwner_def mirror_labels_def api_const_defs split: option.splits if_splits)

lemma spec_controller_backed:
  assumes emitters: "\<And>u es. fromES u = Some es \<Longrightarrow> om_Labels (es_meta es) LabelServiceName \<noteq> Some name"
    and v: "snd (spec_controller fromSE fromES ev m) k = Some v" "fst v LabelServiceName = Some name"
  shows "snd m k = Some v"
proof -
  have es: "toEndpointSlice fromES obj = Some es \<Longrightarrow> om_Labels (es_meta es) LabelServiceName \<noteq> Some name" for obj es
    using emitters by (cases obj) (auto simp: toEndpointSlice_def)
  have "snd (spec_slice w (toEndpointSlice fromES obj) m) k = Some v \<Longrightarrow> snd m k = Some v" for w obj
    using spec_slice_backed [of w "toEndpointSlice fromES obj" m k v name] v(2) es by blast
  then show ?thesis
    using v(1)
    by (auto simp: spec_controller_def spec_event_def spec_export_def spec_unexport_def spec_unslice_def
        split: controller_event.splits watch_event.splits notification.splits option.splits sum.splits if_splits)
qed

section \<open>Properties\<close>

text \<open>C10. Watchers and reconcilers do not fight: let the handlers of any number of watchers and the three
  reconcilers run in any order, over a cluster that answers and whose cache catches up after each
  step, from a state whose slices do not carry the label of the multicluster API. Then what the
  ServiceImports and EndpointSlices show is what the watchers alone would have made of them: no
  reconciler sets back an import, and none relabels a mirror.\<close>

theorem controllers_refine_mirror:
  assumes "mcs_synced c ex ex' sv sv' im im' sl sl' up settle mc"
    and "up s" "im' s = im s" "sl' s = sl s" "plain_labels (mirror_view (im s) (sl s))"
    and "s1 = snd (run_controllers fromSE fromES c mc settle evs (cd, s))"
  shows "mirror_view (im s1) (sl s1) = fold (spec_controller fromSE fromES) evs (mirror_view (im s) (sl s))"
  using mcs_synced.controllers_refine [OF assms(1) _ assms(5), of fromSE fromES evs cd] assms(2-4,6)
    synced_cluster.in_sync_def [OF mcs_synced.axioms(1) [OF assms(1)]]
  by simp

definition web_import :: service_import where
  "web_import =
     \<lparr>si_meta = web_meta, si_Ports = localServicePorts web_service, si_IPs = None, si_Type = ClusterSetIP,
      si_SessionAffinity = ''None'', si_SessionAffinityConfig = None, si_IPFamilies = None,
      si_InternalTrafficPolicy = None, si_TrafficDistribution = None, si_Clusters = [], si_Conditions = []\<rparr>"

definition import_mem :: mem where
  "import_mem = sync (empty_mem\<lparr>m_Imports := [web \<mapsto> web_import]\<rparr>)"

lemma import_mem_facts [simp]:
  "v_Imports import_mem = [web \<mapsto> web_import]" "vc_Imports import_mem = v_Imports import_mem"
  "v_Services import_mem = Map.empty" "vc_Services import_mem = Map.empty" "v_Slices import_mem = Map.empty"
  "vc_Slices import_mem = v_Slices import_mem" "m_up import_mem"
  by (simp_all add: import_mem_def sync_def empty_mem_def m_up_def keyed_id web_import_def si_key_def om_key_def
      web_meta_def empty_meta_def web_def)

lemma mem_mcs_synced: "mcs_synced mem_client v_Exports vc_Exports v_Services vc_Services v_Imports vc_Imports
    v_Slices vc_Slices m_up sync mem_mcs"
  by (rule mem_mcs.mcs_synced_axioms)

theorem controllers_refine_mirror_witness:
  "map_option import_view (v_Imports (snd (run_controllers Some (\<lambda>_. None) mem_client mem_mcs sync
     [ImportRequest web, FromWatcher (NewWatcher ''b'' ''a'' [] []) (OnExport (Added (Unstructured web_export))),
      ImportRequest web, ServiceRequest web, SliceRequest web] (None, import_mem))) web) =
   Some (import_view web_import)"
proof -
  let ?evs = "[ImportRequest web, FromWatcher (NewWatcher ''b'' ''a'' [] []) (OnExport (Added (Unstructured web_export))),
      ImportRequest web, ServiceRequest web, SliceRequest web]"
  let ?s1 = "snd (run_controllers Some (\<lambda>_. None) mem_client mem_mcs sync ?evs (None, import_mem))"
  have plain: "plain_labels (mirror_view (v_Imports import_mem) (v_Slices import_mem))"
    by (simp add: plain_labels_def mirror_view_def)
  have "\<exists>e. extractAnnotations web_export = Inl e" by (simp add: extractAnnotations_def)
  then obtain e where "extractAnnotations web_export = Inl e" by blast
  then have "fold (spec_controller Some (\<lambda>_. None)) ?evs (mirror_view (v_Imports import_mem) (v_Slices import_mem)) =
      mirror_view (v_Imports import_mem) (v_Slices import_mem)"
    by (simp add: spec_controller_def spec_event_def spec_export_def toServiceExport_def)
  then have "mirror_view (v_Imports ?s1) (v_Slices ?s1) = mirror_view (v_Imports import_mem) (v_Slices import_mem)"
    by (rule trans [OF controllers_refine_mirror [OF mem_mcs_synced import_mem_facts(7,2,6) plain refl]])
  then have "fst (mirror_view (v_Imports ?s1) (v_Slices ?s1)) web = fst (mirror_view (v_Imports import_mem) (v_Slices import_mem)) web"
    by simp
  then show ?thesis by (simp add: mirror_view_def)
qed

text \<open>C37. No controller changes a Service that exists, under stale caches and failing calls and in any order:
  in particular a derived Service keeps the ports it was created with when the ports of the import,
  and of the remote Service behind it, change.\<close>

theorem existing_services_kept:
  assumes "mcs_cluster c ex ex' sv sv' im im' sl sl' up mc"
    and "\<And>s. sv (settle s) = sv s" and "sv s k = Some svc"
  shows "sv (snd (run_controllers fromSE fromES c mc settle evs (cd, s))) k = Some svc"
  by (rule mcs_cluster.run_services_kept [OF assms(1,3,2)])

theorem existing_services_kept_witness:
  "v_Services (snd (run_controllers Some (\<lambda>_. None) mem_client mem_mcs sync
     [ServiceRequest web, ImportRequest web] (None, mem_with (Some web_service) None))) web = Some web_service"
  by (rule existing_services_kept [OF mcs_synced.axioms(2) [OF mem_mcs_synced]]) (simp_all add: sync_def)

text \<open>C36. A derived Service has no endpoints: over a cluster that answers, from a state in which no slice
  is labelled for it, no run of the watchers and the reconcilers labels one, unless an emitter serves a
  slice that already is. Mirrors are labelled for the name the Service has in the remote cluster, and
  the reconciler that would relabel them looks for a label they do not carry.\<close>

theorem derived_service_without_endpoints:
  assumes B: "mcs_synced c ex ex' sv sv' im im' sl sl' up settle mc"
    and s: "up s" "im' s = im s" "sl' s = sl s" "plain_labels (mirror_view (im s) (sl s))"
    and none: "\<And>k es. sl s k = Some es \<Longrightarrow> om_Labels (es_meta es) LabelServiceName \<noteq> Some (derivedName nn)"
    and emitters: "\<And>u es. fromES u = Some es \<Longrightarrow> om_Labels (es_meta es) LabelServiceName \<noteq> Some (derivedName nn)"
    and es: "sl (snd (run_controllers fromSE fromES c mc settle evs (cd, s))) k = Some es"
  shows "om_Labels (es_meta es) LabelServiceName \<noteq> Some (derivedName nn)"
proof -
  have "snd (fold (spec_controller fromSE fromES) evs m) k = Some v \<Longrightarrow>
      fst v LabelServiceName = Some (derivedName nn) \<Longrightarrow> snd m k = Some v" for m v
  proof (induction evs arbitrary: m)
    case (Cons ev evs)
    have "snd (spec_controller fromSE fromES ev m) k = Some v" by (rule Cons.IH) (use Cons.prems in simp_all)
    from spec_controller_backed [OF emitters this Cons.prems(2)] show ?case .
  qed simp
  note from_start = this [of "mirror_view (im s) (sl s)" "slice_view es"]
  have "snd (mirror_view (im s) (sl s)) k \<noteq> Some (slice_view es)"
    if "om_Labels (es_meta es) LabelServiceName = Some (derivedName nn)"
  proof
    assume "snd (mirror_view (im s) (sl s)) k = Some (slice_view es)"
    then obtain z where "sl s k = Some z" "om_Labels (es_meta z) = om_Labels (es_meta es)"
      by (auto simp: mirror_view_def slice_view_def)
    with none [of k z] that show False by simp
  qed
  moreover have "synced_cluster.in_sync im im' sl sl' up s"
    using s(1-3) by (simp add: synced_cluster.in_sync_def [OF mcs_synced.axioms(1) [OF B]])
  from mcs_synced.controllers_refine [OF B this s(4), THEN conjunct1, symmetric, of fromSE fromES evs cd]
  have "snd (fold (spec_controller fromSE fromES) evs (mirror_view (im s) (sl s))) k = Some (slice_view es)"
    by (simp add: mirror_view_def es)
  ultimately show ?thesis using from_start by (auto simp: slice_view_def)
qed

theorem derived_service_without_endpoints_witness:
  "\<exists>es. v_Slices (snd (run_controllers (\<lambda>_. None) (\<lambda>_. Some web_slice) mem_client mem_mcs sync
       [FromWatcher (NewWatcher ''b'' ''r1'' [] []) (OnSlice (Added (Unstructured ()))),
        SliceRequest (NamespacedName ''shop'' ''r1-web-x7'')] (None, import_mem)))
       (NamespacedName ''shop'' ''r1-web-x7'') = Some es \<and>
     om_Labels (es_meta es) LabelServiceName \<noteq> Some (derivedName web)"
proof -
  let ?evs = "[FromWatcher (NewWatcher ''b'' ''r1'' [] []) (OnSlice (Added (Unstructured ()))),
      SliceRequest (NamespacedName ''shop'' ''r1-web-x7'')]"
  let ?k = "NamespacedName ''shop'' ''r1-web-x7''"
  let ?s1 = "snd (run_controllers (\<lambda>_. None) (\<lambda>_. Some web_slice) mem_client mem_mcs sync ?evs (None, import_mem))"
  have plain: "plain_labels (mirror_view (v_Imports import_mem) (v_Slices import_mem))"
    by (simp add: plain_labels_def mirror_view_def)
  have name: "om_Labels (es_meta web_slice) LabelServiceName \<noteq> Some (derivedName web)"
    by (simp add: web_slice_def api_const_defs derivedName_def)
  have "mirror_view (v_Imports ?s1) (v_Slices ?s1) =
      fold (spec_controller (\<lambda>_. None) (\<lambda>_. Some web_slice)) ?evs (mirror_view (v_Imports import_mem) (v_Slices import_mem))"
    by (rule mem_mcs.controllers_refine [OF _ plain, THEN conjunct1]) (simp add: mem_synced.in_sync_def)
  then have "snd (mirror_view (v_Imports ?s1) (v_Slices ?s1)) ?k \<noteq> None"
    by (simp add: spec_controller_def spec_event_def spec_slice_def toEndpointSlice_def web_slice_facts
        del: run_controllers.simps)
  then obtain es where es: "v_Slices ?s1 ?k = Some es" by (auto simp: mirror_view_def simp del: run_controllers.simps)
  have "om_Labels (es_meta es) LabelServiceName \<noteq> Some (derivedName web)"
    by (rule derived_service_without_endpoints [OF mem_mcs_synced import_mem_facts(7,2,6) plain _ _ es])
       (use name in simp_all)
  with es show ?thesis by blast
qed

end
