(* ===== verification/Spec2Isabelle.thy ===== *)
theory Spec2Isabelle
  imports Reflection Apiserver Manager Selector_Path Resync List_Watch Registry_Runs Slice_Pipeline Detection
    Conflict_System Fleet_Mirror Name_Validity Derived_Service
begin

text \<open>
  A model of service-reflector, a Kubernetes multi-cluster service controller in Go.

  \<^bold>\<open>The program.\<close> A process runs up to two parts. The \<^emph>\<open>emitter\<close> of a cluster serves, read only, the
  cluster's ServiceExports and the EndpointSlices behind them (\<open>pkg/apiserver\<close>, \<open>pkg/storage\<close>), fed by
  two informers. The \<^emph>\<open>reflector\<close> (\<open>pkg/controller\<close>) runs controllers on the local cluster: the
  validator writes the metadata of a Service into the annotations of its export, the conflict detector
  compares the local export with those of the other clusters, and one watcher for each remote emitter
  lists and watches there and writes ServiceImports and EndpointSlices here. \<open>cmd/service-reflector\<close>
  parses the flags, builds both parts and runs them as the actors of a \<open>run.Group\<close>.

  \<^bold>\<open>The theories\<close>, from the bottom up.
  \<^item> \<open>Prelude\<close>: errors as values, results, maps. \<open>Api_Types\<close>: the Kubernetes objects as records.
    \<open>Go_Strings\<close>: what is used of \<open>strconv\<close>, \<open>strings\<close> and \<open>utf8\<close>.
  \<^item> \<open>Json\<close>, \<open>Json_Parser\<close>, \<open>Json_Utf8\<close>, \<open>Codec\<close>: \<open>encoding/json\<close> for the values kept in annotations,
    with round trips from the typed values to text and back.
  \<^item> \<open>Common\<close> (\<open>common.go\<close>): annotation names, ports and type of a Service, \<open>setCondition\<close>.
    \<open>Derived_Name\<close>: \<open>localDerivedName\<close> with SHA-256 and base 32, against \<open>derivedName\<close> of mcs-api.
  \<^item> \<open>Client\<close>, \<open>Merge_Patch\<close>, \<open>Cluster_Api\<close>, \<open>Memory_Api\<close>: the API behind \<open>client.Client\<close>. \<open>Client\<close> and
    \<open>Cluster_Api\<close> state its laws as locales (a write changes one object, a read comes from a cache that
    may be stale, any call may fail); \<open>Memory_Api\<close> interprets them on a concrete API that the witnesses
    evaluate. \<open>Examples\<close> holds the objects the witnesses share.
  \<^item> \<open>Validator\<close> (\<open>serviceexport_validator.go\<close>): \<open>vReconcile\<close> is \<open>Reconcile\<close>.
  \<^item> \<open>Workqueue\<close> (client-go), \<open>Conflict\<close>, \<open>Conflict_Loop\<close> (\<open>conflict_detector.go\<close>): the table of remote
    specifications, the verdict, and the loop \<open>cdStart\<close>, whose rounds are interleaved with the events
    that the watchers record. \<open>Conflict_System\<close>: the detector in its cluster, a step relation in which the
    worker of the controller, the loop of \<open>Start\<close>, the watchers, the cache and any other client of the API
    take turns, between the calls of one \<open>Reconcile\<close> too.
  \<^item> \<open>Watcher\<close>, \<open>Mirror\<close> (\<open>watcher.go\<close>): the four handlers, the requests and the dispatch of \<open>Run\<close>, and
    the specification \<open>mirror\<close> that a sequence of events refines. \<open>Api_Names\<close>, \<open>Name_Validity\<close>: which
    names and labels an API server admits, and what becomes of mirrors it refuses.
  \<^item> \<open>Mcs_Reconcilers\<close>, \<open>Derived_Service\<close> (\<open>vendor/sigs.k8s.io/mcs-api/controllers\<close>): the reconcilers of
    ServiceImports, Services and EndpointSlices that \<open>manager.go\<close> runs beside the watchers, and the runs
    of all of them on one cluster.
  \<^item> \<open>Selectors\<close>, \<open>Storage\<close> (\<open>storage.go\<close>): \<open>List\<close>, \<open>Watch\<close>, \<open>Stop\<close>, the handlers, and the array of
    watchers with the aliasing of Go slices and buffered channels; a panic is a value. \<open>List_Watch\<close>
    compares what a list and a watch show, \<open>Registry_Runs\<close> follows the registry of watchers over its
    life, with the read of the list of watchers and the delivery as two steps. \<open>Emitter_Store\<close> puts the store of exports and the store of slices behind one contract, the locale
    \<open>store_laws\<close>. \<open>Apiserver\<close> (\<open>apiserver.go\<close>): scheme, \<open>Complete\<close>, \<open>New\<close>.
  \<^item> \<open>Selector_Syntax\<close> (\<open>labels/selector.go\<close> of apimachinery): lexer, parser and printer of label
    selectors; \<open>Field_Syntax\<close> (\<open>fields/selector.go\<close>): the same of field selectors. \<open>Selector_Path\<close>: the reflector's selector from the flag to the store of the emitter.
  \<^item> \<open>Event_Log\<close>, \<open>Informer\<close>, \<open>Batch\<close>, \<open>Resync\<close> (client-go): the reflector, its queue, the loop that
    drains it one delta at a time or in batches, and the resync that shows everything again.
  \<^item> \<open>Feed\<close>, \<open>Feed_Flow\<close>, \<open>Pipeline\<close>: the components joined. A feed is a store of the emitter, of either
    kind, its pending notifications, the registry of watchers, and the informer of a client, and
    \<open>feed_step\<close> one step of any of them; the pipeline adds the handlers of the watcher and the API of the
    importing cluster. \<open>Reconnect\<close>: feeds whose stream ends and whose client watches or lists again, as the
    loop \<open>watch\<close> of client-go decides. \<open>Emitter_Site\<close>: one emitter with both its feeds, where the slice
    store looks up the exports the other store holds at that moment.
    \<open>Slice_Pipeline\<close>: the pipeline for slices, and a watcher with both its informers. \<open>Detection\<close>: many
    feeds, one per remote, behind one conflict detector. \<open>Fleet_Mirror\<close>: the slices of many remotes in one
    cluster, and when the names of their mirrors collide.
  \<^item> \<open>Reflection\<close>: what the validator writes is what the watcher and the detector read.
  \<^item> \<open>Manager\<close> (\<open>manager.go\<close>): \<open>Start\<close>. \<open>Flags\<close>, \<open>Options\<close> (\<open>main.go\<close>): the command line on \<open>pflag\<close>,
    \<open>complete\<close>, \<open>buildRemoteConfigs\<close>, \<open>Main\<close>, \<open>main\<close>. \<open>Run_Group\<close>: \<open>run.Group\<close> as a step relation.

  \<^bold>\<open>Correspondence.\<close> A struct is a record and keeps its field names behind a short prefix; nil pointers
  and slices are \<open>None\<close>. A method returns its error and the new state; logging is the returned line
  where the code only logs. A lock is a step that nothing interleaves with; goroutines interleave as
  lists of actions (\<open>feed_action\<close>, the events of \<open>cdStart\<close>) or as a step relation (\<open>group_step\<close>,
  \<open>conflict_run\<close>). An
  order that Go leaves open (ranging over a map) is an argument that only has to enumerate the keys.
  Strings are lists of bytes.

  \<^bold>\<open>What is shown.\<close>
  \<^item> End to end: \<open>reflect_service\<close> and \<open>service_derived_elsewhere\<close> below for one export;
    \<open>Pipeline.pipeline_mirrors\<close> for all exports of a cluster, under the conditions of \<open>client_converges\<close>,
    \<open>Slice_Pipeline.slices_mirrored\<close> for its slices and \<open>Slice_Pipeline.watcher_mirrors_cluster\<close> for both;
    \<open>Fleet_Mirror.fleet_slices_mirrored\<close> for the slices of many remotes at once;
    \<open>Feed.client_converges\<close> for the protocol between emitter and client, and \<open>Feed_Flow\<close> for what it
    loses: changes between the list and the watch, exports that leave the selection, and everything in
    the watch-list mode of client-go. \<open>Reconnect.reconnect_repairs\<close>: a list after the end of the stream repairs
    all of that but the last; \<open>Reconnect.rewatch_keeps_loss\<close>: a mere new watch, as after a normal end, repairs nothing. \<open>Resync.resync_repairs\<close> says what a resync restores after failures, and that a
    failed deletion is not among it.
  \<^item> Validator, detector and watcher: the result of every branch, what is left alone under stale caches
    and failing calls, the refinement \<open>Mirror.watcher_refines_mirror\<close>, the exact verdict
    \<open>Conflict.detect_history\<close>, \<open>conflict_iff_services_differ\<close> below in terms of Services, and
    \<open>Detection.fleet_verdict_exact\<close> in terms of what the emitters of a fleet offer.
  \<^item> The reconcilers of mcs-api: they leave to the watchers what the watchers write, an import gets a
    Service with its ports, that Service is never changed again, and no mirror is labelled for it.
  \<^item> Names: a mirror is valid exactly when its name is not cut at a dash or a dot, and never for a remote
    whose ID holds a colon.
  \<^item> Selectors: parsing never panics, the text of a selector of either kind is read back, and the flag
    of the reflector filters the list of the emitter.
  \<^item> The loop of the detector: no update is lost, every pending key is reconciled, it returns.
    \<open>Conflict_System.conflict_condition_exact\<close>: whatever takes turns, the Conflict condition of an export is
    exact as soon as nobody has to look at that export any more. \<open>Conflict_System.reconcile_rewrites_condition\<close>:
    a reconcile writes the time of the clock, so a later one changes the export also when nothing else did.
  \<^item> The store: an invariant of its registry, lists are exact, deliveries go to whom they should, and the
    ways in which stopping watchers goes wrong. \<open>List_Watch\<close>: a list and a watch with the same options
    agree, and what only a list shows.
  \<^item> The process: flags round trip, the completed options, what \<open>Main\<close> runs, and that a group returns
    the first error after all its actors.

  \<^bold>\<open>Bounds and fuel.\<close> The JSON parser has fuel \<open>Suc (2 * length s)\<close>, enough by its irrelevance lemma, and
  the nesting limit of Go (10000). A channel holds \<open>chan_cap = 100\<close> events; a batch 1000 deltas.
  \<open>cdStart\<close> runs over a list of rounds, one item of the queue each; its theorems say how many rounds
  are enough. A group of \<open>n\<close> actors returns within \<open>3 * n + 3\<close> steps once its actors do. All other
  functions are structurally recursive or have a termination proof. An \<open>int32\<close> port is a 32-bit word
  in the JSON codec, and SHA-256 works on 32-bit words.

  \<^bold>\<open>Assumed of libraries.\<close> The laws of the API are the locales \<open>cluster_api\<close> and, for the calls of
  the reconcilers, \<open>mcs_cluster\<close>; a cache that catches up after each step is \<open>synced_cluster\<close>, a server
  that validates \<open>validating_cluster\<close>. Sorting requirements by key (\<open>sort.Sort\<close>) is only assumed to keep
  them. Each of the locales is interpreted on the concrete API. A state of the API that is \<open>up\<close> admits every
  object; what a server refuses is the matter of \<open>validating_cluster\<close>.

  \<^bold>\<open>Not modelled\<close>, and why: the HTTP handlers for health and metrics, the Prometheus registry and the log
  output (I/O of libraries); the generic API server, REST configurations, certificates, the parser of
  URLs, the manager of controller-runtime and its queues, in whose place a run is
  any order of requests (for the detector, a set of requests in which a failed one stays; libraries: parameters of the definitions, with the laws the theorems name as
  their hypotheses); the garbage collector, which removes objects by their owners; \<open>Start\<close> of mcs-api,
  which the program does not call; of client-go's informers, the back-off, the resource versions, the
  indices and the timer of the resync, which is a step of its own. A feed has one client; the others
  of its registry stay as they are. A notification is one step of a feed, in \<open>Registry_Runs\<close> it is two.
  The theorems on slices need the exports of the Services that own them settled from the last list on;
  \<open>List_Watch.late_export_not_sent\<close> says what is not sent when an export comes after its slices.
\<close>

section \<open>From one cluster to another\<close>

text \<open>What the watcher makes of an export the validator has reconciled.\<close>

lemma export_reflected:
  assumes A: "cluster_api ca ex ex' sv sv' im im' sl sl' up"
    and B: "cluster_api cb exb exb' svb svb' imb imb' slb slb' upb"
    and upA: "up s" "ex' s nn = ex s nn" "ex s nn = Some se" "sv' s nn = Some svc"
    and utf8: "service_utf8 svc"
    and transport: "fromSE u = ex (snd (vReconcile now ca nn s)) nn"
    and upB: "upb t" "imb' t nn = imb t nn"
  shows "fst (vReconcile now ca nn s) = None \<and>
    (\<exists>se' line cd' t'. se_key se' = nn \<and>
       onServiceExportAdd w fromSE cb (Unstructured u) cd t = (Some (Info line), cd', t') \<and> upb t' \<and>
       imb t' = (imb t)(nn \<mapsto> (case imb t nn of
         None \<Rightarrow> new_import se' (spec_of_service svc) | Some si \<Rightarrow> update_import (spec_of_service svc) si)))"
proof -
  let ?se = "set_se_condition (validCondition now nn) (annotate svc se)"
  note v = cluster_api.vReconcile_valid [OF A upA, of now]
  have k: "se_key ?se = nn" using cluster_api.cached_export_key [OF A, of s nn se] upA by simp
  have x: "extractAnnotations ?se = Inr (spec_of_service svc)" by (simp add: extract_annotate utf8)
  have obj: "toServiceExport fromSE (Unstructured u) = Some ?se"
    using transport v(2) by (simp add: toServiceExport_def)
  have curB: "imb' t (se_key ?se) = imb t (se_key ?se)" using upB(2) by (simp only: k)
  note r = cluster_api.reconcile_import_live [OF B upB(1) curB x, unfolded k]
  show ?thesis
    using v(1) r k by (auto simp: onServiceExportAdd_def obj split_beta Let_def intro!: exI [of _ ?se])
qed

text \<open>C1. End to end: cluster A holds a Service and its ServiceExport, the validator of A reconciles
  the export, and the watcher of B is handed the stored export. If both APIs are up and both caches
  are current for the objects involved, then B ends with a ServiceImport under the export's key that
  has the type, the ports, the session affinity, its configuration and the IP families of A's
  Service, whether or not B had one before; no error is returned or logged.\<close>

theorem reflect_service:
  assumes A: "cluster_api ca ex ex' sv sv' im im' sl sl' up"
    and B: "cluster_api cb exb exb' svb svb' imb imb' slb slb' upb"
    and upA: "up s" "ex' s nn = ex s nn" "ex s nn = Some se" "sv' s nn = Some svc"
    and utf8: "service_utf8 svc"
    and transport: "fromSE u = ex (snd (vReconcile now ca nn s)) nn"
    and upB: "upb t" "imb' t nn = imb t nn"
  shows "fst (vReconcile now ca nn s) = None \<and>
    (\<exists>line cd' t' si. onServiceExportAdd w fromSE cb (Unstructured u) cd t = (Some (Info line), cd', t') \<and>
       imb t' nn = Some si \<and> si_Type si = localServiceImportType svc \<and>
       si_Ports si = localServicePorts svc \<and> si_SessionAffinity si = svc_SessionAffinity svc \<and>
       si_SessionAffinityConfig si = svc_SessionAffinityConfig svc \<and>
       si_IPFamilies si = svc_IPFamilies svc)"
proof -
  from export_reflected [where w = w and cd = cd and fromSE = fromSE and u = u and s = s and t = t and nn = nn and now = now, OF assms] obtain se' line cd' t' where
    "fst (vReconcile now ca nn s) = None"
    "onServiceExportAdd w fromSE cb (Unstructured u) cd t = (Some (Info line), cd', t')"
    "imb t' nn = Some (case imb t nn of
       None \<Rightarrow> new_import se' (spec_of_service svc) | Some si \<Rightarrow> update_import (spec_of_service svc) si)"
    by auto
  then show ?thesis
    by (auto simp: spec_of_service_def new_import_def update_import_def split: option.split)
qed

theorem reflect_service_witness:
  "\<exists>line cd' t' si.
     onServiceExportAdd (NewWatcher ''b'' ''a'' [] []) (\<lambda>u. u) mem_client
       (Unstructured (v_Exports (snd (vReconcile 7 mem_client web
          (mem_with (Some web_service) (Some web_export)))) web)) None empty_mem =
       (Some (Info line), cd', t') \<and> v_Imports t' web = Some si \<and>
     si_Ports si = Some [\<lparr>mp_Name = ''http'', mp_Protocol = ''TCP'', mp_AppProtocol = None, mp_Port = 80\<rparr>]"
proof -
  have "service_utf8 web_service"
    by simp
  from reflect_service [OF mem_cluster_api mem_cluster_api _ _ _ _ this,
      of "mem_with (Some web_service) (Some web_export)" web web_export "\<lambda>u. u"
        "v_Exports (snd (vReconcile 7 mem_client web (mem_with (Some web_service) (Some web_export)))) web"
        7 empty_mem "NewWatcher ''b'' ''a'' [] []" None]
  show ?thesis
    by (auto simp: web_ports)
qed

text \<open>C2. All the way: cluster A exports a Service that is not headless, cluster B knows nothing of it
  yet. The validator of A reconciles the export, and on B the watcher is handed the stored export, the
  reconciler of ServiceImports runs twice and the one of Services once, each seeing what was written
  before. Then B holds the derived Service, with the ports of A's Service and owned by the import; and
  the import has the ports and the type of A's Service and the first two addresses of the derived one,
  none when that is headless.\<close>

theorem service_derived_elsewhere:
  assumes A: "cluster_api ca ex ex' sv sv' im im' sl sl' up"
    and B: "mcs_synced cb exb exb' svb svb' imb imb' slb slb' upb settle mc"
    and upA: "up s" "ex' s nn = ex s nn" "ex s nn = Some se" "sv' s nn = Some svc"
    and svc: "service_utf8 svc" "localServiceImportType svc = ClusterSetIP"
    and transport: "fromSE u = ex (snd (vReconcile now ca nn s)) nn"
    and upB: "upb t" "imb' t = imb t" "svb' t = svb t"
    and fresh: "imb t nn = None" "Name nn \<noteq> ''''"
    and k: "k = NamespacedName (Namespace nn) (derivedName nn)" "svb t k = None"
    and run: "t1 = snd (run_controllers fromSE fromES cb mc settle
      [FromWatcher w (OnExport (Added (Unstructured u))), ImportRequest nn, ImportRequest nn, ServiceRequest k] (cd, t))"
  shows "\<exists>svc' si. svb t1 k = Some svc' \<and> elems (localServicePorts svc') = elems (localServicePorts svc) \<and>
    serviceImportOwner (om_OwnerReferences (svc_meta svc')) = Name nn \<and>
    imb t1 nn = Some si \<and> derived_annotation si = derivedName nn \<and> si_Type si = ClusterSetIP \<and>
    si_Ports si = localServicePorts svc \<and>
    elems (si_IPs si) =
      (if svc_ClusterIP svc' = ClusterIPNone then [] else take 2 (elems (svc_ClusterIPs svc')))"
proof -
  note S = mcs_synced.axioms(1) [OF B]
  note settled = synced_cluster.settle_stored [OF S] synced_cluster.settle_cached [OF S] synced_cluster.settle_up [OF S]
  from export_reflected [where w = w and cd = cd and fromSE = fromSE and u = u and s = s and t = t and nn = nn and now = now,
      OF A synced_cluster.axioms(1) [OF S] upA svc(1) transport upB(1)] upB(2) fresh(1)
  obtain se' line cd' t' where t':
    "onServiceExportAdd w fromSE cb (Unstructured u) cd t = (Some (Info line), cd', t')" "upb t'"
    "imb t' = (imb t)(nn \<mapsto> new_import se' (spec_of_service svc))" by auto
  let ?si = "new_import se' (spec_of_service svc)"
  have d: "dispatch w fromSE fromES cb (OnExport (Added (Unstructured u))) (cd, t) = (cd', t')"
    using t'(1) by (simp add: dispatch_def)
  have "svb t' = svb t"
    using mcs_cluster.dispatch_services [OF mcs_synced.axioms(2) [OF B], of w fromSE fromES
        "OnExport (Added (Unstructured u))" cd t] d by simp
  then have s: "upb (settle t')" "imb' (settle t') = imb (settle t')" "svb' (settle t') = svb (settle t')"
      "imb (settle t') nn = Some ?si" "svb (settle t') k = None"
    using t'(2,3) k(2) by (simp_all add: settled)
  have si: "\<not> shouldIgnoreImport ?si" "derived_annotation ?si = ''''" "si_Type ?si = ClusterSetIP"
      "si_Ports ?si = localServicePorts svc"
    using svc(2)
    by (simp_all add: shouldIgnoreImport_def derived_annotation_def new_import_def spec_of_service_def empty_meta_def)
  from mcs_synced.derived_rounds [OF B s(1-4) si(1,2) fresh(2) k(1) s(5) refl refl refl] si(3,4) show ?thesis
    by (fastforce simp: run controller_step_def d import_view_def split_beta)
qed

theorem service_derived_elsewhere_witness:
  "\<exists>svc'. v_Services (snd (run_controllers (\<lambda>u. u) (\<lambda>_. None) mem_client mem_mcs sync
      [FromWatcher (NewWatcher ''b'' ''a'' [] []) (OnExport (Added (Unstructured
         (v_Exports (snd (vReconcile 7 mem_client web (mem_with (Some web_service) (Some web_export)))) web)))),
       ImportRequest web, ImportRequest web, ServiceRequest (NamespacedName ''shop'' (derivedName web))]
      (None, empty_mem))) (NamespacedName ''shop'' (derivedName web)) = Some svc' \<and>
    elems (localServicePorts svc') = elems (localServicePorts web_service)"
proof -
  let ?s = "mem_with (Some web_service) (Some web_export)"
  have empty: "vc_Services empty_mem = v_Services empty_mem" "v_Imports empty_mem nn = None"
    "v_Services empty_mem nn = None" for nn
    by (simp_all add: empty_mem_def)
  have utf8: "service_utf8 web_service" by simp
  have w: "localServiceImportType web_service = ClusterSetIP" "Namespace web = ''shop''"
      "Name web \<noteq> ''''"
    by (simp_all add: localServiceImportType_def api_const_defs web_service_def web_def)
  show ?thesis
    using service_derived_elsewhere [where s = ?s and t = empty_mem and se = web_export and now = 7 and nn = web
        and fromSE = "\<lambda>u. u" and u = "v_Exports (snd (vReconcile 7 mem_client web ?s)) web"
        and w = "NewWatcher ''b'' ''a'' [] []" and cd = None and fromES = "\<lambda>_. None",
        OF mem_cluster_api mem_mcs_synced _ _ _ _ utf8 w(1) refl _ _ _ _ w(3) refl _ refl] w(2)
    by (auto simp: empty simp del: run_controllers.simps)
qed

text \<open>C13. Two layers of the same metadata agree: if every export the watchers have recorded was validated
  against a Service of its cluster, and the local export against the local Service, then a conflict
  is reported exactly when some remote Service differs from the local one in its type or in its
  ports, that is in the name, protocol, application protocol or number of one of them or in
  their order.\<close>

theorem conflict_iff_services_differ:
  assumes order: "range_order order" and svc: "service_utf8 svc"
    and remote: "\<And>cl. case last_export evs nn cl of
        None \<Rightarrow> remote cl = None
      | Some se' \<Rightarrow> \<exists>svc' se0. remote cl = Some svc' \<and> se' = annotate svc' se0 \<and> service_utf8 svc'"
  shows "fst (detectConflict order (fold cd_event evs NewConflictDetector) nn (annotate svc se)) \<longleftrightarrow>
    (\<exists>cl svc'. remote cl = Some svc' \<and>
       (localServiceImportType svc' \<noteq> localServiceImportType svc \<or>
        localServicePorts svc' \<noteq> localServicePorts svc))"
proof -
  let ?cd = "fold cd_event evs NewConflictDetector"
  have inv: "cd_inv ?cd" by (simp add: cd_event_inv)
  have view: "remote_view ?cd (nn, cl) = Some v \<and> v \<noteq> specSummary (Some (annotate svc se)) \<longleftrightarrow>
      last_export evs nn cl \<noteq> None \<and> v = specSummary (last_export evs nn cl) \<and>
      (\<exists>svc'. remote cl = Some svc' \<and> (localServiceImportType svc' \<noteq> localServiceImportType svc \<or>
        localServicePorts svc' \<noteq> localServicePorts svc))" for cl v
  proof (cases "last_export evs nn cl")
    case (Some se')
    then obtain svc' se0 where r: "remote cl = Some svc'" "se' = annotate svc' se0" "service_utf8 svc'"
      using remote [of cl] by auto
    have "specSummary (Some se') = specSummary (Some (annotate svc se)) \<longleftrightarrow>
        localServiceImportType svc' = localServiceImportType svc \<and>
        localServicePorts svc' = localServicePorts svc"
      unfolding r(2) specSummary_eq_iff [OF summary_valid_annotate [OF r(3)] summary_valid_annotate [OF svc]]
      by (rule summary_key_annotate_eq [OF r(3) svc])
    then show ?thesis using Some r(1) by (auto simp: cd_event_history)
  qed (simp add: cd_event_history)
  have none: "last_export evs nn cl \<noteq> None" if "remote cl = Some svc'" for cl svc'
    using remote [of cl] that by (auto split: option.splits)
  show ?thesis
    unfolding detectConflict_verdict [OF inv order] view using none by blast
qed

theorem conflict_iff_services_differ_witness:
  "fst (detectConflict rev
     (fold cd_event [Recorded web ''b'' (annotate (web_service\<lparr>svc_ClusterIP := ''None''\<rparr>) web_export)]
       NewConflictDetector) web (annotate web_service web_export))"
proof -
  let ?h = "web_service\<lparr>svc_ClusterIP := ''None''\<rparr>"
  have u: "service_utf8 web_service" "service_utf8 ?h"
    by simp_all
  have t: "localServiceImportType ?h \<noteq> localServiceImportType web_service"
    by (simp add: localServiceImportType_def api_const_defs web_service_def)
  have l: "last_export [Recorded web ''b'' (annotate ?h web_export)] web cl =
      (if cl = ''b'' then Some (annotate ?h web_export) else None)" for cl
    by simp
  show ?thesis
    by (subst conflict_iff_services_differ [OF range_order_id(2) u(1),
          where remote = "\<lambda>cl. if cl = ''b'' then Some ?h else None"])
       (use u(2) t in \<open>auto simp: l simp del: last_export.simps\<close>)
qed

end
